(* ===== verification/Prelude.thy ===== *)
theory Prelude
  imports Complex_Main "HOL-Library.Word"
begin

text \<open>
  Shared ground of the development: the machine integer types of the daemon, decimal printing as
  done by the C++ standard library's \<^verbatim>\<open>std::to_string\<close>, the \<^verbatim>\<open>clampValue\<close> template, the list and
  word lemmas that several components use, and three interfaces stated as locales: a codec with
  its round-trip law, a step function with an invariant, and a simulation between two step
  functions.  Every component interprets the interfaces it provides on its own definitions.
\<close>

section \<open>Machine integers\<close>

type_synonym u8 = "8 word"
type_synonym u16 = "16 word"
type_synonym u32 = "32 word"
type_synonym u64 = "64 word"

named_theorems health_simps "facts that evaluate the health state machine"
named_theorems monitor_frame "what an operation of the monitor leaves unchanged"

text \<open>Microsecond arithmetic on the 64-bit clock, away from its wrap-around point.\<close>

lemma unat_add_no_wrap:
  fixes a b :: "'a::len word"
  assumes "unat a + unat b < 2 ^ LENGTH('a)"
  shows "unat (a + b) = unat a + unat b"
  using assms by (simp add: unat_word_ariths)

lemma unat_ucast_up:
  fixes a :: "'a::len word"
  assumes "LENGTH('a) \<le> LENGTH('b::len)"
  shows "unat (ucast a :: 'b word) = unat a"
proof -
  have "unat a < 2 ^ LENGTH('b)"
    by (rule less_le_trans [OF unsigned_less]) (use assms in \<open>simp add: power_increasing\<close>)
  then show ?thesis by (simp add: unsigned_ucast_eq take_bit_nat_eq_self)
qed

lemma unat_less_pow: "unat (a :: 'a::len word) < 2 ^ LENGTH('a)"
  by (rule unsigned_less)

lemma word_add_mono_no_wrap:
  fixes a b c :: u64
  assumes "a \<le> b" and "unat b + unat c < 2 ^ 64"
  shows "a + c \<le> b + c"
proof -
  have "unat a \<le> unat b" using assms(1) by (simp add: word_le_nat_alt)
  with assms(2) show ?thesis
    by (simp add: word_le_nat_alt unat_word_ariths)
qed

lemma word_le_add_no_wrap:
  fixes a b :: u64
  assumes "unat a + unat b < 2 ^ 64"
  shows "a \<le> a + b"
  using assms by (simp add: word_le_nat_alt unat_word_ariths)

lemma word_succ_le_mono:
  fixes a b :: u64
  assumes "a \<le> b" and "unat b < 2 ^ 64 - 1"
  shows "a + 1 \<le> b + 1"
proof -
  have "unat a \<le> unat b" using assms(1) by (simp add: word_le_nat_alt)
  with assms(2) show ?thesis
    by (simp add: word_le_nat_alt unat_word_ariths)
qed

lemma word_le_succ:
  fixes a b :: u64
  assumes "a \<le> b" and "unat b < 2 ^ 64 - 1"
  shows "a \<le> b + 1"
proof -
  have "unat a \<le> unat b" using assms(1) by (simp add: word_le_nat_alt)
  with assms(2) show ?thesis
    by (simp add: word_le_nat_alt unat_word_ariths)
qed

section \<open>Small helpers of the standard library\<close>

text \<open>\<^verbatim>\<open>clampValue\<close> of \<^verbatim>\<open>monitor.cpp\<close>: the template at any ordered type.\<close>

definition clampValue :: "'a::linorder \<Rightarrow> 'a \<Rightarrow> 'a \<Rightarrow> 'a" where
  "clampValue v low high =
     (if v < low then low else if v > high then high else v)"

lemma clampValue_bounds: "low \<le> high \<Longrightarrow> low \<le> clampValue v low high \<and> clampValue v low high \<le> high"
  by (auto simp: clampValue_def)

lemma clampValue_id: "low \<le> v \<Longrightarrow> v \<le> high \<Longrightarrow> clampValue v low high = v"
  by (auto simp: clampValue_def)

text \<open>\<^verbatim>\<open>std::to_string\<close> of an unsigned and of a signed integer: decimal, no padding.\<close>

definition digit_char :: "nat \<Rightarrow> char" where
  "digit_char d = char_of (48 + d)"

fun to_string_nat :: "nat \<Rightarrow> string" where
  "to_string_nat n = (if n < 10 then [digit_char n] else to_string_nat (n div 10) @ [digit_char (n mod 10)])"

declare to_string_nat.simps [simp del]

definition to_string_u64 :: "u64 \<Rightarrow> string" where
  "to_string_u64 w = to_string_nat (unat w)"

definition to_string_int :: "int \<Rightarrow> string" where
  "to_string_int i = (if i < 0 then CHR ''-'' # to_string_nat (nat (- i)) else to_string_nat (nat i))"

definition is_digit :: "char \<Rightarrow> bool" where
  "is_digit c \<longleftrightarrow> 48 \<le> (of_char c :: nat) \<and> (of_char c :: nat) \<le> 57"

definition digit_value :: "char \<Rightarrow> nat" where
  "digit_value c = of_char c - 48"

text \<open>Reading a run of decimal digits back, most significant first.\<close>

definition read_digits :: "string \<Rightarrow> nat" where
  "read_digits s = foldl (\<lambda>a c. 10 * a + digit_value c) 0 s"

lemma of_char_digit_char: "d < 10 \<Longrightarrow> (of_char (digit_char d) :: nat) = 48 + d"
  by (simp add: digit_char_def)

lemma is_digit_digit_char [simp]: "d < 10 \<Longrightarrow> is_digit (digit_char d)"
  by (simp add: is_digit_def of_char_digit_char)

lemma digit_value_digit_char [simp]: "d < 10 \<Longrightarrow> digit_value (digit_char d) = d"
  by (simp add: digit_value_def of_char_digit_char)

lemma read_digits_snoc [simp]: "read_digits (s @ [c]) = 10 * read_digits s + digit_value c"
  by (simp add: read_digits_def)

lemma read_digits_Nil [simp]: "read_digits [] = 0"
  by (simp add: read_digits_def)

lemma to_string_nat_digits: "\<forall>c \<in> set (to_string_nat n). is_digit c"
proof (induction n rule: to_string_nat.induct)
  case (1 n)
  then show ?case
    by (cases "n < 10") (auto simp: to_string_nat.simps [of n])
qed

lemma to_string_nat_nonempty [simp]: "to_string_nat n \<noteq> []"
  by (subst to_string_nat.simps) simp

lemma read_to_string_nat [simp]: "read_digits (to_string_nat n) = n"
proof (induction n rule: to_string_nat.induct)
  case (1 n)
  show ?case
  proof (cases "n < 10")
    case True
    then have "read_digits ([] @ [digit_char n]) = n"
      by (simp only: read_digits_snoc) simp
    with True show ?thesis by (simp add: to_string_nat.simps [of n])
  next
    case False
    with 1 show ?thesis by (simp add: to_string_nat.simps [of n])
  qed
qed

lemma to_string_nat_inject [simp]: "to_string_nat m = to_string_nat n \<longleftrightarrow> m = n"
  by (metis read_to_string_nat)

lemma to_string_u64_inject [simp]: "to_string_u64 v = to_string_u64 w \<longleftrightarrow> v = w"
  by (simp add: to_string_u64_def word_unat_eq_iff)

section \<open>Lists\<close>

text \<open>
  Two strings split at the last occurrence of a separator in only one way.  This is what makes a
  composite key unambiguous when its last fields cannot contain the separator.
\<close>

lemma split_last_separator:
  assumes "xs @ c # ys = xs' @ c # ys'" and "c \<notin> set ys" and "c \<notin> set ys'"
  shows "xs = xs' \<and> ys = ys'"
proof -
  have "rev ys @ c # rev xs = rev ys' @ c # rev xs'"
    using arg_cong [OF assms(1), of rev] by simp
  moreover have "takeWhile (\<lambda>x. x \<noteq> c) (rev ys @ c # rev xs) = rev ys"
    using assms(2) by (subst takeWhile_append2) auto
  moreover have "takeWhile (\<lambda>x. x \<noteq> c) (rev ys' @ c # rev xs') = rev ys'"
    using assms(3) by (subst takeWhile_append2) auto
  ultimately have "rev ys = rev ys'" by simp
  then have "ys = ys'" by simp
  with assms(1) show ?thesis by simp
qed

section \<open>Interfaces\<close>

text \<open>An encoding together with the decoder its reader applies.\<close>

locale codec =
  fixes encode :: "'a \<Rightarrow> 'b"
    and decode :: "'b \<Rightarrow> 'a option"
    and valid :: "'a \<Rightarrow> bool"
  assumes decode_encode: "valid x \<Longrightarrow> decode (encode x) = Some x"
begin

lemma encode_inj:
  assumes "valid x" and "valid y" and "encode x = encode y"
  shows "x = y"
proof -
  have "Some x = decode (encode y)" using decode_encode [OF assms(1)] assms(3) by simp
  also have "\<dots> = Some y" by (rule decode_encode [OF assms(2)])
  finally show ?thesis by simp
qed

end

text \<open>A step function that keeps an invariant keeps it over any run.\<close>

locale step_invariant =
  fixes step :: "'i \<Rightarrow> 's \<Rightarrow> 's"
    and inv :: "'s \<Rightarrow> bool"
  assumes step_inv: "inv s \<Longrightarrow> inv (step i s)"
begin

lemma run_inv: "inv s \<Longrightarrow> inv (fold step is s)"
  by (induction "is" arbitrary: s) (simp_all add: step_inv)

end

text \<open>
  A simulation: every concrete step is matched by an abstract step on the same input, and related
  states show the same observation.
\<close>

locale simulation =
  fixes cstep :: "'i \<Rightarrow> 'c \<Rightarrow> 'c"
    and astep :: "'i \<Rightarrow> 'a \<Rightarrow> 'a"
    and rel :: "'c \<Rightarrow> 'a \<Rightarrow> bool"
    and cobs :: "'c \<Rightarrow> 'o"
    and aobs :: "'a \<Rightarrow> 'o"
  assumes step_sim: "rel c a \<Longrightarrow> rel (cstep i c) (astep i a)"
    and obs_sim: "rel c a \<Longrightarrow> cobs c = aobs a"
begin

lemma run_sim: "rel c a \<Longrightarrow> rel (fold cstep is c) (fold astep is a)"
  by (induction "is" arbitrary: c a) (simp_all add: step_sim)

lemma run_obs: "rel c a \<Longrightarrow> cobs (fold cstep is c) = aobs (fold astep is a)"
  by (rule obs_sim) (rule run_sim)

end

end
