(* ===== verification/Health.thy ===== *)
theory Health
  imports Prelude
begin

text \<open>
  The health state machine of \<^verbatim>\<open>monitor.cpp\<close>: the states, how a probe result is classified, and
  how one destination's verdict moves under a sequence of results (\<^verbatim>\<open>Monitor::classify\<close> and the
  body of the loop of \<^verbatim>\<open>Monitor::applySample\<close>).  The abstract machine at the end remembers the
  disagreeing results themselves instead of a candidate and a counter; the concrete machine
  simulates it, which gives the properties a user is promised.
\<close>

section \<open>States and classification\<close>

datatype HealthState = Unknown | Good | Warn | Bad | Offline

definition healthStateName :: "HealthState \<Rightarrow> string" where
  "healthStateName state = (case state of
       Good \<Rightarrow> ''good''
     | Warn \<Rightarrow> ''warn''
     | Bad \<Rightarrow> ''bad''
     | Offline \<Rightarrow> ''offline''
     | Unknown \<Rightarrow> ''unknown'')"

definition reportedState :: "HealthState \<Rightarrow> bool \<Rightarrow> HealthState" where
  "reportedState state partTime = (if partTime \<and> state = Bad then Offline else state)"

definition classify :: "bool \<Rightarrow> u64 \<Rightarrow> u64 \<Rightarrow> HealthState" where
  "classify received rttUs thresholdUs =
     (if \<not> received then Bad
      else if rttUs \<le> thresholdUs then Good else Warn)"

section \<open>Destinations\<close>

record Destination =
  d_id :: string
  d_name :: string
  d_address :: string
  d_order :: int
  d_thresholdUs :: u64
  d_sensitivity :: int
  d_enabled :: bool
  d_partTime :: bool
  d_prober :: int
  d_state :: HealthState
  d_candidate :: HealthState
  d_candidateStreak :: int
  d_haveRtt :: bool
  d_rttUs :: u64
  d_sent :: u64
  d_received :: u64
  d_lastReplyRealUs :: u64
  d_lastChangeRealUs :: u64

text \<open>The member initialisers of \<^verbatim>\<open>struct Destination\<close>.\<close>

definition Destination_default :: Destination where
  "Destination_default = \<lparr>
     d_id = '''', d_name = '''', d_address = '''', d_order = 0,
     d_thresholdUs = 1000, d_sensitivity = 3, d_enabled = True, d_partTime = False,
     d_prober = - 1, d_state = Unknown, d_candidate = Unknown, d_candidateStreak = 0,
     d_haveRtt = False, d_rttUs = 0, d_sent = 0, d_received = 0,
     d_lastReplyRealUs = 0, d_lastChangeRealUs = 0\<rparr>"

text \<open>The verdict part of the loop body: adopt, agree, or count a disagreeing result.\<close>

definition judge :: "HealthState \<Rightarrow> Destination \<Rightarrow> Destination" where
  "judge sample d =
     (if d_state d = Unknown
      then d\<lparr>d_state := sample, d_candidate := sample, d_candidateStreak := 0\<rparr>
      else if sample = d_state d
      then d\<lparr>d_candidate := sample, d_candidateStreak := 0\<rparr>
      else
        let d1 = (if sample = d_candidate d
                  then d\<lparr>d_candidateStreak := d_candidateStreak d + 1\<rparr>
                  else d\<lparr>d_candidate := sample, d_candidateStreak := 1\<rparr>)
        in if d_candidateStreak d1 > d_sensitivity d1
           then d1\<lparr>d_state := sample, d_candidateStreak := 0\<rparr>
           else d1)"

text \<open>
  The bookkeeping part: packet counters and the last round-trip time.
\<close>

definition recordSample :: "bool \<Rightarrow> u64 \<Rightarrow> u64 \<Rightarrow> Destination \<Rightarrow> Destination" where
  "recordSample received rttUs realNow d =
     (let d1 = d\<lparr>d_sent := d_sent d + 1\<rparr>
      in if received
         then d1\<lparr>d_received := d_received d1 + 1, d_haveRtt := True, d_rttUs := rttUs,
                 d_lastReplyRealUs := realNow\<rparr>
         else d1\<lparr>d_haveRtt := False\<rparr>)"

text \<open>
  The whole loop body for one subscribed destination.  The Boolean says whether the state
  changed, which is what makes the caller set \<^verbatim>\<open>m_stateDirty\<close>.
\<close>

definition applySampleTo :: "bool \<Rightarrow> u64 \<Rightarrow> u64 \<Rightarrow> Destination \<Rightarrow> Destination \<times> bool" where
  "applySampleTo received rttUs realNow d =
     (let d1 = recordSample received rttUs realNow d;
          sample = classify received rttUs (d_thresholdUs d1);
          before = d_state d1;
          d2 = judge sample d1
      in if d_state d2 \<noteq> before then (d2\<lparr>d_lastChangeRealUs := realNow\<rparr>, True)
         else (d2, False))"

section \<open>What one result does\<close>

lemma classify_verdict [health_simps]: "classify received rtt t \<in> {Good, Warn, Bad}"
  by (auto simp: classify_def)

lemma classify_known [simp]: "classify received rtt t \<noteq> Unknown" "classify received rtt t \<noteq> Offline"
  using classify_verdict [of received rtt t] by auto

lemma judge_config [simp]:
  "d_id (judge x d) = d_id d" "d_name (judge x d) = d_name d" "d_address (judge x d) = d_address d"
  "d_order (judge x d) = d_order d" "d_thresholdUs (judge x d) = d_thresholdUs d"
  "d_sensitivity (judge x d) = d_sensitivity d" "d_enabled (judge x d) = d_enabled d"
  "d_partTime (judge x d) = d_partTime d" "d_prober (judge x d) = d_prober d"
  "d_sent (judge x d) = d_sent d" "d_received (judge x d) = d_received d"
  "d_haveRtt (judge x d) = d_haveRtt d" "d_rttUs (judge x d) = d_rttUs d"
  "d_lastReplyRealUs (judge x d) = d_lastReplyRealUs d"
  "d_lastChangeRealUs (judge x d) = d_lastChangeRealUs d"
  by (simp_all add: judge_def Let_def)

lemma recordSample_frame [simp]:
  "d_id (recordSample r t n d) = d_id d" "d_name (recordSample r t n d) = d_name d"
  "d_address (recordSample r t n d) = d_address d" "d_order (recordSample r t n d) = d_order d"
  "d_thresholdUs (recordSample r t n d) = d_thresholdUs d"
  "d_sensitivity (recordSample r t n d) = d_sensitivity d"
  "d_enabled (recordSample r t n d) = d_enabled d"
  "d_partTime (recordSample r t n d) = d_partTime d"
  "d_prober (recordSample r t n d) = d_prober d" "d_state (recordSample r t n d) = d_state d"
  "d_candidate (recordSample r t n d) = d_candidate d"
  "d_candidateStreak (recordSample r t n d) = d_candidateStreak d"
  "d_lastChangeRealUs (recordSample r t n d) = d_lastChangeRealUs d"
  "d_sent (recordSample r t n d) = d_sent d + 1"
  "d_received (recordSample r t n d) = (if r then d_received d + 1 else d_received d)"
  by (simp_all add: recordSample_def Let_def)

text \<open>No result changes what the user configured for the destination.\<close>

definition sameConfig :: "Destination \<Rightarrow> Destination \<Rightarrow> bool" where
  "sameConfig d e \<longleftrightarrow>
     d_id d = d_id e \<and> d_name d = d_name e \<and> d_address d = d_address e \<and> d_order d = d_order e \<and>
     d_thresholdUs d = d_thresholdUs e \<and> d_sensitivity d = d_sensitivity e \<and>
     d_enabled d = d_enabled e \<and> d_partTime d = d_partTime e \<and> d_prober d = d_prober e"

lemma applySampleTo_sameConfig: "sameConfig (fst (applySampleTo r t n d)) d"
  by (simp add: applySampleTo_def Let_def sameConfig_def)

lemma applySampleTo_sensitivity [simp]: "d_sensitivity (fst (applySampleTo r t n d)) = d_sensitivity d"
  and applySampleTo_threshold [simp]: "d_thresholdUs (fst (applySampleTo r t n d)) = d_thresholdUs d"
  using applySampleTo_sameConfig [of r t n d] by (simp_all add: sameConfig_def)

lemma applySampleTo_counts [simp]:
  "d_sent (fst (applySampleTo r t n d)) = d_sent d + 1"
  "d_received (fst (applySampleTo r t n d)) = (if r then d_received d + 1 else d_received d)"
  by (simp_all add: applySampleTo_def Let_def)

lemma applySampleTo_dirty:
  "snd (applySampleTo r t n d) \<longleftrightarrow> d_state (fst (applySampleTo r t n d)) \<noteq> d_state d"
  by (simp add: applySampleTo_def Let_def)

lemma applySampleTo_verdict:
  "d_state (fst (applySampleTo r t n d)) = d_state (judge (classify r t (d_thresholdUs d)) d)"
  "d_candidate (fst (applySampleTo r t n d)) = d_candidate (judge (classify r t (d_thresholdUs d)) d)"
  "d_candidateStreak (fst (applySampleTo r t n d)) =
     d_candidateStreak (judge (classify r t (d_thresholdUs d)) d)"
  by (simp_all add: applySampleTo_def Let_def judge_def)

section \<open>Well-formed destinations\<close>

text \<open>
  The verdict fields agree with each other: an undecided destination has nothing pending, a
  pending streak is for a candidate other than the shown state, and the streak stays inside the
  range the configuration loader allows for the sensitivity, so the counter of type \<^verbatim>\<open>int\<close> never
  overflows.  \<^const>\<open>Offline\<close> is only ever reported, never stored.
\<close>

definition wf_verdict :: "Destination \<Rightarrow> bool" where
  "wf_verdict d \<longleftrightarrow>
     0 \<le> d_sensitivity d \<and> d_sensitivity d \<le> 1000 \<and>
     0 \<le> d_candidateStreak d \<and> d_candidateStreak d \<le> 1000 \<and>
     d_state d \<noteq> Offline \<and> d_candidate d \<noteq> Offline \<and>
     (d_state d = Unknown \<longrightarrow> d_candidate d = Unknown \<and> d_candidateStreak d = 0) \<and>
     (d_state d \<noteq> Unknown \<longrightarrow> d_candidate d \<noteq> Unknown) \<and>
     (d_candidate d = d_state d \<longleftrightarrow> d_candidateStreak d = 0)"

lemma wf_verdict_default: "wf_verdict Destination_default"
  by (simp add: wf_verdict_def Destination_default_def)

lemma judge_wf_verdict:
  assumes "wf_verdict d" and "x \<noteq> Unknown" and "x \<noteq> Offline"
  shows "wf_verdict (judge x d)"
  using assms by (auto simp: wf_verdict_def judge_def Let_def)

lemma wf_verdict_recordSample [simp]: "wf_verdict (recordSample r t n d) = wf_verdict d"
  by (simp add: wf_verdict_def)

lemma applySampleTo_wf_verdict:
  assumes "wf_verdict d"
  shows "wf_verdict (fst (applySampleTo r t n d))"
proof -
  have "wf_verdict (judge (classify r t (d_thresholdUs d)) (recordSample r t n d))"
    using assms by (intro judge_wf_verdict) simp_all
  then show ?thesis
    by (auto simp: applySampleTo_def Let_def wf_verdict_def)
qed

text \<open>After any result the pending streak is within the configured sensitivity.\<close>

lemma applySampleTo_streak:
  assumes "wf_verdict d"
  shows "d_candidateStreak (fst (applySampleTo r t n d)) \<le> d_sensitivity d"
  using assms by (auto simp: applySampleTo_verdict wf_verdict_def judge_def Let_def)

section \<open>The abstract indicator\<close>

text \<open>
  The user-facing rule: the indicator shows a state and remembers the disagreeing results seen
  since it last agreed or changed, newest first.  It changes exactly when more than \<open>N\<close> of the
  newest results agree with each other.
\<close>

type_synonym led = "HealthState \<times> HealthState list"

fun led_step :: "nat \<Rightarrow> HealthState \<Rightarrow> led \<Rightarrow> led" where
  "led_step N x (shown, recent) =
     (if shown = Unknown \<or> x = shown then (x, [])
      else if N < length (takeWhile (\<lambda>y. y = x) (x # recent)) then (x, [])
      else (shown, x # recent))"

definition led_rel :: "nat \<Rightarrow> Destination \<Rightarrow> led \<Rightarrow> bool" where
  "led_rel N d l \<longleftrightarrow>
     d_sensitivity d = int N \<and>
     d_state d = fst l \<and>
     (snd l = [] \<longrightarrow> d_candidateStreak d = 0 \<and> d_candidate d = d_state d) \<and>
     (snd l \<noteq> [] \<longrightarrow> d_candidate d = hd (snd l) \<and> fst l \<notin> set (snd l) \<and>
        d_candidateStreak d = int (length (takeWhile (\<lambda>y. y = hd (snd l)) (snd l))))"

lemma led_rel_judge:
  assumes "led_rel N d l"
  shows "led_rel N (judge x d) (led_step N x l)"
proof (cases l)
  case (Pair shown recent)
  show ?thesis
  proof (cases recent)
    case Nil
    with assms Pair show ?thesis
      by (auto simp: led_rel_def judge_def Let_def)
  next
    case (Cons y ys)
    with assms Pair show ?thesis
      by (auto simp: led_rel_def judge_def Let_def)
  qed
qed

lemma led_rel_default: "led_rel N (Destination_default\<lparr>d_sensitivity := int N\<rparr>) (Unknown, [])"
  by (simp add: led_rel_def Destination_default_def)

lemma led_rel_settled:
  assumes "d_sensitivity d = int N" and "d_candidateStreak d = 0" and "d_candidate d = d_state d"
  shows "led_rel N d (d_state d, [])"
  using assms by (simp add: led_rel_def)

text \<open>
  One observation is what \<^verbatim>\<open>applySample\<close> is told about a probe: whether it was answered, the
  round-trip time, and the wall clock.  A run feeds a list of observations to a destination.
\<close>

type_synonym observation = "bool \<times> u64 \<times> u64"

fun observe :: "observation \<Rightarrow> Destination \<Rightarrow> Destination" where
  "observe (received, rttUs, realNow) d = fst (applySampleTo received rttUs realNow d)"

fun verdict :: "u64 \<Rightarrow> observation \<Rightarrow> HealthState" where
  "verdict threshold (received, rttUs, realNow) = classify received rttUs threshold"

abbreviation runSamples :: "observation list \<Rightarrow> Destination \<Rightarrow> Destination" where
  "runSamples os d \<equiv> fold observe os d"

text \<open>
  A destination under observations simulates the abstract indicator under their verdicts, for
  every sensitivity and threshold.
\<close>

definition sample_rel :: "nat \<Rightarrow> u64 \<Rightarrow> Destination \<Rightarrow> led \<Rightarrow> bool" where
  "sample_rel N T d l \<longleftrightarrow> led_rel N d l \<and> d_thresholdUs d = T"

lemma sample_rel_observe:
  assumes "sample_rel N T d l"
  shows "sample_rel N T (observe ob d) (led_step N (verdict T ob) l)"
proof -
  obtain r t n where ob: "ob = (r, t, n)" by (cases ob)
  have "led_rel N (judge (classify r t T) d) (led_step N (classify r t T) l)"
    using assms by (simp add: sample_rel_def led_rel_judge)
  then show ?thesis
    using assms by (simp add: ob sample_rel_def led_rel_def applySampleTo_verdict)
qed

interpretation led_sim: simulation observe "\<lambda>ob. led_step N (verdict T ob)" "sample_rel N T" d_state fst
  for N :: nat and T :: u64
  by unfold_locales (rule sample_rel_observe, assumption, simp add: sample_rel_def led_rel_def)

interpretation verdict_inv: step_invariant observe wf_verdict
proof unfold_locales
  fix d ob assume "wf_verdict d"
  then show "wf_verdict (observe ob d)"
    by (cases ob) (simp add: applySampleTo_wf_verdict)
qed

text \<open>A destination with nothing pending, at a given sensitivity.\<close>

definition settled :: "nat \<Rightarrow> Destination \<Rightarrow> bool" where
  "settled N d \<longleftrightarrow> d_sensitivity d = int N \<and> d_candidate d = d_state d \<and> d_candidateStreak d = 0"

text \<open>The results that are pending in a destination: the candidate, as often as the streak counts it.\<close>

definition pending :: "Destination \<Rightarrow> HealthState list" where
  "pending d = replicate (nat (d_candidateStreak d)) (d_candidate d)"

lemma led_rel_pending:
  assumes "wf_verdict d" and "d_sensitivity d = int N"
  shows "led_rel N d (d_state d, pending d)"
proof (cases "d_candidateStreak d = 0")
  case True
  then show ?thesis using assms by (simp add: wf_verdict_def led_rel_def pending_def)
next
  case False
  then have k: "0 < d_candidateStreak d" and c: "d_candidate d \<noteq> d_state d" using assms(1) by (auto simp: wf_verdict_def)
  then obtain m where m: "nat (d_candidateStreak d) = Suc m" by (cases "nat (d_candidateStreak d)") simp_all
  then have "d_candidateStreak d = int (Suc m)" using k by linarith
  then show ?thesis using assms(2) c m by (simp add: led_rel_def pending_def takeWhile_replicate)
qed

lemma run_pending:
  assumes "wf_verdict d" and "d_sensitivity d = int N"
  shows "d_state (runSamples os d) = fst (fold (led_step N) (map (verdict (d_thresholdUs d)) os) (d_state d, pending d))"
proof -
  have "sample_rel N (d_thresholdUs d) d (d_state d, pending d)"
    using led_rel_pending [OF assms] by (simp add: sample_rel_def)
  from led_sim.run_obs [OF this, of os] show ?thesis
    by (simp add: fold_map comp_def)
qed

lemma run_as_led:
  assumes "settled N d"
  shows "d_state (runSamples os d) =
           fst (fold (led_step N) (map (verdict (d_thresholdUs d)) os) (d_state d, []))"
proof -
  have "sample_rel N (d_thresholdUs d) d (d_state d, [])"
    using assms by (simp add: settled_def sample_rel_def led_rel_settled)
  from led_sim.run_obs [OF this, of os] show ?thesis
    by (simp add: fold_map comp_def)
qed

text \<open>Facts of the abstract indicator, proved once and carried over by the simulation.\<close>

lemma led_run_same:
  assumes "x \<noteq> s" and "s \<noteq> Unknown" and "k \<le> N"
  shows "fold (led_step N) (replicate k x) (s, []) = (s, replicate k x)"
  using assms(3)
proof (induction k)
  case 0
  show ?case by simp
next
  case (Suc k)
  have "fold (led_step N) (replicate (Suc k) x) (s, []) =
          led_step N x (fold (led_step N) (replicate k x) (s, []))"
    by (simp add: replicate_append_same [symmetric] del: replicate.simps)
  also have "\<dots> = (s, replicate (Suc k) x)"
    using Suc assms by (simp add: takeWhile_replicate del: fold_replicate)
  finally show ?case .
qed

lemma led_change_needs_agreement:
  assumes "fst (led_step N x (shown, recent)) \<noteq> shown" and "shown \<noteq> Unknown"
  shows "fst (led_step N x (shown, recent)) = x \<and> N \<le> length recent \<and> take N recent = replicate N x"
proof -
  have len: "N < length (takeWhile (\<lambda>y. y = x) (x # recent))" and x: "x \<noteq> shown"
    using assms by (auto split: if_splits)
  let ?w = "takeWhile (\<lambda>y. y = x) recent"
  have w: "?w = replicate (length ?w) x"
    by (metis (mono_tags, lifting) replicate_length_same set_takeWhileD)
  have N: "N \<le> length ?w" using len by simp
  have "take N recent = take N ?w"
    using N by (metis append_eq_conv_conj diff_is_0_eq takeWhile_dropWhile_id take_append take_eq_Nil append_Nil2)
  also have "\<dots> = replicate N x"
    using N by (subst w) simp
  finally have "take N recent = replicate N x" .
  moreover have "N \<le> length recent"
    using N length_takeWhile_le [of "\<lambda>y. y = x" recent] by linarith
  moreover have "fst (led_step N x (shown, recent)) = x"
    using len by simp
  ultimately show ?thesis by simp
qed

text \<open>The remembered results are the newest part of what was remembered at the start and fed in since.\<close>

lemma led_recent_suffix:
  "\<exists>ys. rev xs @ r = snd (fold (led_step N) xs (s, r)) @ ys"
proof (induction xs rule: rev_induct)
  case Nil
  show ?case by simp
next
  case (snoc x xs)
  then obtain ys where ys: "rev xs @ r = snd (fold (led_step N) xs (s, r)) @ ys" by blast
  obtain shown recent where "fold (led_step N) xs (s, r) = (shown, recent)" by force
  with ys show ?case
    by simp
qed

text \<open>Nothing is shown as unknown once there was a result.\<close>

lemma led_known: "x \<noteq> Unknown \<Longrightarrow> fst (led_step N x l) \<noteq> Unknown"
  by (cases l) auto

lemma led_run_agree: "fold (led_step N) (replicate k x) (x, []) = (x, [])"
  by (induction k) simp_all

lemma led_run_flip:
  assumes "x \<noteq> s" and "s \<noteq> Unknown"
  shows "fst (fold (led_step N) (replicate k x) (s, [])) = (if k \<le> N then s else x)"
proof (cases "k \<le> N")
  case True
  with assms show ?thesis by (simp add: led_run_same del: fold_replicate)
next
  case False
  then obtain m where k: "k = N + (1 + m)"
    by (metis add.assoc add.commute less_imp_Suc_add not_le_imp_less plus_1_eq_Suc)
  have "fold (led_step N) (replicate k x) (s, []) =
          fold (led_step N) (replicate m x) (led_step N x (fold (led_step N) (replicate N x) (s, [])))"
    unfolding k replicate_add fold_append by simp
  also have "\<dots> = (x, [])"
    using assms by (simp add: led_run_same led_run_agree takeWhile_replicate del: fold_replicate)
  finally show ?thesis using False by simp
qed

lemma observe_counts [simp]:
  "d_sent (observe ob d) = d_sent d + 1"
  "d_received (observe ob d) = (if fst ob then d_received d + 1 else d_received d)"
  by (cases ob; simp)+

section \<open>Properties\<close>

text \<open>
  C1: The sensitivity rule.  A settled destination with sensitivity \<open>N\<close> that receives results
  which all say the same thing, different from what is shown, keeps what it shows for the first
  \<open>N\<close> of them and shows the new state from the \<open>N + 1\<close>-st on.
\<close>

theorem sensitivity_rule:
  assumes "settled N d" and "d_state d \<noteq> Unknown" and "x \<noteq> d_state d"
    and "\<forall>ob \<in> set os. verdict (d_thresholdUs d) ob = x"
  shows "d_state (runSamples os d) = (if length os \<le> N then d_state d else x)"
proof -
  have "map (verdict (d_thresholdUs d)) os = replicate (length os) x"
    using assms(4) by (induction os) auto
  then show ?thesis
    using assms by (simp add: run_as_led led_run_flip del: fold_replicate)
qed

theorem sensitivity_rule_witness:
  "d_state (runSamples (replicate 3 (False, 0, 7))
      (Destination_default\<lparr>d_state := Good, d_candidate := Good\<rparr>)) = Good \<and>
   d_state (runSamples (replicate 4 (False, 0, 7))
      (Destination_default\<lparr>d_state := Good, d_candidate := Good\<rparr>)) = Bad"
proof -
  let ?d = "Destination_default\<lparr>d_state := Good, d_candidate := Good\<rparr>"
  have "settled 3 ?d" "d_state ?d \<noteq> Unknown" "Bad \<noteq> d_state ?d"
    "\<forall>ob \<in> set (replicate k (False, 0, 7)). verdict (d_thresholdUs ?d) ob = Bad" for k
    by (simp_all add: settled_def Destination_default_def classify_def)
  note h = this
  show ?thesis
    using sensitivity_rule [OF h(1,2,3) h(4) [of 3]] sensitivity_rule [OF h(1,2,3) h(4) [of 4]]
    by (simp add: Destination_default_def del: fold_replicate)
qed



text \<open>
  C19: The verdict fields stay consistent over any sequence of results: the streak counter stays in
  the range of the sensitivity setting, so the \<^verbatim>\<open>int\<close> counter never overflows, a pending streak is
  always for a state other than the shown one, and \<^const>\<open>Offline\<close> is never stored.
\<close>

theorem verdict_invariant:
  assumes "wf_verdict d"
  shows "wf_verdict (runSamples os d)"
  using assms by (rule verdict_inv.run_inv)

theorem verdict_invariant_witness:
  "wf_verdict (runSamples [(True, 5, 1), (False, 0, 2)] Destination_default)"
  by (rule verdict_invariant) (rule wf_verdict_default)

text \<open>
  C20: The packet counters count: over any run that does not wrap the 64-bit counters, the number
  sent grows by the number of results and the number received by the number of answers, so no
  more answers than probes are ever reported.
\<close>

theorem sample_counters:
  assumes "unat (d_sent d) + length os < 2 ^ 64" and "unat (d_received d) \<le> unat (d_sent d)"
  shows "unat (d_sent (runSamples os d)) = unat (d_sent d) + length os \<and>
         unat (d_received (runSamples os d)) = unat (d_received d) + length (filter fst os) \<and>
         d_received (runSamples os d) \<le> d_sent (runSamples os d)"
  using assms
proof (induction os rule: rev_induct)
  case Nil
  then show ?case by (simp add: word_le_nat_alt)
next
  case (snoc ob os)
  have "length (filter fst os) \<le> length os" by simp
  with snoc show ?case
    by (auto simp: word_le_nat_alt unat_word_ariths)
qed

theorem sample_counters_witness:
  "unat (d_sent (runSamples [(True, 5, 0), (False, 0, 0)] Destination_default)) = 2"
proof -
  have "unat (d_sent Destination_default) + length [(True, 5, 0), (False, 0, 0)] < 2 ^ 64"
    "unat (d_received Destination_default) \<le> unat (d_sent Destination_default)"
    by (simp_all add: Destination_default_def)
  from sample_counters [OF this] show ?thesis
    by (simp add: Destination_default_def del: fold.simps)
qed

end
