(* ===== verification/Util.thy ===== *)
theory Util
  imports Prelude
begin

text \<open>
  The helpers of \<^verbatim>\<open>util.cpp\<close> and \<^verbatim>\<open>util.h\<close>: log levels, clock conversion, the runtime directory,
  directory creation, reading a whole file, writing a file through a temporary one, base64 and the
  string helpers.  A system call is a parameter or a script of the results it returns, one entry
  per call; the file system that \<^verbatim>\<open>writeFileAtomically\<close> works on is a map from paths to contents
  and mode, and the function returns every state the file system goes through.
\<close>

unbundle bit_operations_syntax

section \<open>Logging\<close>

datatype LogLevel = LogError | LogWarn | LogInfo | LogDebug

definition logRank :: "LogLevel \<Rightarrow> nat" where
  "logRank level = (case level of LogError \<Rightarrow> 0 | LogWarn \<Rightarrow> 1 | LogInfo \<Rightarrow> 2 | LogDebug \<Rightarrow> 3)"

definition levelName :: "LogLevel \<Rightarrow> string" where
  "levelName level = (case level of
       LogError \<Rightarrow> ''ERROR'' | LogWarn \<Rightarrow> ''WARN '' | LogInfo \<Rightarrow> ''INFO '' | LogDebug \<Rightarrow> ''DEBUG'')"

text \<open>
  The line \<^verbatim>\<open>logPrintf\<close> writes to the error stream, if any.  The time stamp is what the C library
  formats; the message is cut by \<^verbatim>\<open>vsnprintf\<close> at 1023 characters.
\<close>

definition logPrintf :: "LogLevel \<Rightarrow> LogLevel \<Rightarrow> string \<Rightarrow> string \<Rightarrow> string option" where
  "logPrintf g_level level stamp message =
     (if logRank level > logRank g_level then None
      else Some (''['' @ stamp @ ''] '' @ levelName level @ '' '' @ take 1023 message @ [CHR 0x0A]))"

section \<open>Clocks\<close>

text \<open>Both clock readers convert a \<^verbatim>\<open>timespec\<close> in the same way, in 64-bit arithmetic.\<close>

definition timespecUs :: "u64 \<Rightarrow> u64 \<Rightarrow> u64" where
  "timespecUs tv_sec tv_nsec = tv_sec * 1000000 + tv_nsec div 1000"

lemma timespecUs_value:
  assumes "unat tv_sec < 10 ^ 13" and "unat tv_nsec < 10 ^ 9"
  shows "unat (timespecUs tv_sec tv_nsec) = unat tv_sec * 10 ^ 6 + unat tv_nsec div 10 ^ 3"
proof -
  have "unat tv_sec * 1000000 < 2 ^ 64" using assms(1) by simp
  then have s: "unat (tv_sec * 1000000) = unat tv_sec * 1000000"
    by (simp add: unat_word_ariths)
  have n: "unat (tv_nsec div 1000) = unat tv_nsec div 1000"
    by (simp add: unat_div)
  have "unat tv_nsec div 1000 < 10 ^ 6" using assms(2) by simp
  with assms(1) show ?thesis
    by (simp add: timespecUs_def unat_word_ariths s n)
qed

section \<open>The runtime directory\<close>

definition xdgRuntimeDir :: "string option \<Rightarrow> string option \<Rightarrow> nat \<Rightarrow> string" where
  "xdgRuntimeDir env pw_name uid =
     (case env of
        Some (c # cs) \<Rightarrow> c # cs
      | _ \<Rightarrow>
          (let name = (case pw_name of Some n \<Rightarrow> n | None \<Rightarrow> [])
           in ''/tmp/runtime-'' @ (if name = [] then to_string_nat uid else name)))"

section \<open>Creating directories\<close>

datatype mkdir_result = MkdirOk | MkdirExists | MkdirFailed

text \<open>
  The loop of \<^verbatim>\<open>makeDirectories\<close>, with the rest of the path instead of an index into it.  The
  parameter \<open>mkdir\<close> acts on a file system state of any type.
\<close>

function makeDirs_loop ::
    "(string \<Rightarrow> 'fs \<Rightarrow> mkdir_result \<times> 'fs) \<Rightarrow> string \<Rightarrow> string \<Rightarrow> 'fs \<Rightarrow> bool \<times> 'fs" where
  "makeDirs_loop mkdir current rest fs =
     (let component = takeWhile (\<lambda>c. c \<noteq> CHR ''/'') rest;
          after = dropWhile (\<lambda>c. c \<noteq> CHR ''/'') rest;
          current' =
            (if component = [] then current
             else (if length current > 1 \<or> (length current = 1 \<and> hd current \<noteq> CHR ''/'')
                   then current @ ''/'' else current) @ component);
          (failed, fs') =
            (if component = [] then (False, fs)
             else (let (r, fs1) = mkdir current' fs in (r = MkdirFailed, fs1)))
      in if failed then (False, fs')
         else if after = [] then (True, fs')
         else makeDirs_loop mkdir current' (tl after) fs')"
  by pat_completeness auto
termination
proof (relation "measure (\<lambda>(mkdir, current, rest, fs). length rest)", goal_cases)
  case 1
  show ?case by simp
next
  case (2 mkdir current rest fs component after current' p failed fs')
  have "length after \<le> length rest"
    using 2(2) by (simp add: length_dropWhile_le)
  moreover have "after \<noteq> []" using 2 by simp
  ultimately show ?case by (cases after) auto
qed

declare makeDirs_loop.simps [simp del]

definition makeDirectories ::
    "(string \<Rightarrow> 'fs \<Rightarrow> mkdir_result \<times> 'fs) \<Rightarrow> string \<Rightarrow> 'fs \<Rightarrow> bool \<times> 'fs" where
  "makeDirectories mkdir path fs =
     (if path = [] then (False, fs)
      else if hd path = CHR ''/'' then makeDirs_loop mkdir ''/'' (tl path) fs
      else makeDirs_loop mkdir '''' path fs)"

section \<open>Reading a whole file\<close>

datatype read_result = ReadInterrupted | ReadFailed | ReadData string

text \<open>
  The read loop over a script of \<^verbatim>\<open>read\<close> results; where the script ends the file has ended, so
  \<^verbatim>\<open>read\<close> returns 0.  \<open>None\<close> is the function's \<^verbatim>\<open>false\<close>.
\<close>

fun read_loop :: "nat \<Rightarrow> string \<Rightarrow> read_result list \<Rightarrow> string option" where
  "read_loop limit out [] = Some out"
| "read_loop limit out (r # rs) =
     (if length out < limit then
        (case r of
           ReadInterrupted \<Rightarrow> read_loop limit out rs
         | ReadFailed \<Rightarrow> None
         | ReadData chunk \<Rightarrow>
             if chunk = [] then Some out
             else read_loop limit (out @ take 8192 chunk) rs)
      else Some out)"

definition readWholeFile :: "bool \<Rightarrow> nat \<Rightarrow> read_result list \<Rightarrow> string option" where
  "readWholeFile opened limit reads = (if opened then read_loop limit [] reads else None)"

section \<open>Writing a file atomically\<close>

type_synonym filesystem = "string \<rightharpoonup> string \<times> nat"

datatype write_result = WriteInterrupted | WriteFailed | Wrote nat

record write_env =
  we_mkstemp :: "string option"
  we_writes :: "write_result list"
  we_fchmod :: bool
  we_rename :: bool

text \<open>Appending bytes to an open file.\<close>

definition fs_append :: "string \<Rightarrow> string \<Rightarrow> filesystem \<Rightarrow> filesystem" where
  "fs_append p bytes fs =
     (case fs p of None \<Rightarrow> fs | Some (old, m) \<Rightarrow> fs(p \<mapsto> (old @ bytes, m)))"

definition fs_chmod :: "string \<Rightarrow> nat \<Rightarrow> filesystem \<Rightarrow> filesystem" where
  "fs_chmod p mode fs = (case fs p of None \<Rightarrow> fs | Some (old, m) \<Rightarrow> fs(p \<mapsto> (old, mode)))"

definition fs_rename :: "string \<Rightarrow> string \<Rightarrow> filesystem \<Rightarrow> filesystem" where
  "fs_rename a b fs = (case fs a of None \<Rightarrow> fs | Some f \<Rightarrow> (fs(b \<mapsto> f))(a := None))"

text \<open>
  The write loop: \<open>rest\<close> is what has not been written yet.  It returns the flag \<^verbatim>\<open>ok\<close> and the file
  system states after each successful \<^verbatim>\<open>write\<close>.  Where the script ends, one \<^verbatim>\<open>write\<close> takes the rest.
\<close>

fun write_loop :: "string \<Rightarrow> string \<Rightarrow> write_result list \<Rightarrow> filesystem \<Rightarrow> bool \<times> filesystem list" where
  "write_loop temp rest [] fs =
     (True, if rest = [] then [] else [fs_append temp rest fs])"
| "write_loop temp rest (r # rs) fs =
     (if rest = [] then (True, [])
      else case r of
          WriteInterrupted \<Rightarrow> write_loop temp rest rs fs
        | WriteFailed \<Rightarrow> (False, [])
        | Wrote n \<Rightarrow>
            (let fs' = fs_append temp (take n rest) fs;
                 (ok, states) = write_loop temp (drop n rest) rs fs'
             in (ok, fs' # states)))"

text \<open>
  \<^verbatim>\<open>mkstemp\<close> replaces the six trailing characters of the template by a suffix that names no existing
  file and creates it with mode 0600; \<open>we_mkstemp\<close> is that suffix, or \<open>None\<close> when it fails.  The
  result is the return value and the file system after every step, the last one included.
\<close>

definition writeFileAtomically ::
    "write_env \<Rightarrow> string \<Rightarrow> string \<Rightarrow> nat \<Rightarrow> filesystem \<Rightarrow> bool \<times> filesystem list" where
  "writeFileAtomically env path data mode fs =
     (case we_mkstemp env of
        None \<Rightarrow> (False, [fs])
      | Some suffix \<Rightarrow>
          (let temp = path @ ''.tmp'' @ suffix;
               fs0 = fs(temp \<mapsto> ([], 384));
               (ok1, states) = write_loop temp data (we_writes env) fs0;
               fs1 = last (fs0 # states);
               ok2 = (ok1 \<and> we_fchmod env);
               fs2 = (if ok2 then fs_chmod temp mode fs1 else fs1);
               ok3 = (ok2 \<and> we_rename env);
               fs3 = (if ok3 then fs_rename temp path fs2 else fs2);
               fs4 = (if ok3 then fs3 else fs3(temp := None))
           in (ok3, fs0 # states @ [fs2, fs3, fs4])))"

section \<open>File descriptor flags\<close>

text \<open>
  \<^verbatim>\<open>setCloseOnExec\<close> and \<^verbatim>\<open>setNonBlocking\<close>: \<open>flags\<close> is what \<^verbatim>\<open>fcntl\<close> reads, negative on failure, and
  \<open>set_flags\<close> whether \<^verbatim>\<open>fcntl\<close> accepts the new ones.
\<close>

definition setCloseOnExec :: "int \<Rightarrow> (int \<Rightarrow> bool) \<Rightarrow> bool" where
  "setCloseOnExec flags set_flags \<longleftrightarrow> flags \<ge> 0 \<and> set_flags (flags OR 1)"

definition setNonBlocking :: "int \<Rightarrow> (int \<Rightarrow> bool) \<Rightarrow> bool" where
  "setNonBlocking flags set_flags \<longleftrightarrow> flags \<ge> 0 \<and> set_flags (flags OR 2048)"

section \<open>Base64\<close>

definition alphabet :: string where
  "alphabet = ''ABCDEFGHIJKLMNOPQRSTUVWXYZabcdefghijklmnopqrstuvwxyz0123456789+/''"

definition byte32 :: "char \<Rightarrow> u32" where
  "byte32 c = of_char c"

definition sextet :: "nat \<Rightarrow> u32 \<Rightarrow> char" where
  "sextet k triple = alphabet ! unat (drop_bit k triple AND 0x3F)"

fun base64Encode :: "string \<Rightarrow> string" where
  "base64Encode (a # b # c # rest) =
     (let triple = push_bit 16 (byte32 a) OR push_bit 8 (byte32 b) OR byte32 c
      in [sextet 18 triple, sextet 12 triple, sextet 6 triple, sextet 0 triple] @ base64Encode rest)"
| "base64Encode [a, b] =
     (let triple = push_bit 16 (byte32 a) OR push_bit 8 (byte32 b)
      in [sextet 18 triple, sextet 12 triple, sextet 6 triple, CHR ''=''])"
| "base64Encode [a] =
     (let triple = push_bit 16 (byte32 a)
      in [sextet 18 triple, sextet 12 triple, CHR ''='', CHR ''=''])"
| "base64Encode [] = []"

section \<open>String helpers\<close>

text \<open>\<^verbatim>\<open>std::isspace\<close> in the C locale.\<close>

definition isspace :: "char \<Rightarrow> bool" where
  "isspace c \<longleftrightarrow> c = CHR '' '' \<or> (9 \<le> (of_char c :: nat) \<and> (of_char c :: nat) \<le> 13)"

definition trimmed :: "string \<Rightarrow> string" where
  "trimmed v = rev (dropWhile isspace (rev (dropWhile isspace v)))"

definition hasSuffix :: "string \<Rightarrow> string \<Rightarrow> bool" where
  "hasSuffix v suffix \<longleftrightarrow>
     length suffix \<le> length v \<and> drop (length v - length suffix) v = suffix"

lemma hasSuffix_iff: "hasSuffix v suffix \<longleftrightarrow> (\<exists>p. v = p @ suffix)"
proof
  assume "hasSuffix v suffix"
  then have "v = take (length v - length suffix) v @ suffix"
    unfolding hasSuffix_def by (metis append_take_drop_id)
  then show "\<exists>p. v = p @ suffix" by blast
qed (auto simp: hasSuffix_def)

lemma trimmed_ends:
  assumes "trimmed v \<noteq> []"
  shows "\<not> isspace (hd (trimmed v)) \<and> \<not> isspace (last (trimmed v))"
proof -
  let ?w = "dropWhile isspace v"
  have ne: "dropWhile isspace (rev ?w) \<noteq> []" using assms by (simp add: trimmed_def)
  then have last: "\<not> isspace (last (trimmed v))"
    unfolding trimmed_def last_rev by (rule hd_dropWhile [unfolded])
  obtain ys where ys: "?w = trimmed v @ ys"
    unfolding trimmed_def by (metis rev_append rev_rev_ident takeWhile_dropWhile_id)
  then have "?w \<noteq> []" and "hd ?w = hd (trimmed v)" using assms by auto
  then have "\<not> isspace (hd (trimmed v))"
    by (metis hd_dropWhile)
  with last show ?thesis by simp
qed

section \<open>Base64 round trip\<close>

text \<open>Disjoint bit fields add up.\<close>

lemma unat_push_or:
  fixes a b :: "'a::len word"
  assumes "unat b < 2 ^ n" and "unat a * 2 ^ n + unat b < 2 ^ LENGTH('a)"
  shows "unat (push_bit n a OR b) = unat a * 2 ^ n + unat b"
proof -
  have "b = take_bit n b"
    using assms(1) by (simp add: word_unat_eq_iff unsigned_take_bit_eq take_bit_nat_eq_self)
  then have "push_bit n a AND b = push_bit n a AND take_bit n b" by simp
  also have "\<dots> = 0"
    by (rule bit_eqI) (auto simp: bit_simps)
  finally have or: "push_bit n a OR b = push_bit n a + b"
    by (simp add: disjunctive_add_eq_or)
  have "unat (push_bit n a) = unat a * 2 ^ n"
    unfolding unsigned_push_bit_eq by (rule take_bit_nat_eq_self [THEN trans])
      (use assms(2) in \<open>simp_all add: push_bit_eq_mult\<close>)
  with assms(2) show ?thesis
    unfolding or by (subst unat_add_no_wrap) simp_all
qed

lemma of_char_less_256 [simp]: "of_char c < (256 :: nat)"
  using mod_less_divisor [of 256 "of_char c :: nat"] by simp

lemma unat_byte32 [simp]: "unat (byte32 c) = of_char c"
proof -
  have "unat (of_nat (of_char c) :: u32) = of_char c mod 2 ^ 32"
    by (simp add: unat_of_nat)
  also have "\<dots> = of_char c"
    by (rule mod_less) (rule less_trans [OF of_char_less_256], simp)
  finally show ?thesis by (simp add: byte32_def of_nat_of_char)
qed

lemma unat_triple:
  "unat (push_bit 16 (byte32 a) OR push_bit 8 (byte32 b) OR byte32 c) =
     of_char a * 65536 + of_char b * 256 + of_char c"
proof -
  have a: "of_char a < (256::nat)" and b: "of_char b < (256::nat)" and c: "of_char c < (256::nat)"
    by simp_all
  have bound: "of_char b * 256 + of_char c < (65536::nat)"
    "of_char a * 65536 + (of_char b * 256 + of_char c) < (16777216::nat)"
    using a b c by linarith+
  have bc: "unat (push_bit 8 (byte32 b) OR byte32 c) = of_char b * 256 + of_char c"
    using c less_trans [OF bound(1), of "2 ^ 32"] by (subst unat_push_or) simp_all
  have "unat (push_bit 16 (byte32 a) OR (push_bit 8 (byte32 b) OR byte32 c)) =
          of_char a * 65536 + (of_char b * 256 + of_char c)"
    using bound(1) less_trans [OF bound(2), of "2 ^ 32"] bc by (subst unat_push_or) simp_all
  then show ?thesis by (simp add: or.assoc)
qed

lemma unat_triple2:
  "unat (push_bit 16 (byte32 a) OR push_bit 8 (byte32 b)) = of_char a * 65536 + of_char b * 256"
  using unat_triple [of a b "CHR 0x00"] by (simp add: byte32_def)

lemma unat_triple1: "unat (push_bit 16 (byte32 a)) = of_char a * 65536"
  using unat_triple [of a "CHR 0x00" "CHR 0x00"] by (simp add: byte32_def)

lemma sextet_value: "sextet k t = alphabet ! (unat t div 2 ^ k mod 64)"
proof -
  have "drop_bit k t AND 0x3F = take_bit 6 (drop_bit k t)"
    by (simp add: take_bit_eq_mask mask_eq_exp_minus_1)
  then have "unat (drop_bit k t AND 0x3F) = take_bit 6 (drop_bit k (unat t))"
    by (simp only: unsigned_take_bit_eq unat_drop_bit_eq)
  then show ?thesis
    by (simp add: sextet_def take_bit_eq_mod drop_bit_eq_div)
qed

text \<open>The decoder a reader applies: the value of a character, then groups of four.\<close>

fun index_of :: "'a \<Rightarrow> 'a list \<Rightarrow> nat option" where
  "index_of x [] = None"
| "index_of x (y # ys) = (if x = y then Some 0 else map_option Suc (index_of x ys))"

lemma index_of_nth: "distinct xs \<Longrightarrow> i < length xs \<Longrightarrow> index_of (xs ! i) xs = Some i"
  by (induction xs arbitrary: i) (auto simp: nth_Cons split: nat.splits)

definition b64_value :: "char \<Rightarrow> nat option" where
  "b64_value c = index_of c alphabet"

fun base64Decode :: "string \<Rightarrow> string option" where
  "base64Decode [] = Some []"
| "base64Decode (p # q # r # s # rest) =
     (case (b64_value p, b64_value q) of
        (Some w, Some x) \<Rightarrow>
          (if s = CHR ''='' then
             (if rest \<noteq> [] then None
              else if r = CHR ''='' then Some [char_of (w * 4 + x div 16)]
              else case b64_value r of
                     None \<Rightarrow> None
                   | Some y \<Rightarrow> Some [char_of (w * 4 + x div 16), char_of (x mod 16 * 16 + y div 4)])
           else
             (case (b64_value r, b64_value s) of
                (Some y, Some z) \<Rightarrow>
                  map_option (\<lambda>t. char_of (w * 4 + x div 16) # char_of (x mod 16 * 16 + y div 4) #
                                  char_of (y mod 4 * 64 + z) # t) (base64Decode rest)
              | _ \<Rightarrow> None))
      | _ \<Rightarrow> None)"
| "base64Decode _ = None"

lemma alphabet_length [simp]: "length alphabet = 64"
  by (simp add: alphabet_def)

lemma alphabet_distinct: "distinct alphabet"
  by code_simp

lemma alphabet_no_pad: "CHR ''='' \<notin> set alphabet"
  by code_simp

lemma b64_value_sextet [simp]: "b64_value (sextet k t) = Some (unat t div 2 ^ k mod 64)"
  by (simp add: b64_value_def sextet_value index_of_nth alphabet_distinct)

lemma sextet_in_alphabet [simp]: "sextet k t \<in> set alphabet"
  by (simp add: sextet_value)

lemma sextet_no_pad [simp]: "sextet k t \<noteq> CHR ''=''"
  using alphabet_no_pad sextet_in_alphabet by metis

text \<open>Regrouping three bytes of eight bits as four groups of six and back.\<close>

lemma sextets_of_horner:
  fixes w x y z :: nat
  assumes "w < 64" "x < 64" "y < 64" "z < 64"
  defines "t \<equiv> ((w * 64 + x) * 64 + y) * 64 + z"
  shows "t div 2 ^ 18 mod 64 = w" "t div 2 ^ 12 mod 64 = x" "t div 2 ^ 6 mod 64 = y" "t mod 64 = z"
proof -
  have 1: "t div 64 = (w * 64 + x) * 64 + y" unfolding t_def using assms by simp
  have "t div 4096 = t div 64 div 64" by (simp add: div_mult2_eq [symmetric])
  also have "\<dots> = w * 64 + x" unfolding 1 using assms by simp
  finally have 2: "t div 4096 = w * 64 + x" .
  have "t div 262144 = t div 4096 div 64" by (simp add: div_mult2_eq [symmetric])
  also have "\<dots> = w" unfolding 2 using assms by simp
  finally have 3: "t div 262144 = w" .
  have "t div 262144 mod 64 = w" "t div 4096 mod 64 = x" "t div 64 mod 64 = y" "t mod 64 = z"
    unfolding 1 2 3 using assms(1-4) by (simp_all only: t_def mod_mult_self3 mod_less)
  then show "t div 2 ^ 18 mod 64 = w" "t div 2 ^ 12 mod 64 = x" "t div 2 ^ 6 mod 64 = y" "t mod 64 = z"
    by simp_all
qed

lemma two_digits_64:
  "x < 4 \<Longrightarrow> y < 16 \<Longrightarrow> x * 16 + y < (64::nat)" "x < 16 \<Longrightarrow> y < 4 \<Longrightarrow> x * 4 + y < (64::nat)"
  by linarith+

lemma byte_div_bounds:
  "a < 256 \<Longrightarrow> a div 4 < (64::nat)" "b < 256 \<Longrightarrow> b div 16 < (16::nat)" "c < 256 \<Longrightarrow> c div 64 < (4::nat)"
  by (simp_all add: div_less_iff_less_mult)

lemma sextets_of_bytes:
  fixes a b c :: nat
  assumes "a < 256" and "b < 256" and "c < 256"
  defines "t \<equiv> a * 65536 + b * 256 + c"
  shows "t div 2 ^ 18 mod 64 = a div 4" "t div 2 ^ 12 mod 64 = a mod 4 * 16 + b div 16"
    "t div 2 ^ 6 mod 64 = b mod 16 * 4 + c div 64" "t mod 64 = c mod 64"
proof -
  have a: "a = a div 4 * 4 + a mod 4" and b: "b = b div 16 * 16 + b mod 16" and c: "c = c div 64 * 64 + c mod 64"
    by simp_all
  have small: "a div 4 < 64" "a mod 4 * 16 + b div 16 < 64" "b mod 16 * 4 + c div 64 < 64" "c mod 64 < 64"
    using assms(1-3) by (simp_all add: byte_div_bounds two_digits_64)
  have "t = ((a div 4 * 64 + (a mod 4 * 16 + b div 16)) * 64 + (b mod 16 * 4 + c div 64)) * 64 + c mod 64"
    unfolding t_def by (subst a, subst b, subst c) (simp only: distrib_right mult.assoc add.assoc, simp)
  from sextets_of_horner [OF small, folded this]
  show "t div 2 ^ 18 mod 64 = a div 4" "t div 2 ^ 12 mod 64 = a mod 4 * 16 + b div 16"
    "t div 2 ^ 6 mod 64 = b mod 16 * 4 + c div 64" "t mod 64 = c mod 64" .
qed

lemma bytes_of_sextets:
  fixes a b c :: nat
  shows "b < 256 \<Longrightarrow> a div 4 * 4 + (a mod 4 * 16 + b div 16) div 16 = a"
    and "b < 256 \<Longrightarrow> c < 256 \<Longrightarrow>
      (a mod 4 * 16 + b div 16) mod 16 * 16 + (b mod 16 * 4 + c div 64) div 4 = b"
    and "c < 256 \<Longrightarrow> (b mod 16 * 4 + c div 64) mod 4 * 64 + c mod 64 = c"
proof -
  note b = byte_div_bounds(2) [of b] and c = byte_div_bounds(3) [of c]
  show "b < 256 \<Longrightarrow> a div 4 * 4 + (a mod 4 * 16 + b div 16) div 16 = a"
    "b < 256 \<Longrightarrow> c < 256 \<Longrightarrow>
      (a mod 4 * 16 + b div 16) mod 16 * 16 + (b mod 16 * 4 + c div 64) div 4 = b"
    "c < 256 \<Longrightarrow> (b mod 16 * 4 + c div 64) mod 4 * 64 + c mod 64 = c"
    using b c by simp_all
qed

text \<open>The four values of an encoded group, and the bytes they give back.\<close>

definition group_values :: "char \<Rightarrow> char \<Rightarrow> char \<Rightarrow> nat \<times> nat \<times> nat \<times> nat" where
  "group_values a b c =
     (of_char a div 4, of_char a mod 4 * 16 + of_char b div 16, of_char b mod 16 * 4 + of_char c div 64,
      of_char c mod 64)"

lemma b64_value_group:
  assumes "unat t = of_char a * 65536 + of_char b * 256 + of_char c" and "group_values a b c = (w, x, y, z)"
  shows "b64_value (sextet 18 t) = Some w" "b64_value (sextet 12 t) = Some x"
    "b64_value (sextet 6 t) = Some y" "b64_value (sextet 0 t) = Some z"
proof -
  note s = sextets_of_bytes [of "of_char a" "of_char b" "of_char c", OF of_char_less_256 of_char_less_256 of_char_less_256]
  show "b64_value (sextet 18 t) = Some w" "b64_value (sextet 12 t) = Some x"
    "b64_value (sextet 6 t) = Some y" "b64_value (sextet 0 t) = Some z"
    using assms(2) unfolding b64_value_sextet assms(1) power_0 div_by_1 s group_values_def by blast+
qed

lemma group_bytes:
  assumes "group_values a b c = (w, x, y, z)"
  shows "char_of (w * 4 + x div 16) = a" "char_of (x mod 16 * 16 + y div 4) = b"
    "char_of (y mod 4 * 64 + z) = c"
proof -
  have v: "w = of_char a div 4" "x = of_char a mod 4 * 16 + of_char b div 16"
    "y = of_char b mod 16 * 4 + of_char c div 64" "z = of_char c mod 64"
    using assms unfolding group_values_def by blast+
  show "char_of (w * 4 + x div 16) = a" "char_of (x mod 16 * 16 + y div 4) = b"
    "char_of (y mod 4 * 64 + z) = c"
    unfolding v bytes_of_sextets(1) [OF of_char_less_256] bytes_of_sextets(3) [OF of_char_less_256]
      bytes_of_sextets(2) [OF of_char_less_256 of_char_less_256] char_of_char by (rule refl)+
qed

lemma base64_decode_encode: "base64Decode (base64Encode data) = Some data"
proof (induction data rule: base64Encode.induct)
  case (1 a b c rest)
  obtain w x y z where g: "group_values a b c = (w, x, y, z)" by (rule prod_cases4)
  show ?case
    using 1 b64_value_group [OF unat_triple g] group_bytes [OF g] by (simp add: Let_def del: b64_value_sextet)
next
  case (2 a b)
  obtain w x y z where g: "group_values a b (CHR 0x00) = (w, x, y, z)" by (rule prod_cases4)
  have "unat (push_bit 16 (byte32 a) OR push_bit 8 (byte32 b)) =
          of_char a * 65536 + of_char b * 256 + of_char (CHR 0x00)"
    by (simp add: unat_triple2)
  from b64_value_group [OF this g] group_bytes [OF g] show ?case
    by (simp add: Let_def del: b64_value_sextet)
next
  case (3 a)
  obtain w x y z where g: "group_values a (CHR 0x00) (CHR 0x00) = (w, x, y, z)" by (rule prod_cases4)
  have "unat (push_bit 16 (byte32 a)) =
          of_char a * 65536 + of_char (CHR 0x00) * 256 + of_char (CHR 0x00)"
    by (simp add: unat_triple1)
  from b64_value_group [OF this g] group_bytes [OF g] show ?case
    by (simp add: Let_def del: b64_value_sextet)
next
  case 4
  show ?case by simp
qed

interpretation base64: codec base64Encode base64Decode "\<lambda>_. True"
  by unfold_locales (rule base64_decode_encode)

lemma base64_length: "length (base64Encode data) = (length data + 2) div 3 * 4"
proof (induction data rule: base64Encode.induct)
  case (1 a b c rest)
  have "(length rest + 3 + 2) div 3 = (length rest + 2) div 3 + 1" by simp
  with 1 show ?case by (simp add: Let_def)
qed (simp_all add: Let_def)

lemma base64_chars: "set (base64Encode data) \<subseteq> insert (CHR ''='') (set alphabet)"
  by (induction data rule: base64Encode.induct) (auto simp: Let_def)

section \<open>Atomic writing\<close>

lemma fs_append_other [simp]: "q \<noteq> p \<Longrightarrow> fs_append p bs fs q = fs q"
  and fs_chmod_other [simp]: "q \<noteq> p \<Longrightarrow> fs_chmod p m fs q = fs q"
  and fs_rename_other [simp]: "q \<noteq> a \<Longrightarrow> q \<noteq> b \<Longrightarrow> fs_rename a b fs q = fs q"
  by (auto simp: fs_append_def fs_chmod_def fs_rename_def split: option.splits)

lemma fs_append_hit: "fs p = Some (old, m) \<Longrightarrow> fs_append p bs fs p = Some (old @ bs, m)"
  by (simp add: fs_append_def)

lemma write_loop_other:
  "s \<in> set (snd (write_loop temp rest rs fs)) \<Longrightarrow> q \<noteq> temp \<Longrightarrow> s q = fs q"
proof (induction temp rest rs fs rule: write_loop.induct)
  case (2 temp rest r rs fs)
  then show ?case
    by (cases r) (auto simp: Let_def split: if_splits prod.splits)
qed (auto split: if_splits)

lemma last_Cons_append: "last (x # ys) = (if ys = [] then x else last ys)"
  by simp

lemma write_loop_result:
  assumes "fs temp = Some (done, m)"
  shows "fst (write_loop temp rest rs fs) \<Longrightarrow>
           last (fs # snd (write_loop temp rest rs fs)) temp = Some (done @ rest, m)"
  using assms
proof (induction temp rest rs fs arbitrary: "done" rule: write_loop.induct)
  case (1 temp rest fs)
  then show ?case by (simp add: fs_append_hit)
next
  case (2 temp rest r rs fs)
  show ?case
  proof (cases "rest = []")
    case True
    with 2 show ?thesis by simp
  next
    case False
    show ?thesis
    proof (cases r)
      case (Wrote n)
      let ?fs = "fs_append temp (take n rest) fs"
      have "fst (write_loop temp (drop n rest) rs ?fs)"
        using 2(3) False Wrote by (simp add: Let_def split: prod.splits)
      then have "last (?fs # snd (write_loop temp (drop n rest) rs ?fs)) temp =
                   Some ((done @ take n rest) @ drop n rest, m)"
        using 2(4) by (intro 2(2) [OF False Wrote refl]) (simp_all add: fs_append_hit)
      then show ?thesis
        using False Wrote by (simp add: Let_def case_prod_beta)
    qed (use 2 False in auto)
  qed
qed

lemma temp_name_fresh [simp]: "path @ ''.tmp'' @ suffix \<noteq> path" "path \<noteq> path @ ''.tmp'' @ suffix"
  by simp_all

lemma last_state_other:
  assumes "\<forall>s \<in> set ss. s q = x" and "f q = x"
  shows "last (f # ss) q = x"
  using assms by (cases ss rule: rev_cases) auto

lemma writeFileAtomically_cases:
  assumes "writeFileAtomically env path data mode fs = (ok, states)"
    and "we_mkstemp env = Some suffix"
  obtains fs0 ws ok1 where
    "fs0 = fs(path @ ''.tmp'' @ suffix \<mapsto> ([], 384))"
    "write_loop (path @ ''.tmp'' @ suffix) data (we_writes env) fs0 = (ok1, ws)"
    "ok = (ok1 \<and> we_fchmod env \<and> we_rename env)"
    "\<not> ok \<Longrightarrow> \<exists>fs2. states = fs0 # ws @ [fs2, fs2, fs2(path @ ''.tmp'' @ suffix := None)] \<and>
        (\<forall>q. q \<noteq> path @ ''.tmp'' @ suffix \<longrightarrow> fs2 q = last (fs0 # ws) q)"
    "ok \<Longrightarrow> states = fs0 # ws @ [fs_chmod (path @ ''.tmp'' @ suffix) mode (last (fs0 # ws)),
        fs_rename (path @ ''.tmp'' @ suffix) path (fs_chmod (path @ ''.tmp'' @ suffix) mode (last (fs0 # ws))),
        fs_rename (path @ ''.tmp'' @ suffix) path (fs_chmod (path @ ''.tmp'' @ suffix) mode (last (fs0 # ws)))]"
proof -
  let ?temp = "path @ ''.tmp'' @ suffix"
  let ?fs0 = "fs(?temp \<mapsto> ([], 384))"
  obtain ok1 ws where w: "write_loop ?temp data (we_writes env) ?fs0 = (ok1, ws)" by force
  let ?l = "last (?fs0 # ws)"
  have ok: "ok = (ok1 \<and> we_fchmod env \<and> we_rename env)"
    using assms w by (auto simp: writeFileAtomically_def Let_def)
  have bad: "\<exists>fs2. states = ?fs0 # ws @ [fs2, fs2, fs2(?temp := None)] \<and>
      (\<forall>q. q \<noteq> ?temp \<longrightarrow> fs2 q = last (?fs0 # ws) q)" if "\<not> ok"
  proof (intro exI conjI)
    show "states = ?fs0 # ws @ [if ok1 \<and> we_fchmod env then fs_chmod ?temp mode ?l else ?l,
        if ok1 \<and> we_fchmod env then fs_chmod ?temp mode ?l else ?l,
        (if ok1 \<and> we_fchmod env then fs_chmod ?temp mode ?l else ?l)(?temp := None)]"
      using assms w that ok by (auto simp: writeFileAtomically_def Let_def)
  qed simp
  have good: "states = ?fs0 # ws @ [fs_chmod ?temp mode ?l, fs_rename ?temp path (fs_chmod ?temp mode ?l),
        fs_rename ?temp path (fs_chmod ?temp mode ?l)]" if ok
    using assms w that ok by (auto simp: writeFileAtomically_def Let_def)
  show ?thesis
    by (rule that [OF refl w ok bad good])
qed

section \<open>Properties\<close>

lemma writeFileAtomically_atomic:
  assumes "writeFileAtomically env path data mode fs = (ok, states)"
    and "we_mkstemp env = Some suffix"
  shows "(\<forall>s \<in> set states. s path = fs path \<or> s path = Some (data, mode)) \<and>
         last states path = (if ok then Some (data, mode) else fs path) \<and>
         last states (path @ ''.tmp'' @ suffix) = None \<and>
         (\<forall>q. q \<noteq> path \<and> q \<noteq> path @ ''.tmp'' @ suffix \<longrightarrow> (\<forall>s \<in> set states. s q = fs q))"
proof -
  let ?temp = "path @ ''.tmp'' @ suffix"
  obtain fs0 ws ok1 where
    fs0: "fs0 = fs(?temp \<mapsto> ([], 384))" and
    w: "write_loop ?temp data (we_writes env) fs0 = (ok1, ws)" and
    ok: "ok = (ok1 \<and> we_fchmod env \<and> we_rename env)" and
    bad: "\<not> ok \<Longrightarrow> \<exists>fs2. states = fs0 # ws @ [fs2, fs2, fs2(?temp := None)] \<and>
        (\<forall>q. q \<noteq> ?temp \<longrightarrow> fs2 q = last (fs0 # ws) q)" and
    good: "ok \<Longrightarrow> states = fs0 # ws @ [fs_chmod ?temp mode (last (fs0 # ws)),
        fs_rename ?temp path (fs_chmod ?temp mode (last (fs0 # ws))),
        fs_rename ?temp path (fs_chmod ?temp mode (last (fs0 # ws)))]"
    by (rule writeFileAtomically_cases [OF assms]) (rule that)
  have ws: "s q = fs q" if "s \<in> set (fs0 # ws)" "q \<noteq> ?temp" for s q
    using that write_loop_other [of s ?temp data "we_writes env" fs0 q] w fs0 by auto
  then have lst: "last (fs0 # ws) q = fs q" if "q \<noteq> ?temp" for q
    using that last_in_set [of "fs0 # ws"] by blast
  show ?thesis
  proof (cases ok)
    case True
    have "fs0 ?temp = Some ([], 384)" using fs0 by simp
    from write_loop_result [of fs0 ?temp, OF this, of data "we_writes env"]
    have "last (fs0 # ws) ?temp = Some (data, 384)"
      using True ok unfolding w by simp
    then have ren: "fs_rename ?temp path (fs_chmod ?temp mode (last (fs0 # ws))) =
        (last (fs0 # ws))(?temp := None, path \<mapsto> (data, mode))"
      by (auto simp: fs_rename_def fs_chmod_def)
    show ?thesis
      unfolding good [OF True] ren using True ws lst by auto
  next
    case False
    then obtain fs2 where "states = fs0 # ws @ [fs2, fs2, fs2(?temp := None)]"
      and "\<forall>q. q \<noteq> ?temp \<longrightarrow> fs2 q = last (fs0 # ws) q"
      using bad by blast
    then show ?thesis
      using False ws lst by auto
  qed
qed

text \<open>
  C17: Readers never see a partial document.  In every state the file system passes through while
  \<^verbatim>\<open>writeFileAtomically\<close> runs, whatever its system calls return, the target path holds either what
  it held before or the complete new data with its mode; the return value says which of the two
  it is at the end; the temporary file is gone at the end and no other path is touched.
\<close>

theorem write_is_atomic:
  assumes "writeFileAtomically env path data mode fs = (ok, states)"
    and "we_mkstemp env = Some suffix"
  shows "(\<forall>s \<in> set states. s path = fs path \<or> s path = Some (data, mode)) \<and>
         last states path = (if ok then Some (data, mode) else fs path) \<and>
         last states (path @ ''.tmp'' @ suffix) = None \<and>
         (\<forall>q. q \<noteq> path \<and> q \<noteq> path @ ''.tmp'' @ suffix \<longrightarrow> (\<forall>s \<in> set states. s q = fs q))"
  by (rule writeFileAtomically_atomic [OF assms])

theorem write_is_atomic_witness:
  "last (snd (writeFileAtomically
      \<lparr>we_mkstemp = Some ''abc'', we_writes = [WriteInterrupted, Wrote 2], we_fchmod = True, we_rename = True\<rparr>
      ''s'' ''hello'' 420 (Map.empty(''s'' \<mapsto> (''old'', 420))))) ''s'' = Some (''hello'', 420)"
proof -
  let ?e = "\<lparr>we_mkstemp = Some ''abc'', we_writes = [WriteInterrupted, Wrote 2],
     we_fchmod = True, we_rename = True\<rparr>"
  let ?f = "Map.empty(''s'' \<mapsto> (''old'', 420))"
  let ?r = "writeFileAtomically ?e ''s'' ''hello'' 420 ?f"
  have ok: "fst ?r" by (simp add: writeFileAtomically_def Let_def)
  have "?r = (fst ?r, snd ?r)" by simp
  from write_is_atomic [OF this, of "''abc''"] ok show ?thesis by simp
qed

text \<open>
  C18: What the widget decodes is what the daemon encoded: decoding the base64 text gives the exact
  bytes back, for every byte string, and the text has four characters per started group of three,
  all of them from the base64 alphabet.
\<close>

theorem base64_roundtrip:
  "base64Decode (base64Encode data) = Some data \<and>
   length (base64Encode data) = (length data + 2) div 3 * 4 \<and>
   set (base64Encode data) \<subseteq> insert (CHR ''='') (set alphabet)"
  by (simp add: base64.decode_encode base64_length base64_chars)

end
