(* ===== verification/Pinger.thy ===== *)
theory Pinger
  imports Util
begin

text \<open>
  The ICMP engine of \<^verbatim>\<open>pinger.cpp\<close> and \<^verbatim>\<open>pinger.h\<close>: endpoints and address lookup, the echo packet
  and its checksum, the per-family socket with its send and receive loops.  The resolver library
  (\<^verbatim>\<open>getaddrinfo\<close>, \<^verbatim>\<open>getnameinfo\<close>) and the socket calls are parameters: a record of the library's
  answers, or the script of results the kernel returns.  Structures are laid out as on the
  daemon's little-endian target, by \<^verbatim>\<open>memcpy\<close> as in the source.
\<close>

section \<open>Endpoints\<close>

definition AF_UNSPEC :: nat where "AF_UNSPEC = 0"
definition AF_INET :: nat where "AF_INET = 2"
definition AF_INET6 :: nat where "AF_INET6 = 10"

lemmas af_defs = AF_UNSPEC_def AF_INET_def AF_INET6_def

record sockaddr =
  ss_family :: nat
  sin_addr :: u32
  sin6_addr :: "128 word"

definition sockaddr_zero :: sockaddr where
  "sockaddr_zero = \<lparr>ss_family = AF_UNSPEC, sin_addr = 0, sin6_addr = 0\<rparr>"

record Endpoint =
  ep_family :: nat
  ep_addr :: sockaddr
  ep_len :: nat
  ep_text :: string

definition Endpoint_default :: Endpoint where
  "Endpoint_default = \<lparr>ep_family = AF_UNSPEC, ep_addr = sockaddr_zero, ep_len = 0, ep_text = ''''\<rparr>"

definition endpoint_valid :: "Endpoint \<Rightarrow> bool" where
  "endpoint_valid e \<longleftrightarrow> ep_family e \<noteq> AF_UNSPEC \<and> ep_len e > 0"

definition matches :: "Endpoint \<Rightarrow> sockaddr \<Rightarrow> nat \<Rightarrow> bool" where
  "matches e other otherLen =
     (if \<not> endpoint_valid e \<or> otherLen = 0 then False
      else if ss_family other \<noteq> ss_family (ep_addr e) then False
      else if ss_family (ep_addr e) = AF_INET then sin_addr (ep_addr e) = sin_addr other
      else if ss_family (ep_addr e) = AF_INET6 then sin6_addr (ep_addr e) = sin6_addr other
      else False)"

section \<open>Address lookup\<close>

record addrinfo =
  ai_family :: nat
  ai_addr :: sockaddr
  ai_addrlen :: nat

text \<open>What the resolver library answers: a return code with the result list, and its texts.\<close>

record netdb =
  getaddrinfo :: "string \<Rightarrow> nat \<Rightarrow> int \<times> addrinfo list"
  gai_strerror :: "int \<Rightarrow> string"
  getnameinfo :: "sockaddr \<Rightarrow> nat \<Rightarrow> string option"

definition formatAddress :: "netdb \<Rightarrow> sockaddr \<Rightarrow> nat \<Rightarrow> string" where
  "formatAddress db addr len = (case getnameinfo db addr len of None \<Rightarrow> '''' | Some host \<Rightarrow> host)"

text \<open>The loop that prefers the first IPv4 entry and otherwise keeps the first IPv6 one.\<close>

fun chooseAddress :: "addrinfo option \<Rightarrow> addrinfo list \<Rightarrow> addrinfo option" where
  "chooseAddress chosen [] = chosen"
| "chooseAddress chosen (it # rest) =
     (if ai_family it = AF_INET then Some it
      else if chosen = None \<and> ai_family it = AF_INET6 then chooseAddress (Some it) rest
      else chooseAddress chosen rest)"

text \<open>\<open>Inl\<close> carries the error text; on failure the caller's endpoint is left as it was.\<close>

definition lookup :: "netdb \<Rightarrow> string \<Rightarrow> nat \<Rightarrow> string + Endpoint" where
  "lookup db host flags =
     (let (rc, results) = getaddrinfo db host flags
      in if rc \<noteq> 0 \<or> results = [] then Inl (gai_strerror db rc)
         else case chooseAddress None results of
             None \<Rightarrow> Inl ''no usable address''
           | Some chosen \<Rightarrow>
               Inr \<lparr>ep_family = ai_family chosen, ep_addr = ai_addr chosen, ep_len = ai_addrlen chosen,
                    ep_text = formatAddress db (ai_addr chosen) (ai_addrlen chosen)\<rparr>)"

text \<open>The flag values are those of Linux: numeric host and service 0x404, \<^verbatim>\<open>AI_ADDRCONFIG\<close> 0x20.\<close>

definition parseNumericAddress :: "netdb \<Rightarrow> string \<Rightarrow> Endpoint \<Rightarrow> bool \<times> Endpoint" where
  "parseNumericAddress db text out =
     (if text = [] then (False, out)
      else case lookup db text 0x404 of Inl e \<Rightarrow> (False, out) | Inr ep \<Rightarrow> (True, ep))"

definition resolveHostName :: "netdb \<Rightarrow> string \<Rightarrow> string + Endpoint" where
  "resolveHostName db host = lookup db host 0x20"

section \<open>Packets\<close>

definition kMagic :: u32 where "kMagic = 0x504E4831"
definition kReceiveBatch :: nat where "kReceiveBatch = 32"
definition kMaxDatagram :: nat where "kMaxDatagram = 256"

record Payload =
  p_magic :: u32
  p_cookie :: u32
  p_uid :: u32
  p_seq :: u32
  p_sentUs :: u64

record IcmpHeader =
  h_type :: u8
  h_code :: u8
  h_checksum :: u16
  h_id :: u16
  h_sequence :: u16

text \<open>Integers in memory, least significant byte first, and \<^verbatim>\<open>htons\<close>.\<close>

definition le_bytes :: "nat \<Rightarrow> 'a::len word \<Rightarrow> u8 list" where
  "le_bytes n w = map (\<lambda>i. ucast (drop_bit (8 * i) w)) [0..<n]"

fun le_word :: "u8 list \<Rightarrow> 'a::len word" where
  "le_word [] = 0"
| "le_word (b # bs) = push_bit 8 (le_word bs) OR ucast b"

definition htons :: "u16 \<Rightarrow> u16" where
  "htons w = push_bit 8 w OR drop_bit 8 w"

definition header_bytes :: "IcmpHeader \<Rightarrow> u8 list" where
  "header_bytes h = [h_type h, h_code h] @ le_bytes 2 (h_checksum h) @ le_bytes 2 (h_id h) @
     le_bytes 2 (h_sequence h)"

definition payload_bytes :: "Payload \<Rightarrow> u8 list" where
  "payload_bytes p = le_bytes 4 (p_magic p) @ le_bytes 4 (p_cookie p) @ le_bytes 4 (p_uid p) @
     le_bytes 4 (p_seq p) @ le_bytes 8 (p_sentUs p)"

definition read_header :: "u8 list \<Rightarrow> IcmpHeader" where
  "read_header d = \<lparr>h_type = d ! 0, h_code = d ! 1, h_checksum = le_word (take 2 (drop 2 d)),
     h_id = le_word (take 2 (drop 4 d)), h_sequence = le_word (take 2 (drop 6 d))\<rparr>"

definition read_payload :: "u8 list \<Rightarrow> Payload" where
  "read_payload d = \<lparr>p_magic = le_word (take 4 d), p_cookie = le_word (take 4 (drop 4 d)),
     p_uid = le_word (take 4 (drop 8 d)), p_seq = le_word (take 4 (drop 12 d)),
     p_sentUs = le_word (take 8 (drop 16 d))\<rparr>"

definition kPacketSize :: nat where "kPacketSize = 8 + 24"

section \<open>The Internet checksum\<close>

text \<open>The summing loop over 16-bit words, the odd last byte included.\<close>

fun checksum_sum :: "u8 list \<Rightarrow> u32 \<Rightarrow> u32" where
  "checksum_sum (a # b # rest) acc = checksum_sum rest (acc + ucast (le_word [a, b] :: u16))"
| "checksum_sum [a] acc = acc + ucast a"
| "checksum_sum [] acc = acc"

lemma unat_fold_step:
  fixes s :: u32
  shows "unat ((s AND 0xFFFF) + drop_bit 16 s) = unat s mod 65536 + unat s div 65536"
proof -
  have "s AND 0xFFFF = take_bit 16 s"
    by (simp add: take_bit_eq_mask mask_eq_exp_minus_1)
  then have 1: "unat (s AND 0xFFFF) = unat s mod 65536"
    by (simp only: unsigned_take_bit_eq) (simp add: take_bit_eq_mod)
  have 2: "unat (drop_bit 16 s) = unat s div 65536"
    by (simp only: unat_drop_bit_eq) (simp add: drop_bit_eq_div)
  have "unat s < 2 ^ 32" using unsigned_less [of s] by simp
  then have "unat s div 65536 < 65536" by (simp add: div_less_iff_less_mult)
  moreover have "unat s mod 65536 < 65536" by simp
  ultimately have "unat s mod 65536 + unat s div 65536 < 2 ^ LENGTH(32)" by simp
  with 1 2 show ?thesis by (simp add: unat_add_no_wrap)
qed

lemma fold_decreases: "0 < n div 65536 \<Longrightarrow> n mod 65536 + n div 65536 < (n::nat)"
proof -
  assume q: "0 < n div 65536"
  define q r where "q = n div 65536" and "r = n mod 65536"
  have "n = r + 65536 * q" unfolding q_def r_def by simp
  with q show ?thesis unfolding q_def [symmetric] r_def [symmetric] by linarith
qed

text \<open>The carry loop \<^verbatim>\<open>while (sum >> 16)\<close>.\<close>

function fold_carry :: "u32 \<Rightarrow> u32" where
  "fold_carry s =
     (if drop_bit 16 s \<noteq> 0 then fold_carry ((s AND 0xFFFF) + drop_bit 16 s) else s)"
  by pat_completeness auto
termination
proof (relation "measure unat", goal_cases)
  case 1
  show ?case by simp
next
  case (2 s)
  have "unat (drop_bit 16 s) = unat s div 65536"
    by (simp only: unat_drop_bit_eq) (simp add: drop_bit_eq_div)
  with 2 have "0 < unat s div 65536" by (metis gr0I unat_eq_zero)
  then have "unat s mod 65536 + unat s div 65536 < unat s" by (rule fold_decreases)
  then show ?case unfolding in_measure unat_fold_step .
qed

declare fold_carry.simps [simp del]

definition internetChecksum :: "u8 list \<Rightarrow> u16" where
  "internetChecksum bytes = ucast (NOT (fold_carry (checksum_sum bytes 0)))"

section \<open>The socket\<close>

text \<open>
  Error numbers the code distinguishes.  An interrupted call (\<^verbatim>\<open>EINTR\<close>) is not among them: the loops
  retry it, and the scripts below record it as an interruption.
\<close>

datatype errno = ENETUNREACH | EHOSTUNREACH | ENETDOWN | EHOSTDOWN | ECONNREFUSED | EACCES | EPERM
  | EINVAL | EAFNOSUPPORT | OtherErrno int

definition isUnreachableErrno :: "errno \<Rightarrow> bool" where
  "isUnreachableErrno err = (case err of
       ENETUNREACH \<Rightarrow> True | EHOSTUNREACH \<Rightarrow> True | ENETDOWN \<Rightarrow> True | EHOSTDOWN \<Rightarrow> True
     | ECONNREFUSED \<Rightarrow> True | EACCES \<Rightarrow> True | EPERM \<Rightarrow> True | EINVAL \<Rightarrow> True | EAFNOSUPPORT \<Rightarrow> True
     | OtherErrno _ \<Rightarrow> False)"

record IcmpSocket =
  s_fd :: int
  s_family :: nat
  s_raw :: bool

definition IcmpSocket_default :: IcmpSocket where
  "IcmpSocket_default = \<lparr>s_fd = - 1, s_family = AF_UNSPEC, s_raw = False\<rparr>"

definition isOpen :: "IcmpSocket \<Rightarrow> bool" where
  "isOpen sock \<longleftrightarrow> s_fd sock \<ge> 0"

definition isRaw :: "IcmpSocket \<Rightarrow> bool" where
  "isRaw sock = s_raw sock"

definition IcmpSocket_close :: "IcmpSocket \<Rightarrow> IcmpSocket" where
  "IcmpSocket_close sock =
     (let sock1 = (if s_fd sock \<ge> 0 then sock\<lparr>s_fd := - 1\<rparr> else sock)
      in sock1\<lparr>s_family := AF_UNSPEC, s_raw := False\<rparr>)"

text \<open>The two \<^verbatim>\<open>socket\<close> calls: a descriptor, or the error number.\<close>

datatype socket_result = SocketFd nat | SocketErr errno

definition IcmpSocket_open ::
    "(errno \<Rightarrow> string) \<Rightarrow> socket_result \<Rightarrow> socket_result \<Rightarrow> nat \<Rightarrow> IcmpSocket \<Rightarrow> bool \<times> string \<times> IcmpSocket" where
  "IcmpSocket_open strerror dgram raw family sock =
     (let sock1 = (IcmpSocket_close sock)\<lparr>s_family := family\<rparr>
      in case dgram of
           SocketFd fd \<Rightarrow> (True, '''', sock1\<lparr>s_fd := int fd, s_raw := False\<rparr>)
         | SocketErr dgramErrno \<Rightarrow>
             (case raw of
                SocketFd fd \<Rightarrow> (True, '''', sock1\<lparr>s_fd := int fd, s_raw := True\<rparr>)
              | SocketErr rawErrno \<Rightarrow>
                  (False,
                   ''ICMP socket unavailable (datagram: '' @ strerror dgramErrno @ '', raw: '' @
                     strerror rawErrno @ '')'',
                   sock1\<lparr>s_fd := - 1, s_raw := False, s_family := AF_UNSPEC\<rparr>)))"

section \<open>Sending\<close>

datatype SendResult = Sent | Unreachable | Failed

text \<open>
  One call of \<^verbatim>\<open>sendto\<close> that was not interrupted: the number of bytes taken, or an error number.  A
  run of the retry loop is a number of interruptions followed by such a result.
\<close>

datatype sendto_result = SendtoBytes nat | SendtoErr errno

type_synonym sendto_run = "nat \<times> sendto_result"

definition echo_packet :: "bool \<Rightarrow> nat \<Rightarrow> u32 \<Rightarrow> u32 \<Rightarrow> u64 \<Rightarrow> u32 \<Rightarrow> u8 list" where
  "echo_packet raw family uid seq sentUs cookie =
     (let header = \<lparr>h_type = (if family = AF_INET6 then 128 else 8), h_code = 0, h_checksum = 0,
                    h_id = htons (ucast (uid AND 0xFFFF)), h_sequence = htons (ucast (seq AND 0xFFFF))\<rparr>;
          payload = \<lparr>p_magic = kMagic, p_cookie = cookie, p_uid = uid, p_seq = seq, p_sentUs = sentUs\<rparr>;
          packet = header_bytes header @ payload_bytes payload
      in if raw \<and> family = AF_INET
         then (let c = le_bytes 2 (internetChecksum packet) in packet[2 := c ! 0, 3 := c ! 1])
         else packet)"

text \<open>
  The retry loop.  A short write does not set \<^verbatim>\<open>errno\<close>; what \<^verbatim>\<open>strerror\<close> and the classification then
  see is the value left by an earlier call, the parameter \<open>stale\<close>.
\<close>

fun send_loop :: "(errno \<Rightarrow> string) \<Rightarrow> errno \<Rightarrow> sendto_run \<Rightarrow> SendResult \<times> string option" where
  "send_loop strerror stale (Suc interrupts, r) = send_loop strerror stale (interrupts, r)"
| "send_loop strerror stale (0, SendtoBytes n) =
     (if n = kPacketSize then (Sent, None)
      else (if isUnreachableErrno stale then Unreachable else Failed, Some (strerror stale)))"
| "send_loop strerror stale (0, SendtoErr err) =
     (if isUnreachableErrno err then Unreachable else Failed, Some (strerror err))"

definition IcmpSocket_send ::
    "(errno \<Rightarrow> string) \<Rightarrow> errno \<Rightarrow> (u8 list \<Rightarrow> Endpoint \<Rightarrow> sendto_run) \<Rightarrow>
     IcmpSocket \<Rightarrow> Endpoint \<Rightarrow> u32 \<Rightarrow> u32 \<Rightarrow> u64 \<Rightarrow> u32 \<Rightarrow> SendResult \<times> string option" where
  "IcmpSocket_send strerror stale sendto sock endpoint uid seq sentUs cookie =
     (if s_fd sock < 0 \<or> \<not> endpoint_valid endpoint \<or> ep_family endpoint \<noteq> s_family sock
      then (Failed, Some ''socket not ready for this address family'')
      else send_loop strerror stale
             (sendto (echo_packet (s_raw sock) (s_family sock) uid seq sentUs cookie) endpoint))"

section \<open>Receiving\<close>

record Reply =
  r_uid :: u32
  r_seq :: u32
  r_sentUs :: u64
  r_from :: sockaddr
  r_fromLen :: nat

record datagram =
  dg_bytes :: "u8 list"
  dg_from :: sockaddr
  dg_fromLen :: nat

datatype recv_result = RecvInterrupted | RecvError | RecvBatch "datagram list"

text \<open>
  Stripping the IP header a raw IPv4 socket delivers; \<open>None\<close> is the loop's \<^verbatim>\<open>continue\<close>.
\<close>

definition strip_ip_header :: "IcmpSocket \<Rightarrow> u8 list \<Rightarrow> u8 list option" where
  "strip_ip_header sock d =
     (if s_raw sock \<and> s_family sock = AF_INET then
        (if length d < 20 then None
         else (let headerLength = unat (d ! 0 AND 0x0F) * 4
               in if headerLength < 20 \<or> length d < headerLength then None
                  else Some (drop headerLength d)))
      else Some d)"

text \<open>One received datagram, cut to the buffer size by the kernel.\<close>

definition parse_datagram :: "IcmpSocket \<Rightarrow> u32 \<Rightarrow> datagram \<Rightarrow> Reply option" where
  "parse_datagram sock cookie dg =
     (let expectedType = (if s_family sock = AF_INET6 then 129 else 0)
      in case strip_ip_header sock (take kMaxDatagram (dg_bytes dg)) of
           None \<Rightarrow> None
         | Some d \<Rightarrow>
             (if length d < kPacketSize then None
              else let header = read_header d
                   in if h_type header \<noteq> expectedType \<or> h_code header \<noteq> 0 then None
                      else let payload = read_payload (drop 8 d)
                           in if p_magic payload \<noteq> kMagic \<or> p_cookie payload \<noteq> cookie then None
                              else Some \<lparr>r_uid = p_uid payload, r_seq = p_seq payload,
                                         r_sentUs = p_sentUs payload, r_from = dg_from dg,
                                         r_fromLen = dg_fromLen dg\<rparr>))"

text \<open>
  The receive loop over the results of successive \<^verbatim>\<open>recvmmsg\<close> calls; where the script ends the queue
  is drained and the call fails with \<^verbatim>\<open>EAGAIN\<close>.
\<close>

fun receive_loop :: "IcmpSocket \<Rightarrow> u32 \<Rightarrow> recv_result list \<Rightarrow> Reply list" where
  "receive_loop sock cookie [] = []"
| "receive_loop sock cookie (RecvInterrupted # rs) = receive_loop sock cookie rs"
| "receive_loop sock cookie (RecvError # rs) = []"
| "receive_loop sock cookie (RecvBatch ds # rs) =
     (let batch = take kReceiveBatch ds
      in if batch = [] then []
         else List.map_filter (parse_datagram sock cookie) batch @
              (if length batch < kReceiveBatch then [] else receive_loop sock cookie rs))"

definition IcmpSocket_receive :: "IcmpSocket \<Rightarrow> u32 \<Rightarrow> recv_result list \<Rightarrow> Reply list \<Rightarrow> nat \<times> Reply list" where
  "IcmpSocket_receive sock cookie script out =
     (if s_fd sock < 0 then (0, out)
      else let accepted = receive_loop sock cookie script in (length accepted, out @ accepted))"

section \<open>Bytes in memory\<close>

lemma length_le_bytes [simp]: "length (le_bytes n w) = n"
  by (simp add: le_bytes_def)

lemma le_bytes_Suc: "le_bytes (Suc n) w = ucast w # le_bytes n (drop_bit 8 w)"
  by (simp only: le_bytes_def map_upt_Suc) (simp add: add.commute)

lemma le_word_le_bytes: "le_word (le_bytes n w) = take_bit (8 * n) w"
proof (induction n arbitrary: w)
  case 0
  show ?case by (simp add: le_bytes_def)
next
  case (Suc n)
  show ?case
    unfolding le_bytes_Suc le_word.simps Suc
    by (rule bit_word_eqI) (auto simp: bit_simps)
qed

lemma le_word_roundtrip:
  "le_word (le_bytes 2 (a :: u16)) = a" "le_word (le_bytes 4 (b :: u32)) = b"
  "le_word (le_bytes 8 (c :: u64)) = c"
  by (simp_all add: le_word_le_bytes take_bit_word_eq_self)

lemma length_header_bytes [simp]: "length (header_bytes h) = 8"
  and length_payload_bytes [simp]: "length (payload_bytes p) = 24"
  by (simp_all add: header_bytes_def payload_bytes_def)

lemma read_payload_bytes: "read_payload (payload_bytes p @ rest) = p"
  by (simp add: read_payload_def payload_bytes_def le_word_roundtrip)

lemma read_header_bytes: "read_header (header_bytes h @ rest) = h"
  by (simp add: read_header_def header_bytes_def le_word_roundtrip)

text \<open>Both structures are codecs: what \<^verbatim>\<open>memcpy\<close> writes, \<^verbatim>\<open>memcpy\<close> reads back.\<close>

interpretation payload: codec payload_bytes "\<lambda>d. Some (read_payload d)" "\<lambda>_. True"
  by unfold_locales (use read_payload_bytes [of _ "[]"] in simp)

interpretation header: codec header_bytes "\<lambda>d. Some (read_header d)" "\<lambda>_. True"
  by unfold_locales (use read_header_bytes [of _ "[]"] in simp)

section \<open>Checksum arithmetic\<close>

text \<open>One's complement addition keeps the residue modulo \<open>65535\<close>.\<close>

lemma fold_residue: "(n mod 65536 + n div 65536) mod 65535 = n mod (65535::nat)"
proof -
  define q r where "q = n div 65536" and "r = n mod 65536"
  have "n = r + 65536 * q" unfolding q_def r_def by simp
  then have "n = (r + q) + 65535 * q" by linarith
  then have "n mod 65535 = (r + q) mod 65535" by (metis mod_mult_self2)
  then show ?thesis unfolding q_def r_def by simp
qed

lemma unat_drop_16: "unat (drop_bit 16 (s :: u32)) = unat s div 65536"
  by (simp only: unat_drop_bit_eq) (simp add: drop_bit_eq_div)

lemma fold_carry_spec:
  "unat (fold_carry s) < 65536 \<and> unat (fold_carry s) mod 65535 = unat s mod 65535 \<and>
   (unat (fold_carry s) = 0 \<longleftrightarrow> unat s = 0)"
proof (induction s rule: fold_carry.induct)
  case (1 s)
  show ?case
  proof (cases "drop_bit 16 s = 0")
    case True
    then have "unat s div 65536 = 0" using unat_drop_16 [of s] by simp
    then have "unat s < 65536" by (simp add: div_eq_0_iff)
    with True show ?thesis by (simp add: fold_carry.simps [of s])
  next
    case False
    let ?t = "(s AND 0xFFFF) + drop_bit 16 s"
    have t: "unat ?t = unat s mod 65536 + unat s div 65536" by (rule unat_fold_step)
    have "unat s div 65536 \<noteq> 0" using False unfolding unat_drop_16 [symmetric] by (simp only: unat_0_iff not_False_eq_True)
    then have "unat s \<noteq> 0" "unat ?t \<noteq> 0" unfolding t by auto
    moreover have "unat ?t mod 65535 = unat s mod 65535" unfolding t by (rule fold_residue)
    moreover have "fold_carry s = fold_carry ?t" using False by (simp add: fold_carry.simps [of s])
    ultimately show ?thesis using 1 [OF False] by simp
  qed
qed

text \<open>Only \<open>65535\<close> is both a folded value and a positive multiple of \<open>65535\<close>.\<close>

lemma fold_carry_multiple:
  assumes "unat s mod 65535 = 0" and "unat s \<noteq> 0"
  shows "unat (fold_carry s) = 65535"
proof -
  have f: "unat (fold_carry s) < 65536" "unat (fold_carry s) mod 65535 = 0" "unat (fold_carry s) \<noteq> 0"
    using fold_carry_spec [of s] assms by simp_all
  then obtain k where k: "unat (fold_carry s) = 65535 * k" by (auto simp: mod_eq_0_iff_dvd)
  with f have "k = 1" by (cases k) auto
  with k show ?thesis by simp
qed

text \<open>The sum as a natural number, before reduction to 32 bits.\<close>

fun word_sum :: "u8 list \<Rightarrow> nat" where
  "word_sum (a # b # rest) = unat (le_word [a, b] :: u16) + word_sum rest"
| "word_sum [a] = unat a"
| "word_sum [] = 0"

lemma unat_checksum_sum: "unat (checksum_sum bs acc) = (unat acc + word_sum bs) mod 2 ^ 32"
proof (induction bs acc rule: checksum_sum.induct)
  case (1 a b rest acc)
  have u: "unat (ucast (le_word [a, b] :: u16) :: u32) = unat (le_word [a, b] :: u16)"
    by (rule unat_ucast_up) simp
  show ?case
    unfolding checksum_sum.simps word_sum.simps 1
    by (simp only: unat_word_ariths u) (simp add: mod_simps add.assoc)
next
  case (2 a acc)
  have "unat (ucast a :: u32) = unat a"
    by (rule unat_ucast_up) simp
  then show ?case by (simp add: unat_word_ariths)
next
  case (3 acc)
  show ?case using unat_less_pow [of acc] by simp
qed

lemma unat_le_word2: "unat (le_word [a, b] :: u16) = unat a + unat b * 256"
proof -
  have a: "unat (ucast a :: u16) = unat a" and b: "unat (ucast b :: u16) = unat b"
    by (rule unat_ucast_up, simp)+
  have "unat a < 256" "unat b < 256" using unat_less_pow [of a] unat_less_pow [of b] by simp_all
  then have "unat (push_bit 8 (ucast b :: u16) OR ucast a) = unat (ucast b :: u16) * 2 ^ 8 + unat (ucast a :: u16)"
    by (intro unat_push_or) (simp_all add: a b)
  with a b show ?thesis by simp
qed

lemma word_sum_bound: "word_sum bs \<le> (length bs + 1) div 2 * 65535"
proof (induction bs rule: word_sum.induct)
  case (1 a b rest)
  have "unat a < 256" "unat b < 256" using unat_less_pow [of a] unat_less_pow [of b] by simp_all
  then have "unat (le_word [a, b] :: u16) \<le> 65535" unfolding unat_le_word2 by linarith
  with 1 show ?case by simp
next
  case (2 a)
  show ?case using unat_less_pow [of a] by simp
qed simp

lemma le_bytes_2: "le_bytes 2 w = [ucast w, ucast (drop_bit 8 w)]"
  by (simp add: le_bytes_def upt_rec numeral_2_eq_2)

lemma le_bytes_2_zero: "le_bytes 2 (0 :: u16) = [0, 0]"
  by (simp add: le_bytes_2)

lemma unat_not_fold:
  assumes "unat (f :: u32) < 65536"
  shows "unat (ucast (NOT f) :: u16) = 65535 - unat f"
proof -
  have "NOT f = - 1 - f" by (simp add: not_eq_complement)
  then have "unat (NOT f) = 2 ^ 32 - 1 - unat f"
    using assms by (simp add: unat_sub word_le_nat_alt unsigned_minus_1_eq_mask mask_eq_exp_minus_1)
  then have "unat (ucast (NOT f) :: u16) = (2 ^ 32 - 1 - unat f) mod 65536"
    by (simp add: unsigned_ucast_eq take_bit_eq_mod)
  also have "(2 ^ 32 - 1 - unat f) = (65535 - unat f) + 65535 * 65536"
    using assms by simp
  also have "((65535 - unat f) + 65535 * 65536) mod 65536 = 65535 - unat f"
    by (subst mod_mult_self1) simp
  finally show ?thesis .
qed

text \<open>
  Filling a zero checksum field with the checksum makes the whole sum fold to all ones.
\<close>

lemma checksum_fills:
  assumes "even (length rest)" and "length rest < 65532" and "word_sum rest + unat (le_word [t, c] :: u16) \<noteq> 0"
  defines "k \<equiv> internetChecksum ([t, c, 0, 0] @ rest)"
  shows "internetChecksum ([t, c, ucast k, ucast (drop_bit 8 k)] @ rest) = 0"
proof -
  define S where "S = unat (le_word [t, c] :: u16) + word_sum rest"
  have z: "unat (le_word [0, 0] :: u16) = 0" by simp
  have kk: "le_word [ucast k, ucast (drop_bit 8 k)] = k"
    using le_word_roundtrip(1) [of k] by (simp add: le_bytes_2)
  have "word_sum rest \<le> (length rest + 1) div 2 * 65535" by (rule word_sum_bound)
  moreover have "(length rest + 1) div 2 \<le> 32766" using assms(2) by simp
  ultimately have "word_sum rest \<le> 32766 * 65535"
    by (meson mult_le_mono1 order_trans)
  moreover have "unat (le_word [t, c] :: u16) < 65536" using unat_less_pow [of "le_word [t, c] :: u16"] by simp
  moreover have "unat k < 65536" using unat_less_pow [of k] by simp
  ultimately have bound: "S + unat k < 2 ^ 32" unfolding S_def by simp
  have s1: "unat (checksum_sum ([t, c, 0, 0] @ rest) 0) = S"
    unfolding unat_checksum_sum using bound z by (simp add: S_def)
  have s2: "unat (checksum_sum ([t, c, ucast k, ucast (drop_bit 8 k)] @ rest) 0) = S + unat k"
    unfolding unat_checksum_sum using bound kk by (simp add: S_def)
  let ?F = "unat (fold_carry (checksum_sum ([t, c, 0, 0] @ rest) 0))"
  have F: "?F < 65536" "?F mod 65535 = S mod 65535"
    using fold_carry_spec [of "checksum_sum ([t, c, 0, 0] @ rest) 0"] s1 by simp_all
  have k: "unat k = 65535 - ?F"
    unfolding k_def internetChecksum_def by (rule unat_not_fold) (rule F(1))
  have "(S + unat k) mod 65535 = (?F + unat k) mod 65535"
    using F(2) by (metis mod_add_left_eq)
  also have "?F + unat k = 65535" using k F(1) by simp
  finally have "(S + unat k) mod 65535 = 0" by simp
  moreover have "S + unat k \<noteq> 0" using assms(3) unfolding S_def by auto
  ultimately have "unat (fold_carry (checksum_sum ([t, c, ucast k, ucast (drop_bit 8 k)] @ rest) 0)) = 65535"
    by (intro fold_carry_multiple) (simp_all only: s2 not_False_eq_True)
  then have "unat (internetChecksum ([t, c, ucast k, ucast (drop_bit 8 k)] @ rest)) = 0"
    unfolding internetChecksum_def by (simp add: unat_not_fold)
  then show ?thesis by (simp only: unat_0_iff)
qed

section \<open>Packets on the wire\<close>

lemma echo_packet_layout:
  obtains rest where "echo_packet False family uid seq sentUs cookie =
      [if family = AF_INET6 then 128 else 8, 0, 0, 0] @ rest" and "length rest = 28"
proof -
  let ?rest = "le_bytes 2 (htons (ucast (uid AND 0xFFFF))) @ le_bytes 2 (htons (ucast (seq AND 0xFFFF))) @
     payload_bytes \<lparr>p_magic = kMagic, p_cookie = cookie, p_uid = uid, p_seq = seq, p_sentUs = sentUs\<rparr>"
  show ?thesis
    by (rule that [of ?rest]) (simp_all add: echo_packet_def Let_def header_bytes_def le_bytes_2_zero)
qed

lemma echo_packet_raw:
  assumes "echo_packet False AF_INET uid seq sentUs cookie = [8, 0, 0, 0] @ rest"
  defines "k \<equiv> internetChecksum ([8, 0, 0, 0] @ rest)"
  shows "echo_packet True AF_INET uid seq sentUs cookie = [8, 0, ucast k, ucast (drop_bit 8 k)] @ rest"
proof -
  have "echo_packet True AF_INET uid seq sentUs cookie =
      (let p = echo_packet False AF_INET uid seq sentUs cookie; c = le_bytes 2 (internetChecksum p)
       in p[2 := c ! 0, 3 := c ! 1])"
    by (simp add: echo_packet_def Let_def)
  also have "\<dots> = [8, 0, ucast k, ucast (drop_bit 8 k)] @ rest"
    unfolding assms(1) Let_def k_def [symmetric] le_bytes_2
    by (simp add: numeral_2_eq_2 numeral_3_eq_3)
  finally show ?thesis .
qed

lemma echo_packet_length [simp]: "length (echo_packet raw family uid seq sentUs cookie) = kPacketSize"
  by (simp add: echo_packet_def Let_def kPacketSize_def)

text \<open>Whatever the header, the payload of the request is the last 24 bytes.\<close>

lemma drop_8_echo_packet:
  "drop 8 (echo_packet raw family uid seq sentUs cookie) =
     payload_bytes \<lparr>p_magic = kMagic, p_cookie = cookie, p_uid = uid, p_seq = seq, p_sentUs = sentUs\<rparr>"
  by (simp add: echo_packet_def Let_def drop_update_swap)

lemma read_payload_append [simp]:
  "length d \<ge> 24 \<Longrightarrow> read_payload (d @ rest) = read_payload d"
  by (simp add: read_payload_def)

section \<open>Address selection\<close>

lemma chooseAddress_prefers:
  "chooseAddress chosen results =
     (case find (\<lambda>a. ai_family a = AF_INET) results of
        Some a \<Rightarrow> Some a
      | None \<Rightarrow> if chosen = None then find (\<lambda>a. ai_family a = AF_INET6) results else chosen)"
  by (induction chosen results rule: chooseAddress.induct)
    (auto simp: af_defs split: option.splits)

text \<open>
  A lookup that succeeds yields the first IPv4 address the library returned if there is one, and
  otherwise the first IPv6 address.
\<close>

lemma lookup_ok:
  assumes "lookup db host flags = Inr ep"
  obtains results a where "getaddrinfo db host flags = (0, results)" and
    "(case find (\<lambda>a. ai_family a = AF_INET) results of
        Some a \<Rightarrow> Some a | None \<Rightarrow> find (\<lambda>a. ai_family a = AF_INET6) results) = Some a" and
    "ep_family ep = ai_family a" and "ep_addr ep = ai_addr a" and "ep_len ep = ai_addrlen a"
  using assms
  by (auto simp: lookup_def chooseAddress_prefers Let_def split: prod.splits if_splits option.splits)

lemma lookup_family:
  assumes "lookup db host flags = Inr ep"
  shows "ep_family ep \<in> {AF_INET, AF_INET6}"
  by (rule lookup_ok [OF assms])
    (auto simp: find_Some_iff split: option.splits)

lemma matches_same_address:
  assumes "matches e a n"
  shows "endpoint_valid e \<and> ss_family a = ss_family (ep_addr e) \<and>
    (ss_family a = AF_INET \<and> sin_addr a = sin_addr (ep_addr e) \<or>
     ss_family a = AF_INET6 \<and> sin6_addr a = sin6_addr (ep_addr e))"
  using assms by (auto simp: matches_def split: if_splits)

section \<open>Properties\<close>


text \<open>
  C15: A reply finds its probe.  When a peer echoes the payload of a request verbatim (any identifier,
  sequence number, checksum and trailing bytes, and behind an IP header of the length it announces
  where the socket is a raw IPv4 one), the receive path accepts it exactly if the cookie is the
  daemon's own, and then recovers the prober's uid, the sequence number and the send time.
\<close>

theorem echo_reply_recovered:
  assumes "length hdr = 8" and "hdr ! 0 = (if s_family sock = AF_INET6 then 129 else 0)" and "hdr ! 1 = 0"
    and "if s_raw sock \<and> s_family sock = AF_INET
         then 20 \<le> length ip \<and> length ip = unat (ip ! 0 AND 0x0F) * 4 else ip = []"
  shows "parse_datagram sock cookie
      \<lparr>dg_bytes = ip @ hdr @ drop 8 (echo_packet raw family uid seq sentUs sender) @ padding,
       dg_from = from, dg_fromLen = len\<rparr> =
    (if sender = cookie
     then Some \<lparr>r_uid = uid, r_seq = seq, r_sentUs = sentUs, r_from = from, r_fromLen = len\<rparr>
     else None)"
proof -
  let ?p = "payload_bytes \<lparr>p_magic = kMagic, p_cookie = sender, p_uid = uid, p_seq = seq, p_sentUs = sentUs\<rparr>"
  let ?pad = "take (224 - length ip) padding"
  have "unat (ip ! 0 AND 0x0F) < 16"
  proof -
    have "ip ! 0 AND 0x0F = take_bit 4 (ip ! 0)" by (simp add: take_bit_eq_mask mask_eq_exp_minus_1)
    then have "unat (ip ! 0 AND 0x0F) = take_bit 4 (unat (ip ! 0))" by (simp only: unsigned_take_bit_eq)
    then show ?thesis by (simp add: take_bit_eq_mod)
  qed
  then have ip: "length ip \<le> 60" using assms(4) by (auto split: if_splits)
  have cut: "take kMaxDatagram (ip @ hdr @ ?p @ padding) = ip @ hdr @ ?p @ ?pad"
    using ip assms(1) by (simp add: kMaxDatagram_def)
  have strip: "strip_ip_header sock (ip @ hdr @ ?p @ ?pad) = Some (hdr @ ?p @ ?pad)"
    using assms(4) by (auto simp: strip_ip_header_def Let_def nth_append split: if_splits)
  have head: "h_type (read_header (hdr @ x)) = hdr ! 0" "h_code (read_header (hdr @ x)) = hdr ! 1" for x
    using assms(1) by (simp_all add: read_header_def nth_append)
  have pay: "read_payload (?p @ x) =
      \<lparr>p_magic = kMagic, p_cookie = sender, p_uid = uid, p_seq = seq, p_sentUs = sentUs\<rparr>" for x
    by (rule read_payload_bytes)
  show ?thesis
    unfolding parse_datagram_def drop_8_echo_packet datagram.simps cut strip
    using assms(1,2,3) by (simp add: Let_def head pay kPacketSize_def)
qed

theorem echo_reply_recovered_witness:
  "parse_datagram \<lparr>s_fd = 3, s_family = AF_INET, s_raw = False\<rparr> 7
     \<lparr>dg_bytes = [] @ [0, 0, 1, 2, 3, 4, 5, 6] @ drop 8 (echo_packet False AF_INET 11 12 13 7) @ [],
      dg_from = sockaddr_zero, dg_fromLen = 16\<rparr> =
   Some \<lparr>r_uid = 11, r_seq = 12, r_sentUs = 13, r_from = sockaddr_zero, r_fromLen = 16\<rparr>"
proof -
  let ?s = "\<lparr>s_fd = 3, s_family = AF_INET, s_raw = False\<rparr>"
  have "length [0, 0, 1, 2, 3, 4, 5, 6 :: u8] = 8"
    "[0, 0, 1, 2, 3, 4, 5, 6 :: u8] ! 0 = (if s_family ?s = AF_INET6 then 129 else 0)"
    "[0, 0, 1, 2, 3, 4, 5, 6 :: u8] ! 1 = 0"
    "if s_raw ?s \<and> s_family ?s = AF_INET
     then 20 \<le> length ([] :: u8 list) \<and> length ([] :: u8 list) = unat (([] :: u8 list) ! 0 AND 0x0F) * 4
     else ([] :: u8 list) = []"
    by (simp_all add: af_defs)
  from echo_reply_recovered [OF this, of 7 False AF_INET 11 12 13 7 "[]" sockaddr_zero 16]
  show ?thesis by simp
qed

end
