(* ===== verification/Resolver.thy ===== *)
theory Resolver
  imports Pinger
begin

text \<open>
  The resolver of \<^verbatim>\<open>resolver.cpp\<close> and \<^verbatim>\<open>resolver.h\<close>: a queue of requests, a list of completed lookups,
  and an eventfd that wakes the event loop.  The class is shared by the event loop and a worker
  thread; the mutex makes each critical section one step, and the step relation at the end
  interleaves the steps of both threads in every order.
\<close>

section \<open>State and operations\<close>

record Request =
  q_uid :: u32
  q_host :: string

record Result =
  res_uid :: u32
  res_host :: string
  res_ok :: bool
  res_endpoint :: Endpoint
  res_error :: string

text \<open>Where the worker thread is: waiting on the condition variable, inside \<^verbatim>\<open>getaddrinfo\<close>, between
  pushing a result and writing to the eventfd, or returned.\<close>

datatype worker = WorkerWaiting | WorkerResolving Request | WorkerNotifying | WorkerReturned

record Resolver =
  rs_eventFd :: int
  rs_counter :: u64
  rs_pending :: "Request list"
  rs_completed :: "Result list"
  rs_stop :: bool
  rs_worker :: worker

text \<open>The constructor: \<open>eventFd\<close> is what \<^verbatim>\<open>eventfd\<close> returned, negative on failure.\<close>

definition Resolver_new :: "int \<Rightarrow> Resolver" where
  "Resolver_new eventFd = \<lparr>rs_eventFd = eventFd, rs_counter = 0, rs_pending = [], rs_completed = [],
     rs_stop = False, rs_worker = WorkerWaiting\<rparr>"

text \<open>The part of the destructor that stops the worker.\<close>

definition Resolver_stop :: "Resolver \<Rightarrow> Resolver" where
  "Resolver_stop r = r\<lparr>rs_stop := True\<rparr>"

definition Resolver_request :: "u32 \<Rightarrow> string \<Rightarrow> Resolver \<Rightarrow> Resolver" where
  "Resolver_request uid host r =
     (if list_ex (\<lambda>p. q_uid p = uid) (rs_pending r) then r
      else r\<lparr>rs_pending := rs_pending r @ [\<lparr>q_uid = uid, q_host = host\<rparr>]\<rparr>)"

text \<open>
  \<^verbatim>\<open>collect\<close> first reads the eventfd, which resets its counter, and then takes the completed results
  under the lock; the worker may run in between.
\<close>

definition collect_read :: "Resolver \<Rightarrow> Resolver" where
  "collect_read r = (if rs_eventFd r \<ge> 0 then r\<lparr>rs_counter := 0\<rparr> else r)"

definition collect_take :: "Result list \<Rightarrow> Resolver \<Rightarrow> Result list \<times> Resolver" where
  "collect_take out r =
     (if rs_completed r = [] then (out, r)
      else (out @ rs_completed r, r\<lparr>rs_completed := []\<rparr>))"

definition Resolver_collect :: "Result list \<Rightarrow> Resolver \<Rightarrow> Result list \<times> Resolver" where
  "Resolver_collect out r = collect_take out (collect_read r)"

text \<open>
  The worker loop, one step per critical section: take a request or return, look the name up and
  push the result, write to the eventfd.  A step that is not enabled is \<open>None\<close>: the thread blocks.
\<close>

definition worker_take :: "Resolver \<Rightarrow> Resolver option" where
  "worker_take r =
     (if rs_worker r \<noteq> WorkerWaiting then None
      else if rs_stop r then Some (r\<lparr>rs_worker := WorkerReturned\<rparr>)
      else case rs_pending r of
          [] \<Rightarrow> None
        | q # rest \<Rightarrow> Some (r\<lparr>rs_pending := rest, rs_worker := WorkerResolving q\<rparr>))"

definition worker_result :: "netdb \<Rightarrow> Request \<Rightarrow> Result" where
  "worker_result db q =
     (case resolveHostName db (q_host q) of
        Inl err \<Rightarrow> \<lparr>res_uid = q_uid q, res_host = q_host q, res_ok = False,
                   res_endpoint = Endpoint_default, res_error = err\<rparr>
      | Inr ep \<Rightarrow> \<lparr>res_uid = q_uid q, res_host = q_host q, res_ok = True,
                  res_endpoint = ep, res_error = ''''\<rparr>)"

definition worker_push :: "netdb \<Rightarrow> Resolver \<Rightarrow> Resolver option" where
  "worker_push db r =
     (case rs_worker r of
        WorkerResolving q \<Rightarrow>
          Some (r\<lparr>rs_completed := rs_completed r @ [worker_result db q], rs_worker := WorkerNotifying\<rparr>)
      | _ \<Rightarrow> None)"

text \<open>The counter of a non-blocking eventfd stops at its maximum, where the write fails.\<close>

definition worker_notify :: "Resolver \<Rightarrow> Resolver option" where
  "worker_notify r =
     (if rs_worker r \<noteq> WorkerNotifying then None
      else let r1 = r\<lparr>rs_worker := WorkerWaiting\<rparr>
           in if rs_eventFd r \<ge> 0 \<and> rs_counter r < 0xFFFFFFFFFFFFFFFE
              then Some (r1\<lparr>rs_counter := rs_counter r + 1\<rparr>) else Some r1)"

section \<open>Interleavings\<close>

text \<open>
  A configuration adds to the resolver what the two sides have seen: the requests that entered the
  queue, the results handed to the event loop, and whether the event loop is between the two
  halves of \<^verbatim>\<open>collect\<close>.
\<close>

record resolver_run =
  run_resolver :: Resolver
  run_accepted :: "Request list"
  run_delivered :: "Result list"
  run_collecting :: bool

inductive resolver_step :: "resolver_run \<Rightarrow> resolver_run \<Rightarrow> bool" where
  request: "\<not> run_collecting s \<Longrightarrow>
    resolver_step s (s\<lparr>run_resolver := Resolver_request uid host (run_resolver s),
      run_accepted := run_accepted s @
        (if list_ex (\<lambda>p. q_uid p = uid) (rs_pending (run_resolver s)) then []
         else [\<lparr>q_uid = uid, q_host = host\<rparr>])\<rparr>)"
| read: "\<not> run_collecting s \<Longrightarrow>
    resolver_step s (s\<lparr>run_resolver := collect_read (run_resolver s), run_collecting := True\<rparr>)"
| drain: "run_collecting s \<Longrightarrow> collect_take [] (run_resolver s) = (out, r) \<Longrightarrow>
    resolver_step s (s\<lparr>run_resolver := r, run_delivered := run_delivered s @ out, run_collecting := False\<rparr>)"
| take: "worker_take (run_resolver s) = Some r \<Longrightarrow> resolver_step s (s\<lparr>run_resolver := r\<rparr>)"
| push: "worker_push db (run_resolver s) = Some r \<Longrightarrow> resolver_step s (s\<lparr>run_resolver := r\<rparr>)"
| notify: "worker_notify (run_resolver s) = Some r \<Longrightarrow> resolver_step s (s\<lparr>run_resolver := r\<rparr>)"
| stop: "resolver_step s (s\<lparr>run_resolver := Resolver_stop (run_resolver s)\<rparr>)"

inductive resolver_reachable :: "int \<Rightarrow> resolver_run \<Rightarrow> bool" for fd :: int where
  start: "resolver_reachable fd \<lparr>run_resolver = Resolver_new fd, run_accepted = [], run_delivered = [],
    run_collecting = False\<rparr>"
| step: "resolver_reachable fd s \<Longrightarrow> resolver_step s t \<Longrightarrow> resolver_reachable fd t"

section \<open>Invariants\<close>

definition result_key :: "Result \<Rightarrow> Request" where
  "result_key x = \<lparr>q_uid = res_uid x, q_host = res_host x\<rparr>"

lemma result_key_worker [simp]: "result_key (worker_result db q) = q"
  by (simp add: result_key_def worker_result_def split: sum.splits)

definition in_progress :: "Resolver \<Rightarrow> Request list" where
  "in_progress r = (case rs_worker r of WorkerResolving q \<Rightarrow> [q] | _ \<Rightarrow> [])"

text \<open>The pipeline: accepted requests are, in order, delivered, completed, in progress, or pending.\<close>

definition pipeline_inv :: "resolver_run \<Rightarrow> bool" where
  "pipeline_inv s \<longleftrightarrow>
     run_accepted s =
       map result_key (run_delivered s) @ map result_key (rs_completed (run_resolver s)) @
       in_progress (run_resolver s) @ rs_pending (run_resolver s)"

definition queue_inv :: "resolver_run \<Rightarrow> bool" where
  "queue_inv s \<longleftrightarrow> distinct (map q_uid (rs_pending (run_resolver s)))"

text \<open>Completed results are always announced, about to be announced, or about to be taken.\<close>

definition wakeup_inv :: "resolver_run \<Rightarrow> bool" where
  "wakeup_inv s \<longleftrightarrow>
     rs_completed (run_resolver s) = [] \<or> rs_eventFd (run_resolver s) < 0 \<or>
     rs_counter (run_resolver s) > 0 \<or> rs_worker (run_resolver s) = WorkerNotifying \<or> run_collecting s"

lemmas resolver_ops = Resolver_request_def collect_read_def collect_take_def worker_take_def
  worker_push_def worker_notify_def Resolver_stop_def

lemma pipeline_step:
  assumes "resolver_step s t" and "pipeline_inv s"
  shows "pipeline_inv t"
  using assms
  by (induction rule: resolver_step.induct)
    (auto simp: pipeline_inv_def resolver_ops in_progress_def Let_def
      split: if_splits list.splits worker.splits)

lemma queue_step:
  assumes "resolver_step s t" and "queue_inv s"
  shows "queue_inv t"
  using assms
  by (induction rule: resolver_step.induct)
    (auto simp: queue_inv_def resolver_ops Let_def list_ex_iff split: if_splits list.splits worker.splits)

lemma word_succ_pos: "(c :: u64) < 0xFFFFFFFFFFFFFFFE \<Longrightarrow> 0 < c + 1"
proof -
  assume "c < 0xFFFFFFFFFFFFFFFE"
  then have "unat c < 0xFFFFFFFFFFFFFFFE" by (simp add: word_less_nat_alt)
  then show ?thesis by (simp add: word_less_nat_alt unat_word_ariths)
qed

lemma word_not_small_pos: "\<not> (c :: u64) < 0xFFFFFFFFFFFFFFFE \<Longrightarrow> 0 < c"
  by (simp add: word_less_nat_alt)

lemma wakeup_step:
  assumes "resolver_step s t" and "wakeup_inv s"
  shows "wakeup_inv t"
  using assms
  by (induction rule: resolver_step.induct)
    (auto simp: wakeup_inv_def resolver_ops Let_def word_succ_pos
      dest: word_not_small_pos split: if_splits list.splits worker.splits)

lemma reachable_inv:
  assumes "resolver_reachable fd s"
  shows "pipeline_inv s \<and> queue_inv s \<and> wakeup_inv s"
  using assms
proof (induction rule: resolver_reachable.induct)
  case start
  show ?case
    by (simp add: pipeline_inv_def queue_inv_def wakeup_inv_def Resolver_new_def in_progress_def)
next
  case (step s t)
  then show ?case using pipeline_step queue_step wakeup_step by blast
qed

section \<open>A run\<close>

text \<open>
  One lookup that has just completed: the event loop asked for a name, the worker took the request
  and pushed its result.
\<close>

definition example_db :: netdb where
  "example_db = \<lparr>getaddrinfo = (\<lambda>host flags.
       (0, [\<lparr>ai_family = AF_INET, ai_addr = \<lparr>ss_family = AF_INET, sin_addr = 0x0A000001, sin6_addr = 0\<rparr>,
             ai_addrlen = 16\<rparr>])),
     gai_strerror = (\<lambda>rc. ''error''), getnameinfo = (\<lambda>a n. Some ''10.0.0.1'')\<rparr>"

definition example_run :: resolver_run where
  "example_run =
     (let q = \<lparr>q_uid = 9, q_host = ''gw''\<rparr>
      in \<lparr>run_resolver = \<lparr>rs_eventFd = 5, rs_counter = 0, rs_pending = [],
            rs_completed = [worker_result example_db q], rs_stop = False, rs_worker = WorkerNotifying\<rparr>,
          run_accepted = [q], run_delivered = [], run_collecting = False\<rparr>)"

lemma example_reachable: "resolver_reachable 5 example_run"
proof -
  let ?q = "\<lparr>q_uid = 9, q_host = ''gw''\<rparr>"
  let ?r = "Resolver_new 5"
  let ?s0 = "\<lparr>run_resolver = ?r, run_accepted = [], run_delivered = [], run_collecting = False\<rparr>"
  let ?s1 = "\<lparr>run_resolver = ?r\<lparr>rs_pending := [?q]\<rparr>, run_accepted = [?q], run_delivered = [],
    run_collecting = False\<rparr>"
  let ?s2 = "\<lparr>run_resolver = ?r\<lparr>rs_worker := WorkerResolving ?q\<rparr>, run_accepted = [?q], run_delivered = [],
    run_collecting = False\<rparr>"
  have "resolver_step ?s0 ?s1"
    using resolver_step.request [of ?s0 9 "''gw''"] by (simp add: Resolver_request_def Resolver_new_def)
  moreover have "resolver_step ?s1 ?s2"
    using resolver_step.take [of ?s1] by (simp add: worker_take_def Resolver_new_def)
  moreover have "resolver_step ?s2 example_run"
    using resolver_step.push [of example_db ?s2]
    by (simp add: worker_push_def Resolver_new_def example_run_def Let_def)
  ultimately show ?thesis
    by (meson resolver_reachable.start resolver_reachable.step)
qed

section \<open>Properties\<close>

text \<open>
  C13: The resolver neither loses, duplicates nor reorders lookups.  In every interleaving of the
  event loop and the worker thread, the requests that entered the queue are, in order, exactly
  those whose results were delivered, those completed but not yet collected, the one being looked
  up, and those still pending.
\<close>

theorem resolver_fifo:
  assumes "resolver_reachable fd s"
  shows "run_accepted s =
    map result_key (run_delivered s) @ map result_key (rs_completed (run_resolver s)) @
    in_progress (run_resolver s) @ rs_pending (run_resolver s)"
  using reachable_inv [OF assms] by (simp add: pipeline_inv_def)

theorem resolver_fifo_witness:
  "run_accepted example_run =
    map result_key (run_delivered example_run) @
    map result_key (rs_completed (run_resolver example_run)) @
    in_progress (run_resolver example_run) @ rs_pending (run_resolver example_run)"
  by (rule resolver_fifo [OF example_reachable])

text \<open>
  C14: No lost wake-up.  With a working eventfd, whenever completed lookups are waiting, the eventfd is
  readable, or the worker is just about to write to it, or the event loop is just about to take
  them; so the loop is always woken for every result.
\<close>

theorem resolver_no_lost_wakeup:
  assumes "resolver_reachable fd s" and "rs_eventFd (run_resolver s) \<ge> 0"
    and "rs_completed (run_resolver s) \<noteq> []"
  shows "rs_counter (run_resolver s) > 0 \<or> rs_worker (run_resolver s) = WorkerNotifying \<or> run_collecting s"
  using reachable_inv [OF assms(1)] assms(2,3) by (auto simp: wakeup_inv_def)
theorem resolver_no_lost_wakeup_witness:
  "rs_counter (run_resolver example_run) > 0 \<or>
   rs_worker (run_resolver example_run) = WorkerNotifying \<or> run_collecting example_run"
  by (rule resolver_no_lost_wakeup [OF example_reachable]) (simp_all add: example_run_def Let_def)

end
