(* ===== verification/Monitor_State.thy ===== *)
theory Monitor_State
  imports Health Resolver Util
begin

text \<open>
  The data of \<^verbatim>\<open>monitor.h\<close>: clients, probers, options and the monitor itself, and the environment the
  monitor runs in.  Every call into the operating system takes the next entry of the environment:
  the field \<open>m_osCalls\<close> counts the calls made so far, and each function of the environment gives
  the answer to call number \<open>n\<close>, so that two readings of a clock in one operation may differ.
\<close>

section \<open>Constants\<close>

definition kSendSlackUs :: u64 where "kSendSlackUs = 2000"
definition kResolveTtlUs :: u64 where "kResolveTtlUs = 300 * 1000000"
definition kResolveBackoffBaseUs :: u64 where "kResolveBackoffBaseUs = 5 * 1000000"
definition kResolveBackoffMaxUs :: u64 where "kResolveBackoffMaxUs = 300 * 1000000"
definition kClientCheckIntervalUs :: u64 where "kClientCheckIntervalUs = 60 * 1000000"
definition kReadablePublishIntervalUs :: u64 where "kReadablePublishIntervalUs = 5 * 1000000"
definition kNeverUs :: u64 where "kNeverUs = NOT 0"
definition kMaxInFlight :: u64 where "kMaxInFlight = 8"

section \<open>Clients and probers\<close>

record Client =
  c_id :: string
  c_path :: string
  c_intervalUs :: u64
  c_timeoutUs :: u64
  c_destinations :: "Destination list"
  c_error :: string

definition Client_default :: Client where
  "Client_default = \<lparr>c_id = '''', c_path = '''', c_intervalUs = 1000000, c_timeoutUs = 1000000,
     c_destinations = [], c_error = ''''\<rparr>"

record InFlight =
  f_seq :: u32
  f_sentUs :: u64
  f_deadlineUs :: u64

record Subscriber =
  sub_client :: nat
  sub_destination :: nat

record Prober =
  pr_host :: string
  pr_intervalUs :: u64
  pr_timeoutUs :: u64
  pr_uid :: u32
  pr_endpoint :: Endpoint
  pr_numeric :: bool
  pr_resolving :: bool
  pr_lastError :: string
  pr_nextResolveUs :: u64
  pr_resolveFailures :: int
  pr_nextSendUs :: u64
  pr_sequence :: u32
  pr_inFlight :: "InFlight list"
  pr_maxInFlight :: nat
  pr_sent :: u64
  pr_received :: u64
  pr_subscribers :: "Subscriber list"

definition Prober_default :: Prober where
  "Prober_default = \<lparr>pr_host = '''', pr_intervalUs = 1000000, pr_timeoutUs = 1000000, pr_uid = 0,
     pr_endpoint = Endpoint_default, pr_numeric = False, pr_resolving = False, pr_lastError = '''',
     pr_nextResolveUs = 0, pr_resolveFailures = 0, pr_nextSendUs = 0, pr_sequence = 0,
     pr_inFlight = [], pr_maxInFlight = 1, pr_sent = 0, pr_received = 0, pr_subscribers = []\<rparr>"

record MonitorOptions =
  o_runtimeDir :: string
  o_publishIntervalUs :: u64
  o_clientTimeoutUs :: u64
  o_idleExitUs :: u64
  o_maxDestinations :: nat

definition MonitorOptions_default :: MonitorOptions where
  "MonitorOptions_default = \<lparr>o_runtimeDir = '''', o_publishIntervalUs = 250000,
     o_clientTimeoutUs = 900 * 1000000, o_idleExitUs = 0, o_maxDestinations = 128\<rparr>"

section \<open>The environment\<close>

text \<open>
  What \<^verbatim>\<open>opendir\<close> and \<^verbatim>\<open>readdir\<close> give: the names in the order the directory lists them, or the two kinds of
  failure the code tells apart (\<^verbatim>\<open>ENOENT\<close> and any other).
\<close>

datatype dir_result = DirEntries "string list" | DirMissing | DirError

text \<open>One event from the inotify queue: its mask and its name, which is empty for an event on the directory itself.\<close>

record inotify_event =
  ie_self :: bool
  ie_name :: string

datatype inotify_read = InotifyInterrupted | InotifyEvents "inotify_event list" | InotifyDrained

text \<open>What \<^verbatim>\<open>epoll_wait\<close> gives: interrupted by a signal, another error, or the descriptors that are ready.\<close>

datatype epoll_result = EpollInterrupted | EpollFailed | EpollReady "int list"

text \<open>
  The answers of the operating system, each indexed by the number of the call; \<open>e_wild\<close> is what the
  machine makes of a conversion of a \<^verbatim>\<open>double\<close> that does not fit a \<^verbatim>\<open>long long\<close>.
\<close>

record env =
  e_realtime :: "nat \<Rightarrow> u64"
  e_monotonic :: "nat \<Rightarrow> u64"
  e_strerror :: "errno \<Rightarrow> string"
  e_stale :: "nat \<Rightarrow> errno"
  e_sendto :: "nat \<Rightarrow> u8 list \<Rightarrow> Endpoint \<Rightarrow> sendto_run"
  e_recv :: "nat \<Rightarrow> recv_result list"
  e_netdb :: "nat \<Rightarrow> netdb"
  e_wild :: "rat \<Rightarrow> int"
  e_readdir :: "nat \<Rightarrow> dir_result"
  e_readfile :: "nat \<Rightarrow> string \<Rightarrow> bool \<times> read_result list"
  e_stat :: "nat \<Rightarrow> string \<Rightarrow> (u64 \<times> u64) option"
  e_inotify :: "nat \<Rightarrow> inotify_read list"
  e_write :: "nat \<Rightarrow> write_env"
  e_pid :: nat
  e_mkdir :: "nat \<Rightarrow> string \<Rightarrow> mkdir_result"
  e_addwatch :: "nat \<Rightarrow> int"
  e_epoll :: "nat \<Rightarrow> int \<Rightarrow> epoll_result"
  e_signals :: "nat \<Rightarrow> nat list"
  e_unlink :: "nat \<Rightarrow> string \<Rightarrow> bool"

section \<open>The monitor\<close>

record Monitor =
  m_options :: MonitorOptions
  m_socket4 :: IcmpSocket
  m_socket6 :: IcmpSocket
  m_error4 :: string
  m_error6 :: string
  m_resolver :: Resolver
  m_epollFd :: int
  m_inotifyFd :: int
  m_inotifyWatch :: int
  m_signalFd :: int
  m_clients :: "Client list"
  m_probers :: "Prober list"
  m_proberByUid :: "u32 \<rightharpoonup> nat"
  m_nextUid :: u32
  m_minIntervalUs :: u64
  m_cookie :: u32
  m_replyScratch :: "Reply list"
  m_running :: bool
  m_configDirty :: bool
  m_dataDirty :: bool
  m_stateDirty :: bool
  m_lastPublishUs :: u64
  m_lastReadablePublishUs :: u64
  m_generation :: u64
  m_startedRealUs :: u64
  m_lastClientCheckUs :: u64
  m_idleSinceUs :: u64
  m_osCalls :: nat

text \<open>The member initialisers, with the resolver the constructor builds.\<close>

definition Monitor_new :: "MonitorOptions \<Rightarrow> Resolver \<Rightarrow> Monitor" where
  "Monitor_new options resolver = \<lparr>m_options = options,
     m_socket4 = IcmpSocket_default, m_socket6 = IcmpSocket_default, m_error4 = '''', m_error6 = '''',
     m_resolver = resolver, m_epollFd = - 1, m_inotifyFd = - 1, m_inotifyWatch = - 1, m_signalFd = - 1, m_clients = [], m_probers = [], m_proberByUid = Map.empty, m_nextUid = 1,
     m_minIntervalUs = 0, m_cookie = 0, m_replyScratch = [], m_running = False, m_configDirty = False,
     m_dataDirty = True, m_stateDirty = True, m_lastPublishUs = 0, m_lastReadablePublishUs = 0,
     m_generation = 0, m_startedRealUs = 0, m_lastClientCheckUs = 0, m_idleSinceUs = 0, m_osCalls = 0\<rparr>"

definition stateFilePath :: "Monitor \<Rightarrow> string" where
  "stateFilePath s = o_runtimeDir (m_options s) @ ''/state.json''"

definition stateIniPath :: "Monitor \<Rightarrow> string" where
  "stateIniPath s = o_runtimeDir (m_options s) @ ''/state.ini''"

definition clientsDirPath :: "Monitor \<Rightarrow> string" where
  "clientsDirPath s = o_runtimeDir (m_options s) @ ''/clients''"

definition requestStop :: "Monitor \<Rightarrow> Monitor" where
  "requestStop s = s\<lparr>m_running := False\<rparr>"

text \<open>Every operating system call advances the call counter.\<close>

definition os_tick :: "Monitor \<Rightarrow> Monitor" where
  "os_tick s = s\<lparr>m_osCalls := Suc (m_osCalls s)\<rparr>"

lemma os_tick_frame [simp]:
  "m_options (os_tick s) = m_options s" "m_socket4 (os_tick s) = m_socket4 s"
  "m_socket6 (os_tick s) = m_socket6 s" "m_error4 (os_tick s) = m_error4 s"
  "m_error6 (os_tick s) = m_error6 s" "m_resolver (os_tick s) = m_resolver s"
  "m_clients (os_tick s) = m_clients s" "m_probers (os_tick s) = m_probers s"
  "m_proberByUid (os_tick s) = m_proberByUid s" "m_nextUid (os_tick s) = m_nextUid s"
  "m_minIntervalUs (os_tick s) = m_minIntervalUs s" "m_cookie (os_tick s) = m_cookie s"
  "m_running (os_tick s) = m_running s" "m_configDirty (os_tick s) = m_configDirty s"
  "m_dataDirty (os_tick s) = m_dataDirty s" "m_stateDirty (os_tick s) = m_stateDirty s"
  "m_lastPublishUs (os_tick s) = m_lastPublishUs s" "m_generation (os_tick s) = m_generation s"
  "m_lastReadablePublishUs (os_tick s) = m_lastReadablePublishUs s"
  "m_startedRealUs (os_tick s) = m_startedRealUs s"
  "m_lastClientCheckUs (os_tick s) = m_lastClientCheckUs s" "m_idleSinceUs (os_tick s) = m_idleSinceUs s"
  "m_epollFd (os_tick s) = m_epollFd s" "m_inotifyFd (os_tick s) = m_inotifyFd s"
  "m_inotifyWatch (os_tick s) = m_inotifyWatch s" "m_signalFd (os_tick s) = m_signalFd s"
  "m_osCalls (os_tick s) = Suc (m_osCalls s)"
  by (simp_all add: os_tick_def)

end
