(* ===== verification/Probing.thy ===== *)
theory Probing
  imports Monitor_State
begin

text \<open>
  The probing part of \<^verbatim>\<open>monitor.cpp\<close>: \<^verbatim>\<open>applySample\<close>, \<^verbatim>\<open>sendProbe\<close>, \<^verbatim>\<open>tick\<close>, \<^verbatim>\<open>handleReplies\<close> and
  \<^verbatim>\<open>handleResolutions\<close>.  A C++ reference to an element of \<^verbatim>\<open>m_probers\<close> is passed as the prober's value
  and written back by the caller; the operations that take one never touch \<^verbatim>\<open>m_probers\<close> otherwise.
\<close>

section \<open>Samples\<close>

text \<open>The body of the loop over the subscribers, with its two range checks.\<close>

definition applyToSubscriber :: "bool \<Rightarrow> u64 \<Rightarrow> u64 \<Rightarrow> Subscriber \<Rightarrow> Monitor \<Rightarrow> Monitor" where
  "applyToSubscriber received rttUs realNow subscriber s =
     (if sub_client subscriber \<ge> length (m_clients s) then s
      else let client = m_clients s ! sub_client subscriber
           in if sub_destination subscriber \<ge> length (c_destinations client) then s
              else let (destination, changed) =
                         applySampleTo received rttUs realNow
                           (c_destinations client ! sub_destination subscriber)
                   in s\<lparr>m_clients := (m_clients s)[sub_client subscriber :=
                           client\<lparr>c_destinations :=
                             (c_destinations client)[sub_destination subscriber := destination]\<rparr>],
                         m_stateDirty := (m_stateDirty s \<or> changed)\<rparr>)"

definition applySample :: "env \<Rightarrow> Prober \<Rightarrow> bool \<Rightarrow> u64 \<Rightarrow> u64 \<Rightarrow> Monitor \<Rightarrow> Prober \<times> Monitor" where
  "applySample E prober received rttUs now s =
     (let realNow = e_realtime E (m_osCalls s);
          s1 = os_tick s;
          prober1 = prober\<lparr>pr_sent := pr_sent prober + 1\<rparr>;
          prober2 = (if received then prober1\<lparr>pr_received := pr_received prober1 + 1\<rparr> else prober1);
          s2 = fold (applyToSubscriber received rttUs realNow) (pr_subscribers prober2) s1
      in (prober2, s2\<lparr>m_dataDirty := True\<rparr>))"

section \<open>Sending probes\<close>

definition sendProbe :: "env \<Rightarrow> Prober \<Rightarrow> u64 \<Rightarrow> Monitor \<Rightarrow> Prober \<times> Monitor" where
  "sendProbe E prober now s =
     (let v6 = (ep_family (pr_endpoint prober) = AF_INET6);
          socket = (if v6 then m_socket6 s else m_socket4 s)
      in if \<not> endpoint_valid (pr_endpoint prober) \<or> \<not> isOpen socket then
           (let prober1 =
                  (if \<not> endpoint_valid (pr_endpoint prober) \<and> pr_lastError prober = ''''
                   then prober\<lparr>pr_lastError := ''unresolved address''\<rparr>
                   else if \<not> isOpen socket
                   then prober\<lparr>pr_lastError := (if v6 then m_error6 s else m_error4 s)\<rparr>
                   else prober)
            in applySample E prober1 False 0 now s)
         else
           (let sequence = pr_sequence prober + 1;
                prober1 = prober\<lparr>pr_sequence := sequence\<rparr>;
                (result, sendError) =
                  IcmpSocket_send (e_strerror E) (e_stale E (m_osCalls s)) (e_sendto E (m_osCalls s))
                    socket (pr_endpoint prober1) (pr_uid prober1) sequence now (m_cookie s);
                s1 = os_tick s;
                errorText = (case sendError of None \<Rightarrow> '''' | Some e \<Rightarrow> e)
            in case result of
                 Sent \<Rightarrow>
                   (let prober2 = prober1\<lparr>pr_inFlight := pr_inFlight prober1 @
                          [\<lparr>f_seq = sequence, f_sentUs = now, f_deadlineUs = now + pr_timeoutUs prober1\<rparr>]\<rparr>
                    in (if pr_lastError prober2 = ''unresolved address''
                        then prober2\<lparr>pr_lastError := ''''\<rparr> else prober2, s1))
               | Unreachable \<Rightarrow> applySample E (prober1\<lparr>pr_lastError := errorText\<rparr>) False 0 now s1
               | Failed \<Rightarrow> applySample E (prober1\<lparr>pr_lastError := errorText\<rparr>) False 0 now s1))"

section \<open>The tick\<close>

text \<open>The expiry loop, on the list of outstanding probes, oldest first.\<close>

fun expire_loop :: "env \<Rightarrow> u64 \<Rightarrow> InFlight list \<Rightarrow> Prober \<Rightarrow> Monitor \<Rightarrow> Prober \<times> Monitor" where
  "expire_loop E now [] prober s = (prober\<lparr>pr_inFlight := []\<rparr>, s)"
| "expire_loop E now (f # rest) prober s =
     (if now + kSendSlackUs \<ge> f_deadlineUs f then
        (let (prober1, s1) =
               applySample E (prober\<lparr>pr_inFlight := rest, pr_lastError := ''timeout''\<rparr>) False 0 now s
         in expire_loop E now rest prober1 s1)
      else (prober\<lparr>pr_inFlight := f # rest\<rparr>, s))"

definition tick_resolve :: "u64 \<Rightarrow> Prober \<Rightarrow> Monitor \<Rightarrow> Prober \<times> Monitor" where
  "tick_resolve now prober s =
     (if \<not> pr_numeric prober \<and> \<not> pr_resolving prober \<and> now + kSendSlackUs \<ge> pr_nextResolveUs prober
      then (prober\<lparr>pr_resolving := True\<rparr>,
            s\<lparr>m_resolver := Resolver_request (pr_uid prober) (pr_host prober) (m_resolver s)\<rparr>)
      else (prober, s))"

definition tick_send :: "env \<Rightarrow> u64 \<Rightarrow> Prober \<Rightarrow> Monitor \<Rightarrow> Prober \<times> Monitor" where
  "tick_send E now prober s =
     (if length (pr_inFlight prober) < pr_maxInFlight prober \<and> now + kSendSlackUs \<ge> pr_nextSendUs prober
      then (let (prober1, s1) = sendProbe E prober now s;
                prober2 = prober1\<lparr>pr_nextSendUs := pr_nextSendUs prober1 + pr_intervalUs prober1\<rparr>
            in if pr_nextSendUs prober2 \<le> now
               then (prober2\<lparr>pr_nextSendUs := now + pr_intervalUs prober2\<rparr>, s1)
               else (prober2, s1))
      else (prober, s))"

text \<open>One round of the loop over \<^verbatim>\<open>m_probers\<close>.\<close>

definition tick_prober :: "env \<Rightarrow> u64 \<Rightarrow> Prober \<Rightarrow> Monitor \<Rightarrow> Prober \<times> Monitor" where
  "tick_prober E now prober s =
     (let (prober1, s1) = expire_loop E now (pr_inFlight prober) prober s;
          (prober2, s2) = tick_resolve now prober1 s1
      in tick_send E now prober2 s2)"

text \<open>Acting on the prober at an index and writing it back.\<close>

definition withProber :: "nat \<Rightarrow> (Prober \<Rightarrow> Monitor \<Rightarrow> Prober \<times> Monitor) \<Rightarrow> Monitor \<Rightarrow> Monitor" where
  "withProber i f s =
     (let (prober, s1) = f (m_probers s ! i) s
      in s1\<lparr>m_probers := (m_probers s1)[i := prober]\<rparr>)"

definition tick :: "env \<Rightarrow> u64 \<Rightarrow> Monitor \<Rightarrow> Monitor" where
  "tick E now s = fold (\<lambda>i. withProber i (tick_prober E now)) [0..<length (m_probers s)] s"

section \<open>Replies\<close>

text \<open>Erasing the first element that satisfies a predicate, as \<^verbatim>\<open>erase(find_if(...))\<close>.\<close>

fun erase_first :: "('a \<Rightarrow> bool) \<Rightarrow> 'a list \<Rightarrow> 'a list" where
  "erase_first P [] = []"
| "erase_first P (x # xs) = (if P x then xs else x # erase_first P xs)"

definition acceptReply :: "env \<Rightarrow> u64 \<Rightarrow> Reply \<Rightarrow> Prober \<Rightarrow> Monitor \<Rightarrow> Prober \<times> Monitor" where
  "acceptReply E now reply prober s =
     (case find (\<lambda>candidate. f_seq candidate = r_seq reply) (pr_inFlight prober) of
        None \<Rightarrow> (prober, s)
      | Some probe \<Rightarrow>
          (if \<not> matches (pr_endpoint prober) (r_from reply) (r_fromLen reply) then (prober, s)
           else
             (let prober1 = prober\<lparr>
                    pr_inFlight := erase_first (\<lambda>candidate. f_seq candidate = r_seq reply) (pr_inFlight prober),
                    pr_lastError := ''''\<rparr>;
                  rtt = (if now > r_sentUs reply then now - r_sentUs reply else 0)
              in applySample E prober1 True rtt now s)))"

definition handleReply :: "env \<Rightarrow> u64 \<Rightarrow> Reply \<Rightarrow> Monitor \<Rightarrow> Monitor" where
  "handleReply E now reply s =
     (case m_proberByUid s (r_uid reply) of
        None \<Rightarrow> s
      | Some i \<Rightarrow> withProber i (acceptReply E now reply) s)"

definition handleReplies :: "env \<Rightarrow> u64 \<Rightarrow> Monitor \<Rightarrow> Monitor" where
  "handleReplies E now s =
     (let (n4, scratch4) = IcmpSocket_receive (m_socket4 s) (m_cookie s) (e_recv E (m_osCalls s)) [];
          s1 = os_tick s;
          (n6, scratch6) = IcmpSocket_receive (m_socket6 s1) (m_cookie s1) (e_recv E (m_osCalls s1)) scratch4;
          s2 = (os_tick s1)\<lparr>m_replyScratch := scratch6\<rparr>
      in fold (handleReply E now) scratch6 s2)"

section \<open>Resolutions\<close>

text \<open>The back-off after a number of failures, in 64-bit arithmetic.\<close>

definition resolveBackoff :: "int \<Rightarrow> u64" where
  "resolveBackoff failures =
     min (push_bit (nat (min (failures - 1) 6)) kResolveBackoffBaseUs) kResolveBackoffMaxUs"

definition acceptResolution :: "u64 \<Rightarrow> Result \<Rightarrow> Prober \<Rightarrow> Monitor \<Rightarrow> Prober \<times> Monitor" where
  "acceptResolution now result prober s =
     (let prober1 = prober\<lparr>pr_resolving := False\<rparr>
      in if res_ok result then
           (let s1 = (if \<not> endpoint_valid (pr_endpoint prober1) \<or>
                         ep_text (pr_endpoint prober1) \<noteq> ep_text (res_endpoint result)
                      then s\<lparr>m_stateDirty := True\<rparr> else s)
            in (prober1\<lparr>pr_endpoint := res_endpoint result, pr_resolveFailures := 0, pr_lastError := '''',
                        pr_nextResolveUs := now + kResolveTtlUs\<rparr>, s1))
         else
           (let failures = min (pr_resolveFailures prober1 + 1) 16
            in (prober1\<lparr>pr_resolveFailures := failures, pr_nextResolveUs := now + resolveBackoff failures,
                        pr_lastError := ''DNS: '' @ res_error result\<rparr>,
                s\<lparr>m_stateDirty := True\<rparr>)))"

definition handleResolution :: "u64 \<Rightarrow> Result \<Rightarrow> Monitor \<Rightarrow> Monitor" where
  "handleResolution now result s =
     (case m_proberByUid s (res_uid result) of
        None \<Rightarrow> s
      | Some i \<Rightarrow> withProber i (acceptResolution now result) s)"

definition handleResolutions :: "u64 \<Rightarrow> Monitor \<Rightarrow> Monitor" where
  "handleResolutions now s =
     (let (results, r) = Resolver_collect [] (m_resolver s)
      in fold (handleResolution now) results (s\<lparr>m_resolver := r\<rparr>))"

section \<open>What the operations leave alone\<close>

text \<open>
  The operations on one prober change the clients' destinations, the dirty flags, the resolver and
  the call counter, and nothing else of the monitor.
\<close>

definition core :: "Monitor \<Rightarrow> Monitor" where
  "core s = s\<lparr>m_clients := [], m_stateDirty := False, m_dataDirty := False, m_osCalls := 0,
     m_resolver := Resolver_new 0\<rparr>"

lemma core_simps [simp]:
  "core (s\<lparr>m_clients := cs\<rparr>) = core s" "core (s\<lparr>m_stateDirty := a\<rparr>) = core s"
  "core (s\<lparr>m_dataDirty := a\<rparr>) = core s" "core (s\<lparr>m_osCalls := n\<rparr>) = core s"
  "core (s\<lparr>m_resolver := r\<rparr>) = core s" "core (os_tick s) = core s"
  by (simp_all add: core_def os_tick_def)

lemma core_fields [simp]:
  "m_options (core s) = m_options s" "m_socket4 (core s) = m_socket4 s" "m_socket6 (core s) = m_socket6 s"
  "m_error4 (core s) = m_error4 s" "m_error6 (core s) = m_error6 s" "m_probers (core s) = m_probers s"
  "m_proberByUid (core s) = m_proberByUid s" "m_nextUid (core s) = m_nextUid s"
  "m_minIntervalUs (core s) = m_minIntervalUs s" "m_cookie (core s) = m_cookie s"
  "m_running (core s) = m_running s" "m_configDirty (core s) = m_configDirty s"
  "m_lastPublishUs (core s) = m_lastPublishUs s" "m_idleSinceUs (core s) = m_idleSinceUs s"
  "m_lastReadablePublishUs (core s) = m_lastReadablePublishUs s" "m_generation (core s) = m_generation s"
  "m_lastClientCheckUs (core s) = m_lastClientCheckUs s" "m_startedRealUs (core s) = m_startedRealUs s"
  by (simp_all add: core_def)

lemma core_eqD:
  assumes "core t = core s"
  shows "m_options t = m_options s" "m_socket4 t = m_socket4 s" "m_socket6 t = m_socket6 s"
    "m_probers t = m_probers s" "m_proberByUid t = m_proberByUid s" "m_nextUid t = m_nextUid s"
    "m_minIntervalUs t = m_minIntervalUs s" "m_cookie t = m_cookie s" "m_running t = m_running s"
    "m_configDirty t = m_configDirty s" "m_lastPublishUs t = m_lastPublishUs s"
    "m_idleSinceUs t = m_idleSinceUs s" "m_lastClientCheckUs t = m_lastClientCheckUs s"
    "m_generation t = m_generation s"
  using core_fields [of t, unfolded assms] core_fields [of s] by simp_all

lemma core_applyToSubscriber [simp]: "core (applyToSubscriber r t n sub s) = core s"
  by (simp add: applyToSubscriber_def Let_def split: prod.splits)

lemma core_fold_applyToSubscriber [simp]: "core (fold (applyToSubscriber r t n) subs s) = core s"
  by (induction subs arbitrary: s) simp_all

lemma core_applySample [simp]: "core (snd (applySample E p r t now s)) = core s"
  by (simp add: applySample_def Let_def)

text \<open>A sample changes only the two counters of the prober.\<close>

lemma applySample_prober:
  "fst (applySample E p r t now s) =
     p\<lparr>pr_sent := pr_sent p + 1, pr_received := (if r then pr_received p + 1 else pr_received p)\<rparr>"
  by (simp add: applySample_def Let_def)

lemma core_sendProbe [simp]: "core (snd (sendProbe E p now s)) = core s"
  by (simp add: sendProbe_def Let_def split: prod.splits SendResult.splits)

lemma core_expire_loop [simp]: "core (snd (expire_loop E now fs p s)) = core s"
proof (induction E now fs p s rule: expire_loop.induct)
  case (2 E now f rest prober s)
  then show ?case by (simp add: Let_def case_prod_beta)
qed simp

lemma core_tick_resolve [simp]: "core (snd (tick_resolve now p s)) = core s"
  by (simp add: tick_resolve_def)

lemma core_tick_send [simp]: "core (snd (tick_send E now p s)) = core s"
  by (simp add: tick_send_def Let_def case_prod_beta)

lemma core_tick_prober [simp]: "core (snd (tick_prober E now p s)) = core s"
proof -
  obtain p1 s1 where 1: "expire_loop E now (pr_inFlight p) p s = (p1, s1)" by force
  obtain p2 s2 where 2: "tick_resolve now p1 s1 = (p2, s2)" by force
  have "core s1 = core s" using core_expire_loop [of E now "pr_inFlight p" p s] 1 by simp
  moreover have "core s2 = core s1" using core_tick_resolve [of now p1 s1] 2 by simp
  ultimately show ?thesis by (simp add: tick_prober_def 1 2)
qed

lemma core_acceptReply [simp]: "core (snd (acceptReply E now reply p s)) = core s"
  by (simp add: acceptReply_def Let_def split: option.splits)

lemma core_acceptResolution [simp]: "core (snd (acceptResolution now result p s)) = core s"
  by (simp add: acceptResolution_def Let_def)

section \<open>How the destinations evolve\<close>

text \<open>
  Samples keep the clients, their settings and the configuration of every destination, and keep
  well-formed verdicts well-formed.
\<close>

definition destination_evolves :: "Destination \<Rightarrow> Destination \<Rightarrow> bool" where
  "destination_evolves d e \<longleftrightarrow> sameConfig e d \<and> (wf_verdict d \<longrightarrow> wf_verdict e)"

definition client_evolves :: "Client \<Rightarrow> Client \<Rightarrow> bool" where
  "client_evolves c e \<longleftrightarrow>
     c_id e = c_id c \<and> c_path e = c_path c \<and> c_intervalUs e = c_intervalUs c \<and>
     c_timeoutUs e = c_timeoutUs c \<and> list_all2 destination_evolves (c_destinations c) (c_destinations e)"

abbreviation clients_evolve :: "Client list \<Rightarrow> Client list \<Rightarrow> bool" where
  "clients_evolve \<equiv> list_all2 client_evolves"

lemma destination_evolves_refl [simp]: "destination_evolves d d"
  by (simp add: destination_evolves_def sameConfig_def)

lemma destination_evolves_trans:
  "destination_evolves a b \<Longrightarrow> destination_evolves b c \<Longrightarrow> destination_evolves a c"
  by (simp add: destination_evolves_def sameConfig_def)

lemma client_evolves_refl [simp]: "client_evolves c c"
  by (simp add: client_evolves_def list_all2_refl)

lemma client_evolves_trans: "client_evolves a b \<Longrightarrow> client_evolves b c \<Longrightarrow> client_evolves a c"
  unfolding client_evolves_def
  by (auto intro: list_all2_trans [OF destination_evolves_trans])

lemma clients_evolve_refl [simp]: "clients_evolve cs cs"
  by (simp add: list_all2_refl)

lemma clients_evolve_trans: "clients_evolve a b \<Longrightarrow> clients_evolve b c \<Longrightarrow> clients_evolve a c"
  by (rule list_all2_trans [OF client_evolves_trans])

lemma list_all2_update_refl:
  assumes "\<And>x. R x x" and "R (xs ! i) y"
  shows "list_all2 R xs (xs[i := y])"
proof (rule list_all2_all_nthI)
  fix k assume "k < length xs"
  then show "R (xs ! k) (xs[i := y] ! k)" using assms by (cases "k = i") simp_all
qed simp

lemma applySampleTo_evolves: "destination_evolves d (fst (applySampleTo r t n d))"
  by (simp add: destination_evolves_def applySampleTo_sameConfig applySampleTo_wf_verdict)

lemma applyToSubscriber_evolves: "clients_evolve (m_clients s) (m_clients (applyToSubscriber r t n sub s))"
proof (cases "sub_client sub < length (m_clients s) \<and>
    sub_destination sub < length (c_destinations (m_clients s ! sub_client sub))")
  case True
  let ?c = "m_clients s ! sub_client sub"
  let ?d = "c_destinations ?c ! sub_destination sub"
  have "client_evolves ?c (?c\<lparr>c_destinations :=
      (c_destinations ?c)[sub_destination sub := fst (applySampleTo r t n ?d)]\<rparr>)"
    unfolding client_evolves_def
    by (simp add: list_all2_update_refl applySampleTo_evolves)
  with True show ?thesis
    by (simp add: applyToSubscriber_def Let_def case_prod_beta list_all2_update_refl)
next
  case False
  then have "applyToSubscriber r t n sub s = s"
    by (auto simp: applyToSubscriber_def Let_def)
  then show ?thesis by simp
qed

lemma fold_applyToSubscriber_evolves:
  "clients_evolve (m_clients s) (m_clients (fold (applyToSubscriber r t n) subs s))"
proof (induction subs arbitrary: s)
  case (Cons sub subs)
  then show ?case
    using clients_evolve_trans [OF applyToSubscriber_evolves Cons] by simp
qed simp

lemma applySample_evolves: "clients_evolve (m_clients s) (m_clients (snd (applySample E p r t now s)))"
  using fold_applyToSubscriber_evolves [of "os_tick s" r t]
  by (simp add: applySample_def Let_def)

lemma sendProbe_evolves: "clients_evolve (m_clients s) (m_clients (snd (sendProbe E p now s)))"
proof -
  have "clients_evolve (m_clients s) (m_clients (snd (applySample E p' r t now (os_tick s))))" for p' r t
    using applySample_evolves [of "os_tick s"] by simp
  then show ?thesis
    by (simp add: sendProbe_def Let_def applySample_evolves split: prod.splits SendResult.splits)
qed

lemma expire_loop_evolves: "clients_evolve (m_clients s) (m_clients (snd (expire_loop E now fs p s)))"
proof (induction E now fs p s rule: expire_loop.induct)
  case (2 E now f rest p s)
  obtain p1 s1 where 1: "applySample E (p\<lparr>pr_inFlight := rest, pr_lastError := ''timeout''\<rparr>) False 0 now s = (p1, s1)"
    by force
  have "clients_evolve (m_clients s) (m_clients s1)"
    using applySample_evolves [of s E "p\<lparr>pr_inFlight := rest, pr_lastError := ''timeout''\<rparr>" False 0 now] 1 by simp
  with 2 1 show ?case by (auto intro: clients_evolve_trans)
qed simp

lemma tick_prober_evolves: "clients_evolve (m_clients s) (m_clients (snd (tick_prober E now p s)))"
proof -
  obtain p1 s1 where 1: "expire_loop E now (pr_inFlight p) p s = (p1, s1)" by force
  obtain p2 s2 where 2: "tick_resolve now p1 s1 = (p2, s2)" by force
  obtain p3 s3 where 3: "sendProbe E p2 now s2 = (p3, s3)" by force
  have "clients_evolve (m_clients s) (m_clients s1)"
    using expire_loop_evolves [of s E now "pr_inFlight p" p] 1 by simp
  moreover have "m_clients s2 = m_clients s1"
    using 2 by (auto simp: tick_resolve_def split: if_splits)
  moreover have "clients_evolve (m_clients s2) (m_clients s3)"
    using sendProbe_evolves [of s2 E p2 now] 3 by simp
  ultimately show ?thesis
    by (auto simp: tick_prober_def tick_send_def 1 2 3 Let_def intro: clients_evolve_trans)
qed

lemma acceptReply_evolves: "clients_evolve (m_clients s) (m_clients (snd (acceptReply E now reply p s)))"
  by (simp add: acceptReply_def Let_def applySample_evolves split: option.splits)

lemma acceptResolution_clients [simp]: "m_clients (snd (acceptResolution now result p s)) = m_clients s"
  by (simp add: acceptResolution_def Let_def)

section \<open>What the operations do to a prober\<close>

text \<open>The part of a prober that only a rebuild of the configuration sets.\<close>

definition prober_static :: "Prober \<Rightarrow> string \<times> u64 \<times> u64 \<times> u32 \<times> bool \<times> nat \<times> Subscriber list" where
  "prober_static p = (pr_host p, pr_intervalUs p, pr_timeoutUs p, pr_uid p, pr_numeric p,
     pr_maxInFlight p, pr_subscribers p)"

text \<open>Samples taken plus probes outstanding: what every probe sent so far must show up in.\<close>

definition accounted :: "Prober \<Rightarrow> u64" where
  "accounted p = pr_sent p + of_nat (length (pr_inFlight p))"

definition expired :: "u64 \<Rightarrow> InFlight \<Rightarrow> bool" where
  "expired now f \<longleftrightarrow> f_deadlineUs f \<le> now + kSendSlackUs"

lemma expire_loop_prober:
  "fst (expire_loop E now fs p s) =
     p\<lparr>pr_inFlight := dropWhile (expired now) fs,
       pr_lastError := (if takeWhile (expired now) fs = [] then pr_lastError p else ''timeout''),
       pr_sent := pr_sent p + of_nat (length (takeWhile (expired now) fs))\<rparr>"
proof (induction fs arbitrary: p s)
  case (Cons f rest)
  have e: "expired now f \<longleftrightarrow> f_deadlineUs f \<le> now + kSendSlackUs" by (simp add: expired_def)
  show ?case
    by (simp add: Let_def case_prod_beta applySample_prober Cons e)
qed simp

lemma sendProbe_static: "prober_static (fst (sendProbe E p now s)) = prober_static p"
  by (simp add: sendProbe_def prober_static_def Let_def applySample_prober split: prod.splits SendResult.splits)

lemma sendProbe_schedule [simp]:
  "pr_nextSendUs (fst (sendProbe E p now s)) = pr_nextSendUs p"
  "pr_nextResolveUs (fst (sendProbe E p now s)) = pr_nextResolveUs p"
  "pr_resolving (fst (sendProbe E p now s)) = pr_resolving p"
  "pr_resolveFailures (fst (sendProbe E p now s)) = pr_resolveFailures p"
  "pr_endpoint (fst (sendProbe E p now s)) = pr_endpoint p"
  "pr_intervalUs (fst (sendProbe E p now s)) = pr_intervalUs p"
  by (simp_all add: sendProbe_def Let_def applySample_prober split: prod.splits SendResult.splits)

text \<open>A probe is either put in flight or turned into one sample at once.\<close>

lemma sendProbe_window:
  defines "q \<equiv> \<lambda>E p now s. fst (sendProbe E p now s)"
  shows "pr_inFlight (q E p now s) = pr_inFlight p \<and> pr_sent (q E p now s) = pr_sent p + 1 \<and>
           pr_sequence (q E p now s) \<in> {pr_sequence p, pr_sequence p + 1} \<or>
         pr_inFlight (q E p now s) = pr_inFlight p @
           [\<lparr>f_seq = pr_sequence p + 1, f_sentUs = now, f_deadlineUs = now + pr_timeoutUs p\<rparr>] \<and>
         pr_sent (q E p now s) = pr_sent p \<and> pr_sequence (q E p now s) = pr_sequence p + 1"
  unfolding q_def
  by (simp add: sendProbe_def Let_def applySample_prober split: prod.splits SendResult.splits)

lemma sendProbe_accounted: "accounted (fst (sendProbe E p now s)) = accounted p + 1"
  using sendProbe_window [of E p now s] by (auto simp: accounted_def)

lemma expire_loop_accounted: "accounted (fst (expire_loop E now (pr_inFlight p) p s)) = accounted p"
proof -
  have "length (takeWhile (expired now) (pr_inFlight p)) + length (dropWhile (expired now) (pr_inFlight p)) =
          length (pr_inFlight p)"
    by (metis length_append takeWhile_dropWhile_id)
  then have "(of_nat (length (takeWhile (expired now) (pr_inFlight p))) :: u64) +
      of_nat (length (dropWhile (expired now) (pr_inFlight p))) = of_nat (length (pr_inFlight p))"
    by (simp flip: of_nat_add)
  then show ?thesis by (simp add: expire_loop_prober accounted_def add.assoc)
qed

lemma length_erase_first: "find P xs = Some x \<Longrightarrow> length xs = Suc (length (erase_first P xs))"
  by (induction xs) (auto split: if_splits)

lemma acceptReply_cases:
  obtains (ignored) "acceptReply E now reply p s = (p, s)"
  | (counted) probe where
      "find (\<lambda>c. f_seq c = r_seq reply) (pr_inFlight p) = Some probe"
      "matches (pr_endpoint p) (r_from reply) (r_fromLen reply)"
      "acceptReply E now reply p s =
         applySample E (p\<lparr>pr_inFlight := erase_first (\<lambda>c. f_seq c = r_seq reply) (pr_inFlight p),
           pr_lastError := ''''\<rparr>) True (if now > r_sentUs reply then now - r_sentUs reply else 0) now s"
  by (cases "find (\<lambda>c. f_seq c = r_seq reply) (pr_inFlight p)";
      cases "matches (pr_endpoint p) (r_from reply) (r_fromLen reply)")
    (auto simp: acceptReply_def Let_def)

lemma acceptReply_accounted: "accounted (fst (acceptReply E now reply p s)) = accounted p"
proof (cases rule: acceptReply_cases [of E now reply p s])
  case (counted probe)
  with length_erase_first [OF counted(1)] show ?thesis
    by (simp add: applySample_prober accounted_def)
qed simp

lemma tick_resolve_prober:
  "fst (tick_resolve now p s) =
     p\<lparr>pr_resolving := (pr_resolving p \<or> (\<not> pr_numeric p \<and> pr_nextResolveUs p \<le> now + kSendSlackUs))\<rparr>"
  by (simp add: tick_resolve_def)

text \<open>One tick of a prober sends at most one probe, and then schedules the next one.\<close>

lemma tick_send_cases:
  obtains (idle) "tick_send E now p s = (p, s)"
      "\<not> (length (pr_inFlight p) < pr_maxInFlight p \<and> pr_nextSendUs p \<le> now + kSendSlackUs)"
  | (sent) q where "fst (tick_send E now p s) = q"
      "length (pr_inFlight p) < pr_maxInFlight p" "pr_nextSendUs p \<le> now + kSendSlackUs"
      "q = (fst (sendProbe E p now s))\<lparr>pr_nextSendUs :=
         (if pr_nextSendUs p + pr_intervalUs p \<le> now then now + pr_intervalUs p
          else pr_nextSendUs p + pr_intervalUs p)\<rparr>"
      "snd (tick_send E now p s) = snd (sendProbe E p now s)"
proof (cases "length (pr_inFlight p) < pr_maxInFlight p \<and> pr_nextSendUs p \<le> now + kSendSlackUs")
  case True
  show ?thesis
    by (rule sent [OF refl]) (use True in \<open>auto simp: tick_send_def Let_def case_prod_beta\<close>)
next
  case False
  show ?thesis by (rule idle) (use False in \<open>auto simp: tick_send_def\<close>)
qed

lemma prober_static_simps [simp]:
  "prober_static (p\<lparr>pr_nextSendUs := v\<rparr>) = prober_static p"
  "prober_static (p\<lparr>pr_resolving := b\<rparr>) = prober_static p"
  "prober_static (p\<lparr>pr_inFlight := fs\<rparr>) = prober_static p"
  "prober_static (p\<lparr>pr_lastError := e\<rparr>) = prober_static p"
  "prober_static (p\<lparr>pr_sent := w\<rparr>) = prober_static p"
  "prober_static (p\<lparr>pr_received := w\<rparr>) = prober_static p"
  "prober_static (p\<lparr>pr_sequence := u\<rparr>) = prober_static p"
  "prober_static (p\<lparr>pr_endpoint := ep\<rparr>) = prober_static p"
  "prober_static (p\<lparr>pr_resolveFailures := i\<rparr>) = prober_static p"
  "prober_static (p\<lparr>pr_nextResolveUs := v\<rparr>) = prober_static p"
  by (simp_all add: prober_static_def)

lemma tick_send_static: "prober_static (fst (tick_send E now p s)) = prober_static p"
  by (cases rule: tick_send_cases [of E now p s]) (simp_all add: sendProbe_static)

lemma tick_prober_static: "prober_static (fst (tick_prober E now p s)) = prober_static p"
proof -
  obtain p1 s1 where 1: "expire_loop E now (pr_inFlight p) p s = (p1, s1)" by force
  obtain p2 s2 where 2: "tick_resolve now p1 s1 = (p2, s2)" by force
  have "prober_static p1 = prober_static p"
    using expire_loop_prober [of E now "pr_inFlight p" p s] 1 by simp
  moreover have "prober_static p2 = prober_static p1"
    using tick_resolve_prober [of now p1 s1] 2 by simp
  ultimately show ?thesis by (simp add: tick_prober_def 1 2 tick_send_static)
qed

lemma acceptReply_static: "prober_static (fst (acceptReply E now reply p s)) = prober_static p"
  by (cases rule: acceptReply_cases [of E now reply p s]) (simp_all add: applySample_prober)

lemma acceptResolution_static: "prober_static (fst (acceptResolution now result p s)) = prober_static p"
  by (simp add: acceptResolution_def Let_def)

end
