(* ===== verification/Monitor_Invariant.thy ===== *)
theory Monitor_Invariant
  imports Probing
begin

text \<open>
  The well-formedness invariant of the monitor between two operations, and that every probing
  operation keeps it.  The operations that act on one prober share a contract, stated as a locale;
  the client lemma, that lifting such an operation to the monitor keeps the invariant, is proved
  once there and interpreted for the tick, for replies and for resolutions.
\<close>

section \<open>The invariant\<close>

text \<open>
  A prober's window: never more outstanding than allowed, never more than eight; sequence numbers
  ascending and not beyond the last one used; a bounded failure count.
\<close>

definition wf_prober :: "Prober \<Rightarrow> bool" where
  "wf_prober p \<longleftrightarrow>
     1 \<le> pr_maxInFlight p \<and> pr_maxInFlight p \<le> 8 \<and>
     length (pr_inFlight p) \<le> pr_maxInFlight p \<and>
     sorted_wrt (<) (map f_seq (pr_inFlight p)) \<and>
     (\<forall>f \<in> set (pr_inFlight p). f_seq f \<le> pr_sequence p) \<and>
     0 < pr_intervalUs p \<and> 0 \<le> pr_resolveFailures p \<and> pr_resolveFailures p \<le> 16"

text \<open>The uid index names exactly the probers, which therefore have distinct uids.\<close>

definition wf_index :: "Monitor \<Rightarrow> bool" where
  "wf_index s \<longleftrightarrow>
     (\<forall>u i. m_proberByUid s u = Some i \<longleftrightarrow> i < length (m_probers s) \<and> pr_uid (m_probers s ! i) = u)"

text \<open>
  A destination refers to the prober that serves it: the same address, interval and timeout, and
  listed among its subscribers; a disabled one refers to none.
\<close>

definition serves :: "Prober \<Rightarrow> Client \<Rightarrow> Destination \<Rightarrow> bool" where
  "serves p c d \<longleftrightarrow> pr_host p = d_address d \<and> pr_intervalUs p = c_intervalUs c \<and> pr_timeoutUs p = c_timeoutUs c"

definition wf_destination :: "Monitor \<Rightarrow> nat \<Rightarrow> nat \<Rightarrow> bool" where
  "wf_destination s c k \<longleftrightarrow>
     (let client = m_clients s ! c; d = c_destinations client ! k
      in wf_verdict d \<and>
         (if d_enabled d
          then 0 \<le> d_prober d \<and> nat (d_prober d) < length (m_probers s) \<and>
               serves (m_probers s ! nat (d_prober d)) client d \<and>
               \<lparr>sub_client = c, sub_destination = k\<rparr> \<in> set (pr_subscribers (m_probers s ! nat (d_prober d)))
          else d_prober d = - 1))"

definition wf_destinations :: "Monitor \<Rightarrow> bool" where
  "wf_destinations s \<longleftrightarrow>
     (\<forall>c < length (m_clients s). \<forall>k < length (c_destinations (m_clients s ! c)). wf_destination s c k)"

definition wf_subscriber :: "Monitor \<Rightarrow> nat \<Rightarrow> Subscriber \<Rightarrow> bool" where
  "wf_subscriber s i sub \<longleftrightarrow>
     sub_client sub < length (m_clients s) \<and>
     sub_destination sub < length (c_destinations (m_clients s ! sub_client sub)) \<and>
     (let d = c_destinations (m_clients s ! sub_client sub) ! sub_destination sub
      in d_enabled d \<and> d_prober d = int i)"

definition wf_subscribers :: "Monitor \<Rightarrow> bool" where
  "wf_subscribers s \<longleftrightarrow>
     (\<forall>i < length (m_probers s). distinct (pr_subscribers (m_probers s ! i)) \<and>
        pr_subscribers (m_probers s ! i) \<noteq> [] \<and>
        (\<forall>sub \<in> set (pr_subscribers (m_probers s ! i)). wf_subscriber s i sub))"

definition wf_monitor :: "Monitor \<Rightarrow> bool" where
  "wf_monitor s \<longleftrightarrow>
     wf_index s \<and> wf_destinations s \<and> wf_subscribers s \<and> (\<forall>p \<in> set (m_probers s). wf_prober p)"

section \<open>Evolving states keep it\<close>

lemma clients_evolve_nth:
  assumes "clients_evolve cs es"
  shows "length es = length cs"
    and "c < length cs \<Longrightarrow> client_evolves (cs ! c) (es ! c)"
    and "c < length cs \<Longrightarrow> length (c_destinations (es ! c)) = length (c_destinations (cs ! c))"
    and "c < length cs \<Longrightarrow> k < length (c_destinations (cs ! c)) \<Longrightarrow>
      destination_evolves (c_destinations (cs ! c) ! k) (c_destinations (es ! c) ! k)"
proof -
  show "length es = length cs" using assms by (simp add: list_all2_lengthD)
  show c: "client_evolves (cs ! c) (es ! c)" if "c < length cs" for c
    using assms that by (simp add: list_all2_nthD)
  then show "length (c_destinations (es ! c)) = length (c_destinations (cs ! c))" if "c < length cs"
    using c [OF that] list_all2_lengthD [of destination_evolves] by (auto simp: client_evolves_def)
  show "destination_evolves (c_destinations (cs ! c) ! k) (c_destinations (es ! c) ! k)"
    if "c < length cs" "k < length (c_destinations (cs ! c))"
    using c that by (auto simp: client_evolves_def list_all2_nthD)
qed

lemma prober_static_nth:
  assumes "map prober_static ps = map prober_static qs"
  shows "length ps = length qs"
    and "i < length qs \<Longrightarrow> pr_host (ps ! i) = pr_host (qs ! i) \<and>
      pr_intervalUs (ps ! i) = pr_intervalUs (qs ! i) \<and> pr_timeoutUs (ps ! i) = pr_timeoutUs (qs ! i) \<and>
      pr_uid (ps ! i) = pr_uid (qs ! i) \<and> pr_maxInFlight (ps ! i) = pr_maxInFlight (qs ! i) \<and>
      pr_subscribers (ps ! i) = pr_subscribers (qs ! i)"
proof -
  show len: "length ps = length qs" using map_eq_imp_length_eq [OF assms] .
  assume "i < length qs"
  then have "prober_static (ps ! i) = prober_static (qs ! i)"
    using assms len by (metis nth_map)
  then show "pr_host (ps ! i) = pr_host (qs ! i) \<and>
      pr_intervalUs (ps ! i) = pr_intervalUs (qs ! i) \<and> pr_timeoutUs (ps ! i) = pr_timeoutUs (qs ! i) \<and>
      pr_uid (ps ! i) = pr_uid (qs ! i) \<and> pr_maxInFlight (ps ! i) = pr_maxInFlight (qs ! i) \<and>
      pr_subscribers (ps ! i) = pr_subscribers (qs ! i)"
    by (simp add: prober_static_def)
qed

definition evolves :: "Monitor \<Rightarrow> Monitor \<Rightarrow> bool" where
  "evolves s t \<longleftrightarrow> clients_evolve (m_clients s) (m_clients t) \<and>
     map prober_static (m_probers t) = map prober_static (m_probers s) \<and>
     m_proberByUid t = m_proberByUid s"

lemma evolves_refl [simp]: "evolves s s"
  by (simp add: evolves_def)

lemma evolves_trans: "evolves s t \<Longrightarrow> evolves t u \<Longrightarrow> evolves s u"
  unfolding evolves_def by (metis clients_evolve_trans)

lemma evolves_index: "evolves s t \<Longrightarrow> wf_index s \<Longrightarrow> wf_index t"
  using prober_static_nth [of "m_probers t" "m_probers s"]
  by (auto simp: evolves_def wf_index_def)

lemma evolves_destinations:
  assumes "evolves s t" and "wf_destinations s"
  shows "wf_destinations t"
proof -
  have cl: "clients_evolve (m_clients s) (m_clients t)"
    and st: "map prober_static (m_probers t) = map prober_static (m_probers s)"
    using assms(1) by (simp_all add: evolves_def)
  note len = clients_evolve_nth(1) [OF cl] and dlen = clients_evolve_nth(3) [OF cl]
  show ?thesis
    unfolding wf_destinations_def
  proof (intro allI impI)
    fix c k assume "c < length (m_clients t)" and "k < length (c_destinations (m_clients t ! c))"
    then have c: "c < length (m_clients s)" and k: "k < length (c_destinations (m_clients s ! c))"
      using len dlen by simp_all
    have w: "wf_destination s c k" using assms(2) c k by (simp add: wf_destinations_def)
    have ce: "client_evolves (m_clients s ! c) (m_clients t ! c)"
      and de: "destination_evolves (c_destinations (m_clients s ! c) ! k) (c_destinations (m_clients t ! c) ! k)"
      using clients_evolve_nth(2,4) [OF cl] c k by simp_all
    show "wf_destination t c k"
      using w ce de prober_static_nth [OF st]
      by (auto simp: wf_destination_def Let_def serves_def client_evolves_def destination_evolves_def
          sameConfig_def split: if_splits)
  qed
qed

lemma evolves_subscribers:
  assumes "evolves s t" and "wf_subscribers s"
  shows "wf_subscribers t"
proof -
  have cl: "clients_evolve (m_clients s) (m_clients t)"
    and st: "map prober_static (m_probers t) = map prober_static (m_probers s)"
    using assms(1) by (simp_all add: evolves_def)
  have "wf_subscriber t i sub" if "wf_subscriber s i sub" for i sub
    using that clients_evolve_nth(1,3,4) [OF cl]
    by (auto simp: wf_subscriber_def Let_def destination_evolves_def sameConfig_def)
  then show ?thesis
    using assms(2) prober_static_nth [OF st] by (auto simp: wf_subscribers_def)
qed

lemma wf_monitor_evolves:
  assumes "evolves s t" and "wf_monitor s" and "\<forall>p \<in> set (m_probers t). wf_prober p"
  shows "wf_monitor t"
  using assms evolves_index evolves_destinations evolves_subscribers
  unfolding wf_monitor_def by blast

section \<open>The contract of the operations on one prober\<close>

text \<open>
  An operation on a prober keeps the monitor's core, lets the destinations evolve, keeps what the
  configuration fixed, and keeps the window well-formed where its guard holds.
\<close>

locale prober_operation =
  fixes f :: "Prober \<Rightarrow> Monitor \<Rightarrow> Prober \<times> Monitor"
    and guard :: "Prober \<Rightarrow> bool"
  assumes op_core: "core (snd (f p s)) = core s"
    and op_evolves: "clients_evolve (m_clients s) (m_clients (snd (f p s)))"
    and op_static: "prober_static (fst (f p s)) = prober_static p"
    and op_wf: "wf_prober p \<Longrightarrow> guard p \<Longrightarrow> wf_prober (fst (f p s))"
begin

lemma with_probers: "m_probers (withProber i f s) = (m_probers s)[i := fst (f (m_probers s ! i) s)]"
  using core_eqD(4) [OF op_core] by (simp add: withProber_def Let_def case_prod_beta)

lemma with_byUid: "m_proberByUid (withProber i f s) = m_proberByUid s"
  using core_eqD(5) [OF op_core] by (simp add: withProber_def Let_def case_prod_beta)

lemma with_clients: "m_clients (withProber i f s) = m_clients (snd (f (m_probers s ! i) s))"
  by (simp add: withProber_def Let_def case_prod_beta)

lemma with_evolves: "evolves s (withProber i f s)"
proof -
  have "map prober_static ((m_probers s)[i := fst (f (m_probers s ! i) s)]) = map prober_static (m_probers s)"
    by (cases "i < length (m_probers s)") (simp_all add: map_update op_static list_update_same_conv list_update_beyond)
  then show ?thesis
    by (simp add: evolves_def with_probers with_byUid with_clients op_evolves)
qed

lemma with_wf:
  assumes "wf_monitor s" and "i < length (m_probers s)" and "guard (m_probers s ! i)"
  shows "wf_monitor (withProber i f s)"
proof (rule wf_monitor_evolves [OF with_evolves assms(1)])
  have "wf_prober (m_probers s ! i)" using assms by (simp add: wf_monitor_def)
  then have "wf_prober (fst (f (m_probers s ! i) s))" using assms(3) by (rule op_wf)
  then show "\<forall>p \<in> set (m_probers (withProber i f s)). wf_prober p"
    using assms(1) set_update_subset_insert [of "m_probers s" i]
    unfolding with_probers wf_monitor_def by blast
qed

text \<open>Running the operation over all probers, in order.\<close>

lemma fold_with:
  assumes "distinct is" and "\<forall>i \<in> set is. i < length (m_probers s)"
    and "\<forall>i \<in> set is. guard (m_probers s ! i)" and "wf_monitor s"
  shows "wf_monitor (fold (\<lambda>i. withProber i f) is s) \<and> evolves s (fold (\<lambda>i. withProber i f) is s)"
  using assms
proof (induction "is" arbitrary: s)
  case (Cons i "is")
  let ?s = "withProber i f s"
  have "wf_monitor ?s" using Cons.prems by (intro with_wf) auto
  moreover have "\<forall>j \<in> set is. j < length (m_probers ?s) \<and> guard (m_probers ?s ! j)"
    using Cons.prems by (metis distinct.simps(2) length_list_update list.set_intros(2) nth_list_update_neq with_probers)
  ultimately have "wf_monitor (fold (\<lambda>i. withProber i f) is ?s) \<and> evolves ?s (fold (\<lambda>i. withProber i f) is ?s)"
    using Cons.prems by (intro Cons.IH) auto
  then show ?case using evolves_trans [OF with_evolves] by auto
qed simp

end

section \<open>The window\<close>

lemma sorted_wrt_dropWhile: "sorted_wrt R (map g xs) \<Longrightarrow> sorted_wrt R (map g (dropWhile P xs))"
  by (induction xs) auto

lemma set_erase_first: "set (erase_first P xs) \<subseteq> set xs"
  by (induction xs) auto

lemma sorted_wrt_erase_first: "sorted_wrt R (map g xs) \<Longrightarrow> sorted_wrt R (map g (erase_first P xs))"
  by (induction xs) (auto dest: subsetD [OF set_erase_first])

lemma length_erase_first_le: "length (erase_first P xs) \<le> length xs"
  by (induction xs) auto

lemma wf_prober_expire:
  assumes "wf_prober p"
  shows "wf_prober (fst (expire_loop E now (pr_inFlight p) p s))"
  using assms length_dropWhile_le [of "expired now" "pr_inFlight p"]
  by (auto simp: expire_loop_prober wf_prober_def sorted_wrt_dropWhile dest: set_dropWhileD)

lemma wf_prober_resolve: "wf_prober p \<Longrightarrow> wf_prober (fst (tick_resolve now p s))"
  by (simp add: tick_resolve_prober wf_prober_def)

text \<open>The sequence number must not be about to wrap: at ten probes a second that takes 13 years.\<close>

definition may_send :: "Prober \<Rightarrow> bool" where
  "may_send p \<longleftrightarrow> pr_sequence p < 0xFFFFFFFF"

lemma next_sequence_greater:
  fixes q :: u32
  assumes "q < 0xFFFFFFFF" and "x \<le> q"
  shows "x < q + 1"
proof -
  have "unat q < 0xFFFFFFFF" using assms(1) by (simp add: word_less_nat_alt)
  moreover have "unat x \<le> unat q" using assms(2) by (simp add: word_le_nat_alt)
  ultimately show ?thesis by (simp add: word_less_nat_alt unat_word_ariths)
qed

lemma sendProbe_wf:
  assumes "wf_prober p" and "may_send p" and "length (pr_inFlight p) < pr_maxInFlight p"
  shows "wf_prober (fst (sendProbe E p now s))"
proof -
  let ?q = "fst (sendProbe E p now s)"
  have st: "pr_maxInFlight ?q = pr_maxInFlight p"
    using sendProbe_static [of E p now s] by (simp add: prober_static_def)
  have gt: "x \<le> pr_sequence p \<Longrightarrow> x < pr_sequence p + 1" for x
    using assms(2) unfolding may_send_def by (rule next_sequence_greater)
  from sendProbe_window [of E p now s] show ?thesis
  proof
    assume "pr_inFlight ?q = pr_inFlight p \<and> pr_sent ?q = pr_sent p + 1 \<and>
      pr_sequence ?q \<in> {pr_sequence p, pr_sequence p + 1}"
    then show ?thesis
      using assms(1) st gt by (auto simp: wf_prober_def intro: less_imp_le)
  next
    assume "pr_inFlight ?q = pr_inFlight p @
        [\<lparr>f_seq = pr_sequence p + 1, f_sentUs = now, f_deadlineUs = now + pr_timeoutUs p\<rparr>] \<and>
      pr_sent ?q = pr_sent p \<and> pr_sequence ?q = pr_sequence p + 1"
    then show ?thesis
      using assms(1,3) st gt by (auto simp: wf_prober_def sorted_wrt_append intro: less_imp_le)
  qed
qed

lemma wf_prober_tick_send:
  assumes "wf_prober p" and "may_send p"
  shows "wf_prober (fst (tick_send E now p s))"
proof (cases rule: tick_send_cases [of E now p s])
  case idle
  with assms show ?thesis by simp
next
  case (sent q)
  have "wf_prober (fst (sendProbe E p now s))" using assms sent(2) by (rule sendProbe_wf)
  then show ?thesis unfolding sent(1) sent(4) by (simp add: wf_prober_def)
qed

lemma wf_prober_tick:
  assumes "wf_prober p" and "may_send p"
  shows "wf_prober (fst (tick_prober E now p s))"
proof -
  obtain p1 s1 where 1: "expire_loop E now (pr_inFlight p) p s = (p1, s1)" by force
  obtain p2 s2 where 2: "tick_resolve now p1 s1 = (p2, s2)" by force
  have p1: "wf_prober p1" "pr_sequence p1 = pr_sequence p"
    using wf_prober_expire [OF assms(1), of E now s] expire_loop_prober [of E now "pr_inFlight p" p s] 1 by simp_all
  have p2: "wf_prober p2" "pr_sequence p2 = pr_sequence p"
    using wf_prober_resolve [OF p1(1), of now s1] tick_resolve_prober [of now p1 s1] 2 p1(2) by simp_all
  then show ?thesis
    using assms(2) by (simp add: tick_prober_def 1 2 wf_prober_tick_send may_send_def)
qed

lemma wf_prober_reply: "wf_prober p \<Longrightarrow> wf_prober (fst (acceptReply E now reply p s))"
proof (cases rule: acceptReply_cases [of E now reply p s])
  case (counted probe)
  assume "wf_prober p"
  then show ?thesis
    unfolding counted(3) applySample_prober
    using length_erase_first_le [of "\<lambda>c. f_seq c = r_seq reply" "pr_inFlight p"]
      set_erase_first [of "\<lambda>c. f_seq c = r_seq reply" "pr_inFlight p"]
    by (auto simp: wf_prober_def sorted_wrt_erase_first)
qed simp

lemma wf_prober_resolution: "wf_prober p \<Longrightarrow> wf_prober (fst (acceptResolution now result p s))"
  by (simp add: acceptResolution_def Let_def wf_prober_def)

interpretation tick_op: prober_operation "tick_prober E now" may_send for E now
  by unfold_locales (simp_all add: tick_prober_evolves tick_prober_static wf_prober_tick)

interpretation reply_op: prober_operation "acceptReply E now reply" "\<lambda>_. True" for E now reply
  by unfold_locales (simp_all add: acceptReply_evolves acceptReply_static wf_prober_reply)

interpretation resolution_op: prober_operation "acceptResolution now result" "\<lambda>_. True" for now result
  by unfold_locales (simp_all add: acceptResolution_static wf_prober_resolution)

section \<open>The operations of the monitor\<close>

lemma tick_wf:
  assumes "wf_monitor s" and "\<forall>p \<in> set (m_probers s). may_send p"
  shows "wf_monitor (tick E now s) \<and> evolves s (tick E now s)"
  unfolding tick_def using assms by (intro tick_op.fold_with) auto

lemma handleReply_wf:
  assumes "wf_monitor s"
  shows "wf_monitor (handleReply E now reply s)"
proof (cases "m_proberByUid s (r_uid reply)")
  case (Some i)
  then have "i < length (m_probers s)" using assms by (simp add: wf_monitor_def wf_index_def)
  with Some assms show ?thesis by (simp add: handleReply_def reply_op.with_wf)
qed (simp add: handleReply_def assms)

lemma handleResolution_wf:
  assumes "wf_monitor s"
  shows "wf_monitor (handleResolution now result s)"
proof (cases "m_proberByUid s (res_uid result)")
  case (Some i)
  then have "i < length (m_probers s)" using assms by (simp add: wf_monitor_def wf_index_def)
  with Some assms show ?thesis by (simp add: handleResolution_def resolution_op.with_wf)
qed (simp add: handleResolution_def assms)

interpretation replies_inv: step_invariant "handleReply E now" wf_monitor for E now
  by unfold_locales (rule handleReply_wf)

interpretation resolutions_inv: step_invariant "handleResolution now" wf_monitor for now
  by unfold_locales (rule handleResolution_wf)

lemma wf_monitor_same:
  "m_clients t = m_clients s \<Longrightarrow> m_probers t = m_probers s \<Longrightarrow> m_proberByUid t = m_proberByUid s \<Longrightarrow>
   wf_monitor s \<Longrightarrow> wf_monitor t"
  by (rule wf_monitor_evolves [of s]) (simp_all add: evolves_def wf_monitor_def)

lemma handleReplies_wf: "wf_monitor s \<Longrightarrow> wf_monitor (handleReplies E now s)"
  unfolding handleReplies_def Let_def case_prod_beta
  by (rule replies_inv.run_inv, rule wf_monitor_same [of _ s]) simp_all

lemma handleResolutions_wf: "wf_monitor s \<Longrightarrow> wf_monitor (handleResolutions now s)"
  unfolding handleResolutions_def Let_def case_prod_beta
  by (rule resolutions_inv.run_inv, rule wf_monitor_same [of _ s]) simp_all

section \<open>Who receives a sample\<close>

abbreviation dest_at :: "Monitor \<Rightarrow> nat \<Rightarrow> nat \<Rightarrow> Destination" where
  "dest_at s c k \<equiv> c_destinations (m_clients s ! c) ! k"

definition in_range :: "Monitor \<Rightarrow> Subscriber \<Rightarrow> bool" where
  "in_range s sub \<longleftrightarrow> sub_client sub < length (m_clients s) \<and>
     sub_destination sub < length (c_destinations (m_clients s ! sub_client sub))"

lemma in_range_applyToSubscriber [simp]: "in_range (applyToSubscriber r t n sub s) x = in_range s x"
  using clients_evolve_nth(1,3) [OF applyToSubscriber_evolves [of s r t n sub]]
  by (auto simp: in_range_def)

lemma applyToSubscriber_dest:
  assumes "in_range s sub" and "in_range s \<lparr>sub_client = c, sub_destination = k\<rparr>"
  shows "dest_at (applyToSubscriber r t n sub s) c k =
    (if sub = \<lparr>sub_client = c, sub_destination = k\<rparr> then fst (applySampleTo r t n (dest_at s c k))
     else dest_at s c k)"
  using assms
  by (cases sub) (auto simp: applyToSubscriber_def Let_def case_prod_beta in_range_def nth_list_update)

lemma fold_applyToSubscriber_dest:
  assumes "distinct subs" and "\<forall>sub \<in> set subs. in_range s sub"
    and "in_range s \<lparr>sub_client = c, sub_destination = k\<rparr>"
  shows "dest_at (fold (applyToSubscriber r t n) subs s) c k =
    (if \<lparr>sub_client = c, sub_destination = k\<rparr> \<in> set subs
     then fst (applySampleTo r t n (dest_at s c k)) else dest_at s c k)"
  using assms
proof (induction subs arbitrary: s)
  case (Cons sub subs)
  have "dest_at (fold (applyToSubscriber r t n) subs (applyToSubscriber r t n sub s)) c k =
    (if \<lparr>sub_client = c, sub_destination = k\<rparr> \<in> set subs
     then fst (applySampleTo r t n (dest_at (applyToSubscriber r t n sub s) c k))
     else dest_at (applyToSubscriber r t n sub s) c k)"
    using Cons.prems by (intro Cons.IH) simp_all
  with Cons.prems show ?case by (auto simp: applyToSubscriber_dest)
qed simp

text \<open>In a well-formed monitor the subscribers of a prober are the destinations that refer to it.\<close>

lemma subscriber_iff:
  assumes "wf_monitor s" and "i < length (m_probers s)"
    and "in_range s \<lparr>sub_client = c, sub_destination = k\<rparr>"
  shows "\<lparr>sub_client = c, sub_destination = k\<rparr> \<in> set (pr_subscribers (m_probers s ! i)) \<longleftrightarrow>
    d_prober (dest_at s c k) = int i"
proof
  assume "\<lparr>sub_client = c, sub_destination = k\<rparr> \<in> set (pr_subscribers (m_probers s ! i))"
  then have "wf_subscriber s i \<lparr>sub_client = c, sub_destination = k\<rparr>"
    using assms by (auto simp: wf_monitor_def wf_subscribers_def)
  then show "d_prober (dest_at s c k) = int i" by (simp add: wf_subscriber_def Let_def)
next
  assume "d_prober (dest_at s c k) = int i"
  moreover have "wf_destination s c k"
    using assms by (simp add: wf_monitor_def wf_destinations_def in_range_def)
  ultimately show "\<lparr>sub_client = c, sub_destination = k\<rparr> \<in> set (pr_subscribers (m_probers s ! i))"
    by (auto simp: wf_destination_def Let_def split: if_splits)
qed

lemma applySample_dest:
  assumes "wf_monitor s" and "i < length (m_probers s)"
    and "pr_subscribers p = pr_subscribers (m_probers s ! i)"
    and "in_range s \<lparr>sub_client = c, sub_destination = k\<rparr>"
  shows "dest_at (snd (applySample E p r t now s)) c k =
    (if d_prober (dest_at s c k) = int i
     then observe (r, t, e_realtime E (m_osCalls s)) (dest_at s c k) else dest_at s c k)"
proof -
  have "distinct (pr_subscribers p)" "\<forall>sub \<in> set (pr_subscribers p). in_range (os_tick s) sub"
    using assms(1-3) by (auto simp: wf_monitor_def wf_subscribers_def wf_subscriber_def in_range_def)
  moreover have "in_range (os_tick s) \<lparr>sub_client = c, sub_destination = k\<rparr>"
    using assms(4) by (simp add: in_range_def)
  moreover have "\<lparr>sub_client = c, sub_destination = k\<rparr> \<in> set (pr_subscribers p) \<longleftrightarrow>
      d_prober (dest_at s c k) = int i"
    using subscriber_iff [OF assms(1,2,4)] assms(3) by simp
  ultimately show ?thesis
    by (simp add: applySample_def Let_def fold_applyToSubscriber_dest)
qed

section \<open>Deadlines\<close>

text \<open>Outstanding probes in the order they were sent, none sent after \<open>T\<close>, each with its deadline.\<close>

definition window_inv :: "u64 \<Rightarrow> Prober \<Rightarrow> bool" where
  "window_inv T p \<longleftrightarrow> sorted_wrt (\<le>) (map f_sentUs (pr_inFlight p)) \<and>
     (\<forall>f \<in> set (pr_inFlight p). f_sentUs f \<le> T \<and> f_deadlineUs f = f_sentUs f + pr_timeoutUs p)"

lemma sorted_filter_dropWhile:
  assumes "sorted_wrt (\<lambda>x y. P y \<longrightarrow> P x) xs"
  shows "dropWhile P xs = filter (\<lambda>x. \<not> P x) xs"
  using assms
proof (induction xs)
  case (Cons x xs)
  show ?case
  proof (cases "P x")
    case False
    with Cons.prems have "\<forall>y \<in> set xs. \<not> P y" by auto
    with False show ?thesis by (simp add: filter_id_conv)
  qed (use Cons in simp)
qed simp

lemma window_expired_order:
  assumes "window_inv T p" and "T \<le> now" and "unat now + unat (pr_timeoutUs p) < 2 ^ 64"
  shows "sorted_wrt (\<lambda>f g. expired now g \<longrightarrow> expired now f) (pr_inFlight p)"
proof (rule sorted_wrt_mono_rel)
  show "sorted_wrt (\<lambda>f g. f_sentUs f \<le> f_sentUs g) (pr_inFlight p)"
    using assms(1) by (simp add: window_inv_def sorted_wrt_map)
  fix f g assume f: "f \<in> set (pr_inFlight p)" and g: "g \<in> set (pr_inFlight p)" and le: "f_sentUs f \<le> f_sentUs g"
  have "f_sentUs g \<le> now" using assms(1,2) g by (auto simp: window_inv_def)
  then have "unat (f_sentUs g) + unat (pr_timeoutUs p) < 2 ^ 64"
    using assms(3) by (simp add: word_le_nat_alt)
  with le have "f_sentUs f + pr_timeoutUs p \<le> f_sentUs g + pr_timeoutUs p"
    by (rule word_add_mono_no_wrap)
  then have "f_deadlineUs f \<le> f_deadlineUs g"
    using assms(1) f g by (simp add: window_inv_def)
  then show "expired now g \<longrightarrow> expired now f" by (auto simp: expired_def)
qed

lemma expire_filter:
  assumes "window_inv T p" and "T \<le> now" and "unat now + unat (pr_timeoutUs p) < 2 ^ 64"
  shows "pr_inFlight (fst (expire_loop E now (pr_inFlight p) p s)) =
           filter (\<lambda>f. \<not> expired now f) (pr_inFlight p)"
  using sorted_filter_dropWhile [OF window_expired_order [OF assms]]
  by (simp add: expire_loop_prober)

lemma deadline_beyond_slack:
  assumes "unat now + unat timeout < 2 ^ 64" and "kSendSlackUs < timeout"
  shows "now + kSendSlackUs < now + (timeout :: u64)"
proof -
  have "unat kSendSlackUs = 2000" by (simp add: kSendSlackUs_def)
  then show ?thesis using assms by (simp add: word_less_nat_alt unat_word_ariths)
qed

end
