(* ===== verification/Probing_Properties.thy ===== *)
theory Probing_Properties
  imports Monitor_Invariant
begin

text \<open>
  What the probing engine guarantees: the invariant is kept, replies are counted once and reach
  exactly their subscribers, no probe is lost, the probe rate is bounded, overdue probes are given
  up, name resolution backs off.  A concrete monitor shared by two widgets exercises each property.
\<close>

section \<open>A concrete monitor\<close>

text \<open>
  Two widgets that watch the same address with the same interval and timeout share one prober,
  which has one probe outstanding.  It is the input on which the properties below are exercised.
\<close>

definition example_address :: sockaddr where
  "example_address = \<lparr>ss_family = AF_INET, sin_addr = 0xC0000201, sin6_addr = 0\<rparr>"

definition example_endpoint :: Endpoint where
  "example_endpoint = \<lparr>ep_family = AF_INET, ep_addr = example_address, ep_len = 16, ep_text = ''192.0.2.1''\<rparr>"

definition example_destination :: Destination where
  "example_destination = Destination_default\<lparr>d_id := ''d0'', d_address := ''192.0.2.1'', d_prober := 0\<rparr>"

definition example_client :: "string \<Rightarrow> Client" where
  "example_client name = Client_default\<lparr>c_id := name, c_timeoutUs := 3000000, c_destinations := [example_destination]\<rparr>"

definition example_prober :: Prober where
  "example_prober = Prober_default\<lparr>pr_host := ''192.0.2.1'', pr_timeoutUs := 3000000, pr_uid := 7,
     pr_endpoint := example_endpoint, pr_numeric := True, pr_nextSendUs := 6000000, pr_sequence := 5,
     pr_inFlight := [\<lparr>f_seq = 5, f_sentUs = 5000000, f_deadlineUs = 8000000\<rparr>], pr_maxInFlight := 3,
     pr_subscribers := [\<lparr>sub_client = 0, sub_destination = 0\<rparr>, \<lparr>sub_client = 1, sub_destination = 0\<rparr>]\<rparr>"

definition example_monitor :: Monitor where
  "example_monitor = (Monitor_new MonitorOptions_default (Resolver_new 0))\<lparr>
     m_clients := [example_client ''a'', example_client ''b''], m_probers := [example_prober],
     m_proberByUid := [7 \<mapsto> 0], m_nextUid := 8, m_minIntervalUs := 1000000, m_cookie := 99\<rparr>"

definition example_env :: env where
  "example_env = \<lparr>e_realtime = (\<lambda>n. 1700000000000000), e_monotonic = (\<lambda>n. 5020000), e_strerror = (\<lambda>e. ''error''),
     e_stale = (\<lambda>n. EINVAL), e_sendto = (\<lambda>n packet target. (0, SendtoBytes (length packet))), e_recv = (\<lambda>n. []),
     e_netdb = (\<lambda>n. example_db), e_wild = (\<lambda>x. - (2 ^ 63)), e_readdir = (\<lambda>n. DirEntries []),
     e_readfile = (\<lambda>n path. (False, [])), e_stat = (\<lambda>n path. None), e_inotify = (\<lambda>n. []),
     e_write = (\<lambda>n. \<lparr>we_mkstemp = Some ''abc'', we_writes = [], we_fchmod = True, we_rename = True\<rparr>), e_pid = 1,
     e_mkdir = (\<lambda>n path. MkdirExists), e_addwatch = (\<lambda>n. 1), e_epoll = (\<lambda>n timeout. EpollReady []), e_signals = (\<lambda>n. []), e_unlink = (\<lambda>n path. True)\<rparr>"

definition example_reply :: Reply where
  "example_reply = \<lparr>r_uid = 7, r_seq = 5, r_sentUs = 5000000, r_from = example_address, r_fromLen = 16\<rparr>"

definition example_failure :: Result where
  "example_failure = \<lparr>res_uid = 7, res_host = ''gw'', res_ok = False, res_endpoint = Endpoint_default, res_error = ''error''\<rparr>"

lemmas example_defs = example_monitor_def example_client_def example_prober_def example_destination_def
  Monitor_new_def Client_default_def Prober_default_def Destination_default_def

lemma example_wf: "wf_monitor example_monitor"
  unfolding wf_monitor_def
proof (intro conjI)
  show "wf_index example_monitor"
    by (auto simp: wf_index_def example_defs)
  show "wf_destinations example_monitor"
    by (auto simp: wf_destinations_def wf_destination_def serves_def Let_def example_defs less_Suc_eq wf_verdict_def)
  show "wf_subscribers example_monitor"
    by (auto simp: wf_subscribers_def wf_subscriber_def Let_def example_defs less_Suc_eq)
  show "\<forall>p \<in> set (m_probers example_monitor). wf_prober p"
    by (simp add: wf_prober_def example_defs)
qed

section \<open>Properties\<close>

text \<open>
  C3: Handling replies, handling resolutions and the tick keep the monitor well-formed: the uid index
  names exactly the probers, every enabled destination is subscribed to the one prober with its
  address, interval and timeout, verdicts stay consistent, and no prober ever has more than its
  window - at most eight - of probes outstanding.  The tick needs that no sequence counter is about
  to wrap.
\<close>

theorem probing_keeps_invariant:
  assumes "wf_monitor s" and "\<forall>p \<in> set (m_probers s). may_send p"
  shows "wf_monitor (handleReplies E now s) \<and> wf_monitor (handleResolutions now s) \<and>
    wf_monitor (tick E now s) \<and> (\<forall>p \<in> set (m_probers (tick E now s)). length (pr_inFlight p) \<le> 8)"
proof -
  have "wf_monitor (tick E now s)" using tick_wf [OF assms] by blast
  moreover from this have "\<forall>p \<in> set (m_probers (tick E now s)). length (pr_inFlight p) \<le> 8"
    by (auto simp: wf_monitor_def wf_prober_def)
  ultimately show ?thesis using assms handleReplies_wf handleResolutions_wf by blast
qed

lemma example_may_send: "\<forall>p \<in> set (m_probers example_monitor). may_send p"
  by (simp add: may_send_def example_defs)

theorem probing_keeps_invariant_witness:
  "wf_monitor (tick example_env 6000000 example_monitor) \<and>
   wf_monitor (handleReplies example_env 6000000 example_monitor)"
  using probing_keeps_invariant [OF example_wf example_may_send] by blast

subsection \<open>Replies\<close>

lemma find_erase_first_None:
  assumes "distinct (map g xs)"
  shows "find (\<lambda>x. g x = v) (erase_first (\<lambda>x. g x = v) xs) = None"
  using assms by (induction xs) (auto simp: find_None_iff image_iff)

lemma withProber_ignored: "f (m_probers s ! i) s = (m_probers s ! i, s) \<Longrightarrow> withProber i f s = s"
  by (simp add: withProber_def)

lemma acceptReply_again:
  assumes "wf_prober p"
  shows "acceptReply E' now' reply (fst (acceptReply E now reply p s)) t = (fst (acceptReply E now reply p s), t)"
proof (cases "find (\<lambda>c. f_seq c = r_seq reply) (pr_inFlight p) = None \<or>
    \<not> matches (pr_endpoint p) (r_from reply) (r_fromLen reply)")
  case True
  then show ?thesis by (auto simp: acceptReply_def split: option.splits)
next
  case False
  have "distinct (map f_seq (pr_inFlight p))"
    using assms strict_sorted_iff by (auto simp: wf_prober_def)
  with False show ?thesis
    by (auto simp: acceptReply_def Let_def applySample_prober find_erase_first_None)
qed

text \<open>
  C6: A reply is counted once: handling the same reply again, at any later time, changes nothing,
  whether the first one was counted or ignored.
\<close>

theorem reply_counted_once:
  assumes "wf_monitor s"
  shows "handleReply E' now' reply (handleReply E now reply s) = handleReply E now reply s"
proof (cases "m_proberByUid s (r_uid reply)")
  case (Some i)
  then have i: "i < length (m_probers s)" using assms by (simp add: wf_monitor_def wf_index_def)
  then have w: "wf_prober (m_probers s ! i)" using assms by (simp add: wf_monitor_def)
  have "withProber i (acceptReply E' now' reply) (withProber i (acceptReply E now reply) s) =
      withProber i (acceptReply E now reply) s"
    by (rule withProber_ignored) (simp add: reply_op.with_probers i acceptReply_again [OF w])
  with Some show ?thesis by (simp add: handleReply_def reply_op.with_byUid)
qed (simp add: handleReply_def)

theorem reply_counted_once_witness:
  "handleReply example_env 5030000 example_reply (handleReply example_env 5020000 example_reply example_monitor) =
     handleReply example_env 5020000 example_reply example_monitor \<and>
   handleReply example_env 5020000 example_reply example_monitor \<noteq> example_monitor"
proof
  show "handleReply example_env 5030000 example_reply (handleReply example_env 5020000 example_reply example_monitor) =
     handleReply example_env 5020000 example_reply example_monitor"
    by (rule reply_counted_once [OF example_wf])
  have "length (pr_inFlight (m_probers (handleReply example_env 5020000 example_reply example_monitor) ! 0)) = 0"
    by (simp add: handleReply_def reply_op.with_probers acceptReply_def applySample_prober example_defs
        example_reply_def matches_def example_endpoint_def endpoint_valid_def example_address_def AF_INET_def AF_UNSPEC_def)
  moreover have "length (pr_inFlight (m_probers example_monitor ! 0)) = 1"
    by (simp add: example_defs)
  ultimately show "handleReply example_env 5020000 example_reply example_monitor \<noteq> example_monitor"
    by auto
qed

lemma handleReply_dest:
  assumes "wf_monitor s" and "m_proberByUid s (r_uid reply) = Some i"
    and "find (\<lambda>f. f_seq f = r_seq reply) (pr_inFlight (m_probers s ! i)) = Some probe"
    and "matches (pr_endpoint (m_probers s ! i)) (r_from reply) (r_fromLen reply)"
    and "r_sentUs reply \<le> now"
    and "c < length (m_clients s)" and "k < length (c_destinations (m_clients s ! c))"
  shows "c_destinations (m_clients (handleReply E now reply s) ! c) ! k =
    (let d = c_destinations (m_clients s ! c) ! k
     in if d_prober d = int i
        then fst (applySampleTo True (now - r_sentUs reply) (e_realtime E (m_osCalls s)) d) else d)"
proof -
  have i: "i < length (m_probers s)" using assms(1,2) by (simp add: wf_monitor_def wf_index_def)
  have rtt: "(if now > r_sentUs reply then now - r_sentUs reply else 0) = now - r_sentUs reply"
    using assms(5) by (auto simp: not_less)
  have r: "in_range s \<lparr>sub_client = c, sub_destination = k\<rparr>" using assms(6,7) by (simp add: in_range_def)
  show ?thesis
    using applySample_dest [OF assms(1) i _ r]
    by (simp add: handleReply_def assms(2-4) reply_op.with_clients acceptReply_def Let_def rtt)
qed

text \<open>
  C5: A reply that matches an outstanding probe and comes from the probed address reaches exactly the
  destinations that refer to that prober, each of which sees one answered result with the time since
  the probe was sent; every other destination of every client is left as it was.
\<close>

theorem reply_reaches_subscribers:
  assumes "wf_monitor s" and "m_proberByUid s (r_uid reply) = Some i"
    and "find (\<lambda>f. f_seq f = r_seq reply) (pr_inFlight (m_probers s ! i)) = Some probe"
    and "matches (pr_endpoint (m_probers s ! i)) (r_from reply) (r_fromLen reply)"
    and "r_sentUs reply \<le> now"
    and "c < length (m_clients s)" and "k < length (c_destinations (m_clients s ! c))"
  shows "c_destinations (m_clients (handleReply E now reply s) ! c) ! k =
    (let d = c_destinations (m_clients s ! c) ! k
     in if d_prober d = int i
        then fst (applySampleTo True (now - r_sentUs reply) (e_realtime E (m_osCalls s)) d) else d)"
  by (rule handleReply_dest [OF assms])

theorem reply_reaches_subscribers_witness:
  "c_destinations (m_clients (handleReply example_env 5020000 example_reply example_monitor) ! 1) ! 0 =
     fst (applySampleTo True 20000 1700000000000000 example_destination)"
  using reply_reaches_subscribers [OF example_wf, of example_reply 0
      "\<lparr>f_seq = 5, f_sentUs = 5000000, f_deadlineUs = 8000000\<rparr>" 5020000 1 0 example_env]
  by (simp add: example_defs example_env_def
      example_reply_def matches_def example_endpoint_def endpoint_valid_def example_address_def AF_INET_def AF_UNSPEC_def)

subsection \<open>Accounting\<close>

text \<open>The state of the prober after the first two parts of the tick.\<close>

lemma tick_prober_split:
  obtains s2 where "tick_prober E now p s = tick_send E now
    (p\<lparr>pr_inFlight := dropWhile (expired now) (pr_inFlight p),
       pr_lastError := (if takeWhile (expired now) (pr_inFlight p) = [] then pr_lastError p else ''timeout''),
       pr_sent := pr_sent p + of_nat (length (takeWhile (expired now) (pr_inFlight p))),
       pr_resolving := (pr_resolving p \<or> (\<not> pr_numeric p \<and> pr_nextResolveUs p \<le> now + kSendSlackUs))\<rparr>) s2"
proof -
  obtain p1 s1 where 1: "expire_loop E now (pr_inFlight p) p s = (p1, s1)" by force
  obtain p2 s2 where 2: "tick_resolve now p1 s1 = (p2, s2)" by force
  show ?thesis
    by (rule that [of s2])
      (use 1 2 expire_loop_prober [of E now "pr_inFlight p" p s] tick_resolve_prober [of now p1 s1] in
        \<open>simp add: tick_prober_def\<close>)
qed

definition sends_probe :: "u64 \<Rightarrow> Prober \<Rightarrow> bool" where
  "sends_probe now p \<longleftrightarrow> length (dropWhile (expired now) (pr_inFlight p)) < pr_maxInFlight p \<and>
     pr_nextSendUs p \<le> now + kSendSlackUs"

lemma accounted_split:
  "(of_nat (length (takeWhile P fs)) :: u64) + of_nat (length (dropWhile P fs)) = of_nat (length fs)"
  by (metis length_append of_nat_add takeWhile_dropWhile_id)

lemma tick_send_accounted:
  "accounted (fst (tick_send E now p s)) =
     accounted p + (if length (pr_inFlight p) < pr_maxInFlight p \<and> pr_nextSendUs p \<le> now + kSendSlackUs then 1 else 0)"
proof (cases rule: tick_send_cases [of E now p s])
  case (sent q)
  have "accounted q = accounted (fst (sendProbe E p now s))" unfolding sent(4) by (simp add: accounted_def)
  then show ?thesis using sent(1-3) by (simp add: sendProbe_accounted)
qed simp

lemma probe_accounting_tick:
  "accounted (fst (tick_prober E now p s)) = accounted p + (if sends_probe now p then 1 else 0)"
proof -
  obtain s2 where t: "tick_prober E now p s = tick_send E now
    (p\<lparr>pr_inFlight := dropWhile (expired now) (pr_inFlight p),
       pr_lastError := (if takeWhile (expired now) (pr_inFlight p) = [] then pr_lastError p else ''timeout''),
       pr_sent := pr_sent p + of_nat (length (takeWhile (expired now) (pr_inFlight p))),
       pr_resolving := (pr_resolving p \<or> (\<not> pr_numeric p \<and> pr_nextResolveUs p \<le> now + kSendSlackUs))\<rparr>) s2"
    by (rule tick_prober_split)
  show ?thesis
    unfolding t tick_send_accounted
    by (simp add: sends_probe_def accounted_def ac_simps flip: accounted_split [of "expired now" "pr_inFlight p"])
qed

lemma acceptResolution_accounted: "accounted (fst (acceptResolution now result p s)) = accounted p"
  by (simp add: acceptResolution_def Let_def accounted_def)

text \<open>
  C4: No probe is lost or counted twice.  Samples taken plus probes outstanding grow by exactly one
  for each probe the tick attempts - one when the window has room after the expired ones are
  dropped and the send time has come, none otherwise - and a reply, an expiry or a failed send only
  moves a probe from outstanding to sampled.
\<close>

theorem probe_accounting:
  "accounted (fst (tick_prober E now p s)) = accounted p + (if sends_probe now p then 1 else 0) \<and>
   accounted (fst (acceptReply E now reply p s)) = accounted p \<and>
   accounted (fst (acceptResolution now result p s)) = accounted p"
  by (simp add: probe_accounting_tick acceptReply_accounted acceptResolution_accounted)

subsection \<open>The send schedule\<close>

lemma tick_prober_schedule:
  "pr_nextSendUs (fst (tick_prober E now p s)) =
     (if sends_probe now p
      then if pr_nextSendUs p + pr_intervalUs p \<le> now then now + pr_intervalUs p else pr_nextSendUs p + pr_intervalUs p
      else pr_nextSendUs p)"
proof -
  obtain s2 q where t: "tick_prober E now p s = tick_send E now q s2"
    and q: "pr_inFlight q = dropWhile (expired now) (pr_inFlight p)" "pr_maxInFlight q = pr_maxInFlight p"
      "pr_nextSendUs q = pr_nextSendUs p" "pr_intervalUs q = pr_intervalUs p"
    by (rule tick_prober_split [of E now p s]) simp
  show ?thesis
    by (cases rule: tick_send_cases [of E now q s2]) (auto simp: t q sends_probe_def)
qed

lemma schedule_step:
  fixes E :: env and s :: Monitor
  assumes "unat now + 2000 + unat (pr_intervalUs p) < 2 ^ 64" and "sends_probe now p"
  defines "n' \<equiv> unat (pr_nextSendUs (fst (tick_prober E now p s)))"
  shows "unat (pr_nextSendUs p) + unat (pr_intervalUs p) \<le> n'" and "unat now \<le> n'"
    and "n' \<le> unat now + 2000 + unat (pr_intervalUs p)"
proof -
  have slack: "unat (now + kSendSlackUs) = unat now + 2000"
    using assms(1) by (simp add: unat_add_no_wrap kSendSlackUs_def)
  then have le: "unat (pr_nextSendUs p) \<le> unat now + 2000"
    using assms(2) by (simp add: sends_probe_def word_le_nat_alt)
  have "unat (pr_nextSendUs p + pr_intervalUs p) = unat (pr_nextSendUs p) + unat (pr_intervalUs p)"
    "unat (now + pr_intervalUs p) = unat now + unat (pr_intervalUs p)"
    using assms(1) le by (simp_all add: unat_add_no_wrap)
  then show "unat (pr_nextSendUs p) + unat (pr_intervalUs p) \<le> n'" and "unat now \<le> n'"
    and "n' \<le> unat now + 2000 + unat (pr_intervalUs p)"
    using assms(2) le by (simp_all add: n'_def tick_prober_schedule word_le_nat_alt)
qed

text \<open>A prober ticked at a sequence of times, whatever else happens to the monitor in between, and the probes it attempts.\<close>

primrec tick_run :: "(env \<times> u64 \<times> Monitor) list \<Rightarrow> Prober \<Rightarrow> Prober" where
  "tick_run [] p = p"
| "tick_run (t # ts) p = (case t of (E, now, s) \<Rightarrow> tick_run ts (fst (tick_prober E now p s)))"

primrec attempts :: "(env \<times> u64 \<times> Monitor) list \<Rightarrow> Prober \<Rightarrow> nat" where
  "attempts [] p = 0"
| "attempts (t # ts) p =
     (case t of (E, now, s) \<Rightarrow> (if sends_probe now p then 1 else 0) + attempts ts (fst (tick_prober E now p s)))"

lemma tick_prober_interval [simp]: "pr_intervalUs (fst (tick_prober E now p s)) = pr_intervalUs p"
  using tick_prober_static [of E now p s] by (simp add: prober_static_def)

lemma attempts_accounted: "accounted (tick_run ts p) = accounted p + of_nat (attempts ts p)"
proof (induction ts arbitrary: p)
  case (Cons t ts)
  obtain E now s where t: "t = (E, now, s)" by (cases t)
  show ?case using Cons.IH [of "fst (tick_prober E now p s)"] by (simp add: t probe_accounting_tick)
qed simp

lemma tick_run_schedule:
  assumes "\<forall>(E, now, s) \<in> set ts. S \<le> unat now \<and> unat now \<le> T" and "T + 2000 + unat (pr_intervalUs p) < 2 ^ 64"
  defines "n \<equiv> attempts ts p" and "due \<equiv> unat (pr_nextSendUs (tick_run ts p))"
  shows "unat (pr_nextSendUs p) + n * unat (pr_intervalUs p) \<le> due \<and>
    (0 < n \<longrightarrow> S + (n - 1) * unat (pr_intervalUs p) \<le> due \<and> due \<le> T + 2000 + unat (pr_intervalUs p)) \<and>
    (n = 0 \<longrightarrow> due = unat (pr_nextSendUs p))"
  using assms(1,2) unfolding n_def due_def
proof (induction ts arbitrary: p)
  case (Cons t ts)
  obtain E now s where t: "t = (E, now, s)" by (cases t)
  let ?p = "fst (tick_prober E now p s)" and ?I = "unat (pr_intervalUs p)"
  let ?due = "unat (pr_nextSendUs (tick_run ts ?p))" and ?n = "attempts ts ?p"
  have n: "unat (pr_nextSendUs ?p) + ?n * ?I \<le> ?due"
    "0 < ?n \<longrightarrow> ?due \<le> T + 2000 + ?I" "?n = 0 \<longrightarrow> ?due = unat (pr_nextSendUs ?p)"
    "0 < ?n \<longrightarrow> S + (?n - 1) * ?I \<le> ?due"
    using Cons.IH [of ?p] Cons.prems by (auto simp: t)
  show ?case
  proof (cases "sends_probe now p")
    case True
    have now: "S \<le> unat now" "unat now \<le> T" using Cons.prems by (simp_all add: t)
    then have wrap: "unat now + 2000 + ?I < 2 ^ 64" using Cons.prems(2) by linarith
    note step = schedule_step [OF wrap True, of E s]
    have a: "attempts (t # ts) p = Suc ?n" "tick_run (t # ts) p = tick_run ts ?p" using True by (simp_all add: t)
    have "unat (pr_nextSendUs p) + Suc ?n * ?I \<le> ?due" "S + ?n * ?I \<le> ?due"
      using n(1) step(1,2) now(1) by simp_all
    moreover have "?due \<le> T + 2000 + ?I" using n(2,3) step(3) now(2) by (cases "?n = 0") simp_all
    ultimately show ?thesis unfolding a by simp
  next
    case False
    then have "pr_nextSendUs ?p = pr_nextSendUs p" by (simp add: tick_prober_schedule)
    with n False show ?thesis by (simp add: t)
  qed
qed simp

lemma example_prober_simps:
  "pr_nextSendUs example_prober = 6000000" "pr_intervalUs example_prober = 1000000"
  "pr_timeoutUs example_prober = 3000000"
  by (simp_all add: example_prober_def Prober_default_def)

text \<open>
  C7: The probe rate is bounded, whatever the times at which the tick runs.  Over any run of ticks between the times \<open>S\<close> and
  \<open>T\<close> a prober attempts \<open>n\<close> probes, one sample or outstanding probe each, with \<open>(n - 2) * interval\<close> at most the length of that
  span plus the 2 ms slack - however long the prober was overdue at its beginning, so that waking up late never fires a
  burst of catch-up probes.  And no probe is early: if the prober was next due at \<open>D\<close>, the last one is not due
  before \<open>D + (n - 1) * interval\<close>, at most the slack after \<open>T\<close>.
\<close>

theorem probe_rate_bounded:
  assumes "\<forall>(E, now, s) \<in> set ts. S \<le> unat now \<and> unat now \<le> T" and "T + 2000 + unat (pr_intervalUs p) < 2 ^ 64"
  shows "accounted (tick_run ts p) = accounted p + of_nat (attempts ts p) \<and>
    (attempts ts p \<le> 1 \<or> S + (attempts ts p - 2) * unat (pr_intervalUs p) \<le> T + 2000) \<and>
    (attempts ts p = 0 \<or> unat (pr_nextSendUs p) + (attempts ts p - 1) * unat (pr_intervalUs p) \<le> T + 2000)"
proof -
  let ?I = "unat (pr_intervalUs p)" and ?n = "attempts ts p" and ?due = "unat (pr_nextSendUs (tick_run ts p))"
  have n: "unat (pr_nextSendUs p) + ?n * ?I \<le> ?due" "0 < ?n \<longrightarrow> S + (?n - 1) * ?I \<le> ?due \<and> ?due \<le> T + 2000 + ?I"
    using tick_run_schedule [OF assms] by auto
  have "?n = 0 \<or> unat (pr_nextSendUs p) + (?n - 1) * ?I \<le> T + 2000" using n by (cases ?n) auto
  moreover have "?n \<le> 1 \<or> S + (?n - 2) * ?I \<le> T + 2000"
  proof (cases "?n \<le> 1")
    case False
    then obtain m where m: "?n = Suc (Suc m)" by (metis One_nat_def Suc_leI not_less_eq_eq le_0_eq nat.exhaust)
    then show ?thesis using n(2) by simp
  qed simp
  ultimately show ?thesis using attempts_accounted by blast
qed

text \<open>Six seconds late, woken up three times at once: at most two probes are attempted.\<close>

theorem probe_rate_bounded_witness:
  "attempts (replicate 3 (example_env, 12500000, example_monitor)) example_prober \<le> 2"
proof -
  have "\<forall>(E, now, s) \<in> set (replicate 3 (example_env, 12500000 :: u64, example_monitor)). 12500000 \<le> unat now \<and> unat now \<le> 12500000" by simp
  moreover have "12500000 + 2000 + unat (pr_intervalUs example_prober) < 2 ^ 64" by (simp add: example_prober_simps)
  ultimately have "attempts (replicate 3 (example_env, 12500000, example_monitor)) example_prober \<le> 1 \<or>
      12500000 + (attempts (replicate 3 (example_env, 12500000, example_monitor)) example_prober - 2) * unat (pr_intervalUs example_prober) \<le> 12500000 + 2000"
    using probe_rate_bounded by blast
  then show ?thesis by (auto simp: example_prober_simps simp del: attempts.simps replicate.simps)
qed

subsection \<open>Giving up\<close>

lemma window_inv_tick_send:
  assumes "window_inv now p"
  shows "window_inv now (fst (tick_send E now p s)) \<and>
    set (pr_inFlight (fst (tick_send E now p s))) \<subseteq>
      insert \<lparr>f_seq = pr_sequence p + 1, f_sentUs = now, f_deadlineUs = now + pr_timeoutUs p\<rparr> (set (pr_inFlight p))"
proof (cases rule: tick_send_cases [of E now p s])
  case idle
  with assms show ?thesis by auto
next
  case (sent q)
  have "pr_timeoutUs (fst (sendProbe E p now s)) = pr_timeoutUs p"
    using sendProbe_static [of E p now s] by (simp add: prober_static_def)
  then show ?thesis
    using assms sendProbe_window [of E p now s] unfolding sent(1) sent(4)
    by (auto simp: window_inv_def sorted_wrt_append)
qed

text \<open>
  C8: A tick gives up on every overdue probe and on no other.  With the clock running forward and
  a maximum wait longer than the slack, after the tick the outstanding probes are in the order they
  were sent, none is due within the slack, and those that were not overdue are all still there.
\<close>

theorem tick_gives_up_on_time:
  assumes "window_inv T p" and "T \<le> now" and "unat now + unat (pr_timeoutUs p) < 2 ^ 64"
    and "kSendSlackUs < pr_timeoutUs p"
  shows "window_inv now (fst (tick_prober E now p s)) \<and>
    (\<forall>f \<in> set (pr_inFlight (fst (tick_prober E now p s))). now + kSendSlackUs < f_deadlineUs f) \<and>
    {f \<in> set (pr_inFlight p). now + kSendSlackUs < f_deadlineUs f} \<subseteq> set (pr_inFlight (fst (tick_prober E now p s)))"
proof -
  obtain s2 q where t: "tick_prober E now p s = tick_send E now q s2"
    and q: "pr_inFlight q = dropWhile (expired now) (pr_inFlight p)" "pr_timeoutUs q = pr_timeoutUs p"
    by (rule tick_prober_split [of E now p s]) simp
  have w: "pr_inFlight q = filter (\<lambda>f. \<not> expired now f) (pr_inFlight p)"
    using sorted_filter_dropWhile [OF window_expired_order [OF assms(1-3)]] q(1) by simp
  have "window_inv now q"
    using assms(1,2) by (auto simp: window_inv_def w q(2) sorted_wrt_filter sorted_wrt_map)
  note send = window_inv_tick_send [OF this, of E s2]
  have "now + kSendSlackUs < now + pr_timeoutUs q"
    using deadline_beyond_slack [OF assms(3,4)] by (simp add: q(2))
  then have "\<forall>f \<in> set (pr_inFlight (fst (tick_send E now q s2))). now + kSendSlackUs < f_deadlineUs f"
    using send by (auto simp: w expired_def not_le)
  moreover have "set (pr_inFlight q) \<subseteq> set (pr_inFlight (fst (tick_send E now q s2)))"
  proof (cases rule: tick_send_cases [of E now q s2])
    case (sent r)
    then show ?thesis using sendProbe_window [of E q now s2] by auto
  qed simp
  ultimately show ?thesis using send by (auto simp: t w expired_def not_le)
qed

theorem tick_gives_up_on_time_witness:
  "window_inv 8000000 (fst (tick_prober example_env 8000000 example_prober example_monitor)) \<and>
   set (pr_inFlight (fst (tick_prober example_env 8000000 example_prober example_monitor))) \<subseteq>
      {f. 8000000 + kSendSlackUs < f_deadlineUs f}"
proof -
  have "window_inv 5000000 example_prober"
    by (simp add: window_inv_def example_prober_def Prober_default_def)
  moreover have "kSendSlackUs < pr_timeoutUs example_prober"
    by (simp add: example_prober_simps kSendSlackUs_def)
  ultimately show ?thesis
    using tick_gives_up_on_time [of 5000000 example_prober 8000000 example_env example_monitor]
    by (auto simp: example_prober_simps)
qed

subsection \<open>Name resolution back-off\<close>

text \<open>A prober whose resolutions all fail, at the given times.\<close>

definition fail_run :: "(u64 \<times> Result \<times> Monitor) list \<Rightarrow> Prober \<Rightarrow> Prober" where
  "fail_run rs p = fold (\<lambda>(now, result, s) p. fst (acceptResolution now result p s)) rs p"

lemma fail_run_failures:
  assumes "\<forall>(now, result, s) \<in> set rs. \<not> res_ok result" and "pr_resolveFailures p = 0"
  shows "pr_resolveFailures (fail_run rs p) = min (int (length rs)) 16"
  using assms(1)
proof (induction rs rule: rev_induct)
  case (snoc r rs)
  then show ?case
    by (cases r) (auto simp: fail_run_def acceptResolution_def Let_def)
qed (simp add: fail_run_def assms(2))

lemma resolveBackoff_unat:
  assumes "1 \<le> n"
  shows "unat (resolveBackoff n) = min (5000000 * 2 ^ min (nat n - 1) 6) 300000000"
proof -
  have "min (nat n - 1) 6 \<le> 6" by simp
  then have "min (nat n - 1) 6 \<in> {0, 1, 2, 3, 4, 5, 6}" by (simp only: insert_iff empty_iff) arith
  moreover have "nat (min (n - 1) 6) = min (nat n - 1) 6" using assms by linarith
  ultimately show ?thesis
    by (auto simp: resolveBackoff_def kResolveBackoffBaseUs_def kResolveBackoffMaxUs_def push_bit_eq_mult min_def)
qed

lemma fail_run_delay:
  assumes "\<forall>(now, result, s) \<in> set (rs @ [(now, result, s)]). \<not> res_ok result" and "pr_resolveFailures p = 0"
  shows "pr_nextResolveUs (fail_run (rs @ [(now, result, s)]) p) = now + of_nat (min (5000000 * 2 ^ length rs) 300000000)"
proof -
  let ?n = "min (int (length rs) + 1) 16"
  have "pr_resolveFailures (fail_run rs p) = min (int (length rs)) 16"
    using assms(1,2) by (intro fail_run_failures) auto
  then have "min (pr_resolveFailures (fail_run rs p) + 1) 16 = ?n" by simp
  moreover have "\<not> res_ok result" using assms(1) by auto
  ultimately have "pr_nextResolveUs (fail_run (rs @ [(now, result, s)]) p) = now + resolveBackoff ?n"
    by (simp add: fail_run_def acceptResolution_def Let_def)
  moreover have "unat (resolveBackoff ?n) = min (5000000 * 2 ^ length rs) 300000000"
  proof (cases "length rs \<le> 6")
    case True
    then have "nat ?n - 1 = length rs" by simp
    with True show ?thesis by (simp add: resolveBackoff_unat)
  next
    case False
    then have "(2::nat) ^ 7 \<le> 2 ^ length rs" by (intro power_increasing) auto
    moreover have "min (nat ?n - 1) 6 = 6" using False by simp
    ultimately show ?thesis by (simp add: resolveBackoff_unat)
  qed
  then have "resolveBackoff ?n = of_nat (min (5000000 * 2 ^ length rs) 300000000)"
    by (metis of_nat_unat ucast_id)
  ultimately show ?thesis by simp
qed

text \<open>
  C21: A name that keeps failing to resolve is asked for again after 5 s, 10 s, 20 s and so on, doubling
  with each consecutive failure up to five minutes, however many there are.  A success, after any number of failures, keeps
  the answer for five minutes and resets this: the failures after it start at 5 s again.
\<close>

theorem resolve_backoff_doubles:
  assumes "\<forall>(now, result, s) \<in> set (rs @ [(now, result, s)]). \<not> res_ok result" and "pr_resolveFailures p = 0"
    and "res_ok good"
  shows "pr_nextResolveUs (fail_run (rs @ [(now, result, s)]) p) =
      now + of_nat (min (5000000 * 2 ^ length rs) 300000000) \<and>
    pr_nextResolveUs (fst (acceptResolution t good q s')) = t + 300000000 \<and>
    pr_resolveFailures (fst (acceptResolution t good q s')) = 0 \<and>
    pr_nextResolveUs (fail_run (rs @ [(now, result, s)]) (fst (acceptResolution t good q s'))) =
      now + of_nat (min (5000000 * 2 ^ length rs) 300000000)"
proof -
  have success: "pr_resolveFailures (fst (acceptResolution t good q s')) = 0" "pr_nextResolveUs (fst (acceptResolution t good q s')) = t + 300000000"
    using assms(3) by (simp_all add: acceptResolution_def Let_def kResolveTtlUs_def)
  show ?thesis
    using success fail_run_delay [OF assms(1,2)] fail_run_delay [OF assms(1) success(1)] by simp
qed

theorem resolve_backoff_doubles_witness:
  "pr_nextResolveUs (fail_run [(0, example_failure, example_monitor), (9000000, example_failure, example_monitor)] example_prober) = 19000000 \<and>
   pr_nextResolveUs (fail_run [(0, example_failure, example_monitor), (9000000, example_failure, example_monitor)]
     (fst (acceptResolution 0 (example_failure\<lparr>res_ok := True\<rparr>) (example_prober\<lparr>pr_resolveFailures := 7\<rparr>) example_monitor))) = 19000000"
  using resolve_backoff_doubles [of "[(0, example_failure, example_monitor)]" 9000000 example_failure example_monitor example_prober
      "example_failure\<lparr>res_ok := True\<rparr>" 0 "example_prober\<lparr>pr_resolveFailures := 7\<rparr>" example_monitor]
  by (simp add: example_prober_def Prober_default_def example_failure_def)

subsection \<open>Late replies\<close>

lemma answered_result:
  "d_haveRtt (fst (applySampleTo True rtt n d)) \<and> d_rttUs (fst (applySampleTo True rtt n d)) = rtt \<and>
   d_received (fst (applySampleTo True rtt n d)) = d_received d + 1 \<and> d_sent (fst (applySampleTo True rtt n d)) = d_sent d + 1 \<and>
   (d_state (fst (applySampleTo True rtt n d)) = Bad \<longrightarrow> d_state d = Bad)"
  by (auto simp: applySampleTo_def recordSample_def judge_def classify_def Let_def)

text \<open>
  C22: The event loop reads replies before it expires probes, so a reply that was delayed past the
  maximum wait - the machine was suspended, say - is still counted as an answer: every subscriber records
  an answered result with a round-trip time above the maximum wait, and it does not turn bad.
\<close>

theorem late_reply_counted:
  assumes "wf_monitor s" and "m_proberByUid s (r_uid reply) = Some i"
    and "find (\<lambda>f. f_seq f = r_seq reply) (pr_inFlight (m_probers s ! i)) = Some probe"
    and "matches (pr_endpoint (m_probers s ! i)) (r_from reply) (r_fromLen reply)"
    and "r_sentUs reply \<le> now" and late: "pr_timeoutUs (m_probers s ! i) < now - r_sentUs reply"
    and "c < length (m_clients s)" and "k < length (c_destinations (m_clients s ! c))"
    and "d = c_destinations (m_clients s ! c) ! k" and "d_prober d = int i"
    and e: "e = c_destinations (m_clients (handleReply E now reply s) ! c) ! k"
  shows "d_haveRtt e \<and> pr_timeoutUs (m_probers s ! i) < d_rttUs e \<and> d_received e = d_received d + 1 \<and> d_sent e = d_sent d + 1 \<and>
    (d_state e = Bad \<longrightarrow> d_state d = Bad)"
proof -
  have "e = fst (applySampleTo True (now - r_sentUs reply) (e_realtime E (m_osCalls s)) d)"
    using handleReply_dest [OF assms(1-5,7,8), of E] assms(9,10) by (simp add: e)
  then show ?thesis using answered_result [of "now - r_sentUs reply" "e_realtime E (m_osCalls s)" d] late by simp
qed

theorem late_reply_counted_witness:
  "d_rttUs (c_destinations (m_clients (handleReply example_env 8500000 example_reply example_monitor) ! 1) ! 0) > 3000000"
  using late_reply_counted [OF example_wf, of example_reply 0 "\<lparr>f_seq = 5, f_sentUs = 5000000, f_deadlineUs = 8000000\<rparr>" 8500000 1 0
      example_destination _ example_env]
  by (simp add: example_defs example_env_def example_reply_def matches_def example_endpoint_def endpoint_valid_def
      example_address_def AF_INET_def AF_UNSPEC_def)

end
