(* ===== verification/Floating.thy ===== *)
theory Floating
  imports Prelude
begin

text \<open>
  The arithmetic of \<^verbatim>\<open>double\<close> that the daemon relies on: binary64 with rounding to nearest, ties to even.  A finite
  value is the rational number it denotes.  The sign of zero is not kept: no operation of the
  daemon can observe it (it prints as \<^verbatim>\<open>0\<close>, compares equal to zero and converts to the integer zero).
\<close>

section \<open>Binary64 values\<close>

datatype double = Finite rat | Infinite bool | NaN

definition isfinite :: "double \<Rightarrow> bool" where
  "isfinite d = (case d of Finite _ \<Rightarrow> True | _ \<Rightarrow> False)"

text \<open>The number of digits of a natural number in a base.\<close>

fun ndigits :: "nat \<Rightarrow> nat \<Rightarrow> nat" where
  "ndigits b n = (if b < 2 \<or> n = 0 then 0 else Suc (ndigits b (n div b)))"

declare ndigits.simps [simp del]

text \<open>The exponent of a positive rational in a base: the greatest power of the base not above it.\<close>

definition ilog :: "nat \<Rightarrow> rat \<Rightarrow> int" where
  "ilog b x =
     (let (p, q) = quotient_of x;
          e = int (ndigits b (nat p)) - int (ndigits b (nat q))
      in if of_nat b powi e \<le> x then e else e - 1)"

definition round_half_even :: "rat \<Rightarrow> int" where
  "round_half_even x =
     (let f = \<lfloor>x\<rfloor>; r = x - of_int f
      in if r < 1 / 2 then f else if r > 1 / 2 then f + 1 else if even f then f else f + 1)"

text \<open>The unit in the last place at a magnitude: 53 significant bits, subnormals from \<open>2 ^ -1074\<close>.\<close>

definition quantum :: "rat \<Rightarrow> rat" where
  "quantum x = 2 powi max (ilog 2 x - 52) (- 1074)"

definition double_of_rat :: "rat \<Rightarrow> double" where
  "double_of_rat x =
     (if x = 0 then Finite 0
      else let q = quantum \<bar>x\<bar>; y = of_int (round_half_even (\<bar>x\<bar> / q)) * q
           in if y \<ge> 2 ^ 1024 then Infinite (x < 0) else Finite (if x < 0 then - y else y))"

text \<open>An operation on two finite operands, rounded once.  The daemon applies it to finite operands only.\<close>

definition double_op :: "(rat \<Rightarrow> rat \<Rightarrow> rat) \<Rightarrow> double \<Rightarrow> double \<Rightarrow> double" where
  "double_op f x y = (case x of Finite a \<Rightarrow> (case y of Finite b \<Rightarrow> double_of_rat (f a b) | _ \<Rightarrow> NaN) | _ \<Rightarrow> NaN)"

definition double_of_u64 :: "u64 \<Rightarrow> double" where
  "double_of_u64 w = double_of_rat (of_nat (unat w))"

definition double_of_int :: "int \<Rightarrow> double" where
  "double_of_int i = double_of_rat (of_int i)"

definition double_of_size :: "nat \<Rightarrow> double" where
  "double_of_size n = double_of_rat (of_nat n)"

text \<open>
  The conversion of a finite \<^verbatim>\<open>double\<close> to \<^verbatim>\<open>long long\<close>: towards zero.  Outside the range of the type the
  behaviour is undefined in C++; what the machine does there is the parameter \<open>wild\<close>.
\<close>

definition truncate_rat :: "rat \<Rightarrow> int" where
  "truncate_rat x = (if x < 0 then - \<lfloor>- x\<rfloor> else \<lfloor>x\<rfloor>)"

definition fits_long_long :: "rat \<Rightarrow> bool" where
  "fits_long_long x \<longleftrightarrow> - (2 ^ 63) \<le> truncate_rat x \<and> truncate_rat x < 2 ^ 63"

definition cast_long_long :: "(rat \<Rightarrow> int) \<Rightarrow> rat \<Rightarrow> int" where
  "cast_long_long wild x = (if fits_long_long x then truncate_rat x else wild x)"

section \<open>Digits and exponents\<close>

lemma ndigits_upper: "2 \<le> b \<Longrightarrow> n < b ^ ndigits b n"
proof (induction b n rule: ndigits.induct)
  case (1 b n)
  show ?case
  proof (cases "n = 0")
    case False
    with 1 have "n div b < b ^ ndigits b (n div b)" by simp
    then have "n < b ^ ndigits b (n div b) * b" using 1(2) by (simp add: div_less_iff_less_mult)
    with False 1(2) show ?thesis by (simp add: ndigits.simps [of b n] mult.commute)
  qed (simp add: ndigits.simps)
qed

lemma ndigits_lower: "2 \<le> b \<Longrightarrow> 0 < n \<Longrightarrow> b ^ (ndigits b n - 1) \<le> n"
proof (induction b n rule: ndigits.induct)
  case (1 b n)
  show ?case
  proof (cases "n div b = 0")
    case True
    with 1(2,3) show ?thesis by (simp add: ndigits.simps [of b n] ndigits.simps [of b 0])
  next
    case False
    with 1 have "b ^ (ndigits b (n div b) - 1) \<le> n div b" by simp
    then have le: "b ^ (ndigits b (n div b) - 1) * b \<le> n" using 1(2) by (simp add: less_eq_div_iff_mult_less_eq)
    have "0 < ndigits b (n div b)" using False 1(2) by (simp add: ndigits.simps [of b "n div b"])
    then have "b ^ (ndigits b n - 1) = b ^ (ndigits b (n div b) - 1) * b"
      using 1(2,3) by (cases "ndigits b (n div b)") (simp_all add: ndigits.simps [of b n])
    with le show ?thesis by simp
  qed
qed

lemma ndigits_pos: "2 \<le> b \<Longrightarrow> 0 < n \<Longrightarrow> 0 < ndigits b n"
  by (simp add: ndigits.simps [of b n])

lemma ilog_le:
  assumes "2 \<le> b" and "0 < x"
  shows "of_nat b powi ilog b x \<le> x"
proof -
  obtain p q where pq: "quotient_of x = (p, q)" by force
  then have x: "x = of_int p / of_int q" and q: "0 < q"
    by (simp_all add: quotient_of_div quotient_of_denom_pos)
  then have p: "0 < p" using assms(2) by (simp add: zero_less_divide_iff)
  let ?m = "ndigits b (nat p)" and ?k = "ndigits b (nat q)"
  have b: "(0 :: rat) < of_nat b" using assms(1) by simp
  have "b ^ (?m - 1) \<le> nat p" using assms(1) p by (intro ndigits_lower) simp_all
  then have "of_nat (b ^ (?m - 1)) \<le> (of_nat (nat p) :: rat)" by (simp only: of_nat_le_iff)
  then have 1: "of_nat b ^ (?m - 1) \<le> (of_int p :: rat)" using p by (simp add: of_nat_nat)
  have "nat q < b ^ ?k" using assms(1) by (rule ndigits_upper)
  then have "(of_nat (nat q) :: rat) < of_nat (b ^ ?k)" by (simp only: of_nat_less_iff)
  then have 2: "(of_int q :: rat) \<le> of_nat b ^ ?k" using q by (simp add: of_nat_nat)
  have "of_nat b powi (int ?m - int ?k - 1) = (of_nat b ^ (?m - 1) / of_nat b ^ ?k :: rat)"
  proof -
    have "int ?m - int ?k - 1 = int (?m - 1) - int ?k" using ndigits_pos [OF assms(1)] p by (simp add: of_nat_diff Suc_leI)
    then show ?thesis using power_int_diff [of "of_nat b :: rat"] b by (metis less_irrefl power_int_of_nat)
  qed
  also have "\<dots> \<le> of_int p / of_int q"
    using 1 2 p q b by (intro frac_le) simp_all
  finally show ?thesis unfolding x [symmetric] by (simp add: ilog_def pq Let_def)
qed

lemma ilog_less:
  assumes "2 \<le> b" and "0 < x" and "x < of_nat b powi k"
  shows "ilog b x < k"
proof (rule ccontr)
  assume "\<not> ilog b x < k"
  then have "(of_nat b powi k :: rat) \<le> of_nat b powi ilog b x"
    using assms(1) by (intro power_int_increasing) simp_all
  with ilog_le [OF assms(1,2)] assms(3) show False by simp
qed

section \<open>Exact values\<close>

lemma round_half_even_int [simp]: "round_half_even (of_int n) = n"
  by (simp add: round_half_even_def)

text \<open>A multiple of \<open>2 ^ -k\<close> with at most 53 significant bits is not rounded.\<close>

lemma double_exact:
  assumes "x = of_int m / 2 ^ k" and "\<bar>m\<bar> < 2 ^ 53" and "k \<le> 1074"
  shows "double_of_rat x = Finite x"
proof (cases "x = 0")
  case False
  let ?e = "max (ilog 2 \<bar>x\<bar> - 52) (- 1074)"
  have "(of_int \<bar>m\<bar> :: rat) < of_int (2 ^ 53)" using assms(2) by (simp only: of_int_less_iff)
  then have m: "(\<bar>of_int m\<bar> :: rat) < 2 ^ 53" by simp
  have ax: "\<bar>x\<bar> = \<bar>of_int m\<bar> / 2 ^ k" by (simp add: assms(1) abs_divide)
  have "\<bar>x\<bar> < of_nat 2 powi (53 - int k)"
    using m by (simp add: ax power_int_diff divide_strict_right_mono)
  then have "ilog 2 \<bar>x\<bar> < 53 - int k" using False by (intro ilog_less) simp_all
  then have e: "?e \<le> - int k" using assms(3) by simp
  define j where "j = nat (- int k - ?e)"
  have je: "?e = - int (k + j)" using e by (simp add: j_def)
  have q: "quantum \<bar>x\<bar> = 1 / (2 ^ k * 2 ^ j)"
    unfolding quantum_def je by (simp add: power_int_minus power_add divide_inverse del: of_nat_add)
  have d: "\<bar>x\<bar> / quantum \<bar>x\<bar> = of_int (\<bar>m\<bar> * 2 ^ j)"
    unfolding q by (simp add: ax)
  have r: "round_half_even (\<bar>x\<bar> / quantum \<bar>x\<bar>) = \<bar>m\<bar> * 2 ^ j" unfolding d by (rule round_half_even_int)
  have "of_int (round_half_even (\<bar>x\<bar> / quantum \<bar>x\<bar>)) * quantum \<bar>x\<bar> = \<bar>x\<bar>"
    unfolding r unfolding q by (simp add: ax)
  moreover have "\<bar>x\<bar> < 2 ^ 1024"
  proof -
    have "\<bar>x\<bar> \<le> \<bar>of_int m\<bar>" unfolding ax by (simp add: divide_le_eq_1 pos_divide_le_eq mult_le_cancel_left1)
    also have "\<dots> < 2 ^ 53" by (rule m)
    also have "\<dots> \<le> 2 ^ 1024" by (rule power_increasing) simp_all
    finally show ?thesis .
  qed
  ultimately show ?thesis using False by (auto simp: double_of_rat_def Let_def)
qed (simp add: double_of_rat_def)

lemma double_of_int_exact: "\<bar>n\<bar> < 2 ^ 53 \<Longrightarrow> double_of_rat (of_int n) = Finite (of_int n)"
  by (rule double_exact [of _ n 0]) simp_all

lemma double_of_half_exact: "\<bar>n\<bar> < 2 ^ 52 \<Longrightarrow> double_of_rat (of_int n + 1 / 2) = Finite (of_int n + 1 / 2)"
  by (rule double_exact [of _ "2 * n + 1" 1]) (auto simp: field_simps)

lemma double_of_half_exact_neg: "\<bar>n\<bar> < 2 ^ 52 \<Longrightarrow> double_of_rat (of_int n - 1 / 2) = Finite (of_int n - 1 / 2)"
  by (rule double_exact [of _ "2 * n - 1" 1]) (auto simp: field_simps)

end
