(* ===== verification/Json.thy ===== *)
theory Json
  imports Floating Util
begin

unbundle bit_operations_syntax

text \<open>
  The value type and the writer of \<^verbatim>\<open>json.hpp\<close>.  A \<^verbatim>\<open>Json\<close> is its type tag with the member the tag
  selects; the others are never read.  An object is an insertion-ordered association list, as in
  the source.  Strings are sequences of bytes; bytes and code points are natural numbers, since
  no intermediate value of the writer exceeds 21 bits of its 32-bit \<^verbatim>\<open>unsigned int\<close>.
\<close>

section \<open>Values\<close>

datatype Json = JNull | JBool bool | JNumber double | JString string | JArray "Json list"
  | JObject "(string \<times> Json) list"

definition isNull :: "Json \<Rightarrow> bool" where
  "isNull j = (case j of JNull \<Rightarrow> True | _ \<Rightarrow> False)"

definition isArray :: "Json \<Rightarrow> bool" where
  "isArray j = (case j of JArray _ \<Rightarrow> True | _ \<Rightarrow> False)"

definition isObject :: "Json \<Rightarrow> bool" where
  "isObject j = (case j of JObject _ \<Rightarrow> True | _ \<Rightarrow> False)"

definition toBool :: "bool \<Rightarrow> Json \<Rightarrow> bool" where
  "toBool def j = (case j of JBool b \<Rightarrow> b | JNumber x \<Rightarrow> x \<noteq> Finite 0 | _ \<Rightarrow> def)"

definition toDouble :: "double \<Rightarrow> Json \<Rightarrow> double" where
  "toDouble def j = (case j of JNumber x \<Rightarrow> x | _ \<Rightarrow> def)"

definition toInt :: "(rat \<Rightarrow> int) \<Rightarrow> int \<Rightarrow> Json \<Rightarrow> int" where
  "toInt wild def j = (case j of
       JNumber (Finite x) \<Rightarrow>
         (case double_of_rat (if x < 0 then x - 1 / 2 else x + 1 / 2) of
            Finite y \<Rightarrow> cast_long_long wild y
          | _ \<Rightarrow> wild x)
     | _ \<Rightarrow> def)"

definition toString :: "string \<Rightarrow> Json \<Rightarrow> string" where
  "toString def j = (case j of JString s \<Rightarrow> s | _ \<Rightarrow> def)"

definition Json_size :: "Json \<Rightarrow> nat" where
  "Json_size j = (case j of JArray xs \<Rightarrow> length xs | JObject ms \<Rightarrow> length ms | _ \<Rightarrow> 0)"

definition Json_at :: "Json \<Rightarrow> nat \<Rightarrow> Json" where
  "Json_at j i = (case j of JArray xs \<Rightarrow> if i < length xs then xs ! i else JNull | _ \<Rightarrow> JNull)"

definition Json_get :: "Json \<Rightarrow> string \<Rightarrow> Json" where
  "Json_get j key = (case j of
       JObject ms \<Rightarrow> (case find (\<lambda>m. fst m = key) ms of Some m \<Rightarrow> snd m | None \<Rightarrow> JNull)
     | _ \<Rightarrow> JNull)"

definition Json_contains :: "Json \<Rightarrow> string \<Rightarrow> bool" where
  "Json_contains j key \<longleftrightarrow> \<not> isNull (Json_get j key)"

fun set_member :: "string \<Rightarrow> Json \<Rightarrow> (string \<times> Json) list \<Rightarrow> (string \<times> Json) list" where
  "set_member key v [] = [(key, v)]"
| "set_member key v (m # ms) = (if fst m = key then (key, v) # ms else m # set_member key v ms)"

definition Json_set :: "string \<Rightarrow> Json \<Rightarrow> Json \<Rightarrow> Json" where
  "Json_set key v j = (case j of JObject ms \<Rightarrow> JObject (set_member key v ms) | _ \<Rightarrow> JObject (set_member key v []))"

definition Json_push :: "Json \<Rightarrow> Json \<Rightarrow> Json" where
  "Json_push v j = (case j of JArray xs \<Rightarrow> JArray (xs @ [v]) | _ \<Rightarrow> JArray ([] @ [v]))"

section \<open>Writing strings\<close>

abbreviation backslash :: char where "backslash \<equiv> CHR 0x5C"
abbreviation quote :: char where "quote \<equiv> CHR 0x22"

definition hex_digit :: "nat \<Rightarrow> char" where
  "hex_digit d = (if d < 10 then char_of (48 + d) else char_of (87 + d))"

fun hex_nat :: "nat \<Rightarrow> string" where
  "hex_nat n = (if n < 16 then [hex_digit n] else hex_nat (n div 16) @ [hex_digit (n mod 16)])"

declare hex_nat.simps [simp del]

text \<open>The conversion \<^verbatim>\<open>%04x\<close> of \<^verbatim>\<open>snprintf\<close>.\<close>

definition sprintf_04x :: "nat \<Rightarrow> string" where
  "sprintf_04x n = replicate (4 - length (hex_nat n)) CHR ''0'' @ hex_nat n"

definition writeEscapedCodePoint :: "nat \<Rightarrow> string" where
  "writeEscapedCodePoint codePoint =
     (if codePoint < 0x10000 then [backslash, CHR ''u''] @ sprintf_04x codePoint
      else let v = codePoint - 0x10000
           in [backslash, CHR ''u''] @ sprintf_04x (0xD800 + drop_bit 10 v) @
              [backslash, CHR ''u''] @ sprintf_04x (0xDC00 + (v AND 0x3FF)))"

text \<open>The lead byte of a UTF-8 sequence: its bits and the number of bytes that follow.\<close>

definition utf8_lead :: "nat \<Rightarrow> (nat \<times> nat) option" where
  "utf8_lead c =
     (if c AND 0xE0 = 0xC0 then Some (c AND 0x1F, 1)
      else if c AND 0xF0 = 0xE0 then Some (c AND 0x0F, 2)
      else if c AND 0xF8 = 0xF0 then Some (c AND 0x07, 3)
      else None)"

fun utf8_continue :: "nat \<Rightarrow> string \<Rightarrow> nat option" where
  "utf8_continue codePoint [] = Some codePoint"
| "utf8_continue codePoint (b # bs) =
     (if of_char b AND 0xC0 \<noteq> (0x80 :: nat) then None
      else utf8_continue (push_bit 6 codePoint OR (of_char b AND 0x3F)) bs)"

definition replacement :: string where
  "replacement = [backslash, CHR ''u'', CHR ''f'', CHR ''f'', CHR ''f'', CHR ''d'']"

definition escape_char :: "char \<Rightarrow> string" where
  "escape_char c =
     (if c = quote then [backslash, quote]
      else if c = backslash then [backslash, backslash]
      else if c = CHR 0x08 then [backslash, CHR ''b'']
      else if c = CHR 0x0C then [backslash, CHR ''f'']
      else if c = CHR 0x0A then [backslash, CHR ''n'']
      else if c = CHR 0x0D then [backslash, CHR ''r'']
      else if c = CHR 0x09 then [backslash, CHR ''t'']
      else if of_char c < (0x20 :: nat) then writeEscapedCodePoint (of_char c)
      else [c])"

text \<open>The loop over the bytes of the string, on what is left of it.\<close>

fun write_chars :: "bool \<Rightarrow> string \<Rightarrow> string" where
  "write_chars asciiOnly [] = []"
| "write_chars asciiOnly (c # rest) =
     (if asciiOnly \<and> of_char c \<ge> (0x80 :: nat) then
        (case utf8_lead (of_char c) of
           None \<Rightarrow> replacement @ write_chars asciiOnly rest
         | Some (codePoint, extra) \<Rightarrow>
             (if extra \<ge> length (c # rest) then replacement
              else (case utf8_continue codePoint (take extra rest) of
                      None \<Rightarrow> replacement @ write_chars asciiOnly rest
                    | Some cp \<Rightarrow> writeEscapedCodePoint cp @ write_chars asciiOnly (drop extra rest))))
      else escape_char c @ write_chars asciiOnly rest)"

definition writeString :: "bool \<Rightarrow> string \<Rightarrow> string" where
  "writeString asciiOnly s = [quote] @ write_chars asciiOnly s @ [quote]"

section \<open>Writing numbers\<close>

definition strip_zeros :: "string \<Rightarrow> string" where
  "strip_zeros s = rev (dropWhile (\<lambda>c. c = CHR ''0'') (rev s))"

definition fraction :: "string \<Rightarrow> string" where
  "fraction s = (if strip_zeros s = [] then [] else CHR ''.'' # strip_zeros s)"

text \<open>The conversion \<^verbatim>\<open>%.10g\<close> of \<^verbatim>\<open>snprintf\<close>: ten significant digits, trailing zeros removed.\<close>

definition sprintf_10g :: "rat \<Rightarrow> string" where
  "sprintf_10g x =
     (if x = 0 then ''0'' else
      let d0 = ilog 10 \<bar>x\<bar>;
          m0 = round_half_even (\<bar>x\<bar> / 10 powi (d0 - 9));
          (m, d) = (if m0 = 10 ^ 10 then (10 ^ 9, d0 + 1) else (m0, d0));
          digits = to_string_nat (nat m);
          sign = (if x < 0 then ''-'' else '''')
      in sign @
         (if d < - 4 \<or> d \<ge> 10 then
            take 1 digits @ fraction (drop 1 digits) @ ''e'' @ (if d < 0 then ''-'' else ''+'') @
            (let e = to_string_nat (nat \<bar>d\<bar>) in if length e < 2 then CHR ''0'' # e else e)
          else if d \<ge> 0 then take (nat d + 1) digits @ fraction (drop (nat d + 1) digits)
          else ''0'' @ fraction (replicate (nat (- d) - 1) CHR ''0'' @ digits)))"

definition writeNumber :: "double \<Rightarrow> string" where
  "writeNumber v = (case v of
       Finite x \<Rightarrow> (if x = of_int \<lfloor>x\<rfloor> \<and> \<bar>x\<bar> < 9000000000000000
                   then to_string_int (truncate_rat x) else sprintf_10g x)
     | _ \<Rightarrow> ''null'')"

section \<open>Writing documents\<close>

fun join :: "string list \<Rightarrow> string" where
  "join [] = []"
| "join [x] = x"
| "join (x # y # xs) = x @ '','' @ join (y # xs)"

definition pretty_pad :: "int \<Rightarrow> nat \<Rightarrow> string" where
  "pretty_pad indent depth = (if indent \<ge> 0 then CHR 0x0A # replicate (nat indent * depth) CHR '' '' else '''')"

fun writeJson :: "int \<Rightarrow> nat \<Rightarrow> bool \<Rightarrow> Json \<Rightarrow> string" where
  "writeJson indent depth asciiOnly JNull = ''null''"
| "writeJson indent depth asciiOnly (JBool b) = (if b then ''true'' else ''false'')"
| "writeJson indent depth asciiOnly (JNumber v) = writeNumber v"
| "writeJson indent depth asciiOnly (JString s) = writeString asciiOnly s"
| "writeJson indent depth asciiOnly (JArray xs) =
     (if xs = [] then ''[]''
      else ''['' @ join (map (\<lambda>j. pretty_pad indent (depth + 1) @ writeJson indent (depth + 1) asciiOnly j) xs) @
           pretty_pad indent depth @ '']'')"
| "writeJson indent depth asciiOnly (JObject ms) =
     (if ms = [] then ''{}''
      else ''{'' @ join (map (\<lambda>m. pretty_pad indent (depth + 1) @ writeString asciiOnly (fst m) @ '':'' @
                                (if indent \<ge> 0 then '' '' else '''') @
                                writeJson indent (depth + 1) asciiOnly (snd m)) ms) @
           pretty_pad indent depth @ ''}'')"

definition dump :: "int \<Rightarrow> bool \<Rightarrow> Json \<Rightarrow> string" where
  "dump indent asciiOnly j = writeJson indent 0 asciiOnly j"

section \<open>Objects as maps\<close>

text \<open>
  The contract between the code that builds a document and the code that reads it: a member that was
  set is read back, and setting it leaves the others alone.
\<close>

locale object_map =
  fixes get :: "'o \<Rightarrow> 'k \<Rightarrow> 'v"
    and put :: "'k \<Rightarrow> 'v \<Rightarrow> 'o \<Rightarrow> 'o"
  assumes get_put: "get (put k v j) k' = (if k' = k then v else get j k')"
begin

text \<open>A chain of calls of \<^verbatim>\<open>set\<close>: the last one for a key wins.\<close>

lemma get_chain:
  "get (fold (\<lambda>(k, v). put k v) kvs j) k = (case map_of (rev kvs) k of Some v \<Rightarrow> v | None \<Rightarrow> get j k)"
proof (induction kvs arbitrary: j)
  case (Cons kv kvs)
  show ?case
    by (cases kv) (auto simp: Cons get_put map_add_def map_of_append split: option.splits)
qed simp

lemma put_put_same_get: "get (put k v (put k w j)) k' = get (put k v j) k'"
  by (simp add: get_put)

end

lemma find_set_member:
  "(case find (\<lambda>m. fst m = k') (set_member k v ms) of Some m \<Rightarrow> snd m | None \<Rightarrow> JNull) =
   (if k' = k then v else (case find (\<lambda>m. fst m = k') ms of Some m \<Rightarrow> snd m | None \<Rightarrow> JNull))"
  by (induction ms) auto

interpretation json_map: object_map Json_get Json_set
  by unfold_locales (simp add: Json_get_def Json_set_def find_set_member split: Json.split)

lemma keys_set_member: "set (map fst (set_member k v ms)) = insert k (set (map fst ms))"
  by (induction ms) auto

lemma distinct_set_member: "distinct (map fst ms) \<Longrightarrow> distinct (map fst (set_member k v ms))"
proof (induction ms)
  case (Cons m ms)
  then show ?case using keys_set_member [of k v ms] by auto
qed simp

lemma set_member_new: "k \<notin> set (map fst ms) \<Longrightarrow> set_member k v ms = ms @ [(k, v)]"
  by (induction ms) auto

section \<open>What the writer can emit\<close>

definition printable :: "char \<Rightarrow> bool" where
  "printable c \<longleftrightarrow> 0x20 \<le> (of_char c :: nat) \<and> (of_char c :: nat) < 0x7F"

text \<open>The one byte of ASCII above the blank that is not printable, and the bytes that occur in the strings of a document.\<close>

definition DEL :: char where
  "DEL = CHR 0x7F"

fun texts :: "Json \<Rightarrow> char set" where
  "texts (JString s) = set s"
| "texts (JArray xs) = (\<Union>x \<in> set xs. texts x)"
| "texts (JObject ms) = (\<Union>m \<in> set ms. set (fst m) \<union> texts (snd m))"
| "texts _ = {}"

definition emittable :: "char set \<Rightarrow> char \<Rightarrow> bool" where
  "emittable D c \<longleftrightarrow> printable c \<or> c = DEL \<and> DEL \<in> D"

lemma emittable_mono: "D \<subseteq> D' \<Longrightarrow> emittable D c \<Longrightarrow> emittable D' c"
  by (auto simp: emittable_def)

lemma printable_or_DEL: "0x20 \<le> (of_char c :: nat) \<Longrightarrow> of_char c < (0x80 :: nat) \<Longrightarrow> printable c \<or> c = DEL"
proof -
  assume c: "0x20 \<le> (of_char c :: nat)" "of_char c < (0x80 :: nat)"
  show ?thesis
  proof (cases "of_char c = (0x7F :: nat)")
    case True
    then have "c = char_of (0x7F :: nat)" by (metis char_of_char)
    moreover have "char_of (0x7F :: nat) = CHR 0x7F" by code_simp
    ultimately show ?thesis by (simp add: DEL_def)
  qed (use c in \<open>simp add: printable_def\<close>)
qed

lemma printable_is_digit: "is_digit c \<Longrightarrow> printable c"
  by (simp add: printable_def is_digit_def)

lemma printable_hex_digit: "d < 16 \<Longrightarrow> printable (hex_digit d)"
  by (simp add: hex_digit_def printable_def)

lemma printable_hex_nat: "\<forall>c \<in> set (hex_nat n). printable c"
proof (induction n rule: hex_nat.induct)
  case (1 n)
  then show ?case
    by (cases "n < 16") (auto simp: hex_nat.simps [of n] printable_hex_digit)
qed

lemma printable_sprintf_04x: "\<forall>c \<in> set (sprintf_04x n). printable c"
  using printable_hex_nat by (auto simp: sprintf_04x_def printable_def)

lemma printable_escaped: "\<forall>c \<in> set (writeEscapedCodePoint n). printable c"
  using printable_sprintf_04x by (auto simp: writeEscapedCodePoint_def Let_def printable_def)

lemma printable_escape_char:
  assumes "of_char c < (0x80 :: nat)"
  shows "\<forall>x \<in> set (escape_char c). emittable {c} x"
proof -
  have esc: "printable quote" "printable backslash" by (simp_all add: printable_def)
  have l: "printable CHR ''b''" "printable CHR ''f''" "printable CHR ''n''" "printable CHR ''r''" "printable CHR ''t''"
    by (simp_all add: printable_def)
  have "emittable {c} c" if "\<not> of_char c < (0x20 :: nat)"
    using printable_or_DEL [OF _ assms] that by (auto simp: emittable_def)
  then show ?thesis using esc l printable_escaped by (auto simp: escape_char_def emittable_def)
qed

lemma printable_replacement: "\<forall>c \<in> set replacement. printable c"
  by (simp add: replacement_def printable_def)

lemma printable_write_chars: "\<forall>x \<in> set (write_chars True s). emittable (set s) x"
proof (induction True s rule: write_chars.induct)
  case (2 c rest)
  have more: "emittable (set rest) x \<Longrightarrow> emittable (set (c # rest)) x" "emittable {c} x \<Longrightarrow> emittable (set (c # rest)) x"
    "emittable (set (drop n rest)) x \<Longrightarrow> emittable (set (c # rest)) x" for x n
    using set_drop_subset [of n rest] by (auto simp: emittable_def)
  have esc: "\<forall>x \<in> set (writeEscapedCodePoint n). emittable (set (c # rest)) x" "\<forall>x \<in> set replacement. emittable (set (c # rest)) x" for n
    using printable_escaped printable_replacement by (auto simp: emittable_def)
  show ?case
  proof (cases "of_char c \<ge> (0x80 :: nat)")
    case False
    then have "\<forall>x \<in> set (write_chars True rest). emittable (set (c # rest)) x" using "2.hyps"(4) more(1) by simp
    then show ?thesis using False printable_escape_char [of c] more(2) by (auto simp del: set_simps)
  next
    case True
    note lead = this
    show ?thesis
    proof (cases "utf8_lead (of_char c)")
      case None
      then show ?thesis using lead "2.hyps"(1) more(1) esc(2) by (auto simp del: set_simps)
    next
      case (Some p)
      obtain n extra where p: "p = (n, extra)" by (cases p)
      show ?thesis
      proof (cases "extra \<ge> length (c # rest)")
        case False
        note fits = this
        show ?thesis
        proof (cases "utf8_continue n (take extra rest)")
          case None
          then show ?thesis using lead Some p fits "2.hyps"(2) more(1) esc(2) by (auto simp del: set_simps)
        next
          case (Some cp)
          then have "\<forall>x \<in> set (write_chars True (drop extra rest)). emittable (set (drop extra rest)) x"
            by (intro "2.hyps"(3)) (use lead \<open>utf8_lead (of_char c) = Some p\<close> p fits in simp_all)
          then have "\<forall>x \<in> set (write_chars True (drop extra rest)). emittable (set (c # rest)) x" using more(3) by blast
          then show ?thesis
            using lead \<open>utf8_lead (of_char c) = Some p\<close> p fits Some esc(1) [of cp] by (simp add: ball_Un del: set_simps)
        qed
      qed (use lead Some p esc(2) in simp)
    qed
  qed
qed simp

lemma printable_to_string_nat: "\<forall>c \<in> set (to_string_nat n). printable c"
  using to_string_nat_digits printable_is_digit by blast

lemma set_strip_zeros: "set (strip_zeros s) \<subseteq> set s"
  using set_dropWhileD by (fastforce simp: strip_zeros_def)

lemma printable_fraction: "\<forall>c \<in> set s. printable c \<Longrightarrow> \<forall>c \<in> set (fraction s). printable c"
  using set_strip_zeros [of s] by (auto simp: fraction_def printable_def)

lemma printable_take: "\<forall>c \<in> set s. printable c \<Longrightarrow> \<forall>c \<in> set (take n s). printable c"
  by (meson in_set_takeD)

lemma printable_drop: "\<forall>c \<in> set s. printable c \<Longrightarrow> \<forall>c \<in> set (drop n s). printable c"
  by (meson in_set_dropD)

lemma printable_literals:
  "printable CHR ''0''" "printable CHR ''-''" "printable CHR ''+''" "printable CHR ''e''"
  "printable CHR ''n''" "printable CHR ''u''" "printable CHR ''l''"
  by (simp_all add: printable_def)

lemma printable_replicate_0: "\<forall>c \<in> set (replicate n CHR ''0'' @ to_string_nat k). printable c"
  using printable_to_string_nat by (auto simp: printable_literals)

lemmas printable_digits = printable_to_string_nat printable_take [OF printable_to_string_nat]
  printable_fraction [OF printable_drop [OF printable_to_string_nat]] printable_fraction [OF printable_replicate_0]
  printable_literals

lemma printable_sprintf_10g: "\<forall>c \<in> set (sprintf_10g x). printable c"
  unfolding sprintf_10g_def Let_def case_prod_beta
  by (simp add: printable_digits ball_Un)

lemma printable_writeNumber: "\<forall>c \<in> set (writeNumber v). printable c"
  by (simp add: writeNumber_def to_string_int_def printable_sprintf_10g printable_digits split: double.splits)

lemma set_join: "set (join xs) \<subseteq> {CHR '',''} \<union> \<Union> (set ` set xs)"
  by (induction xs rule: join.induct) auto

lemma printable_join: "\<forall>x \<in> set xs. \<forall>c \<in> set x. printable c \<Longrightarrow> \<forall>c \<in> set (join xs). printable c"
  using set_join [of xs] by (auto simp: printable_def)

lemma emittable_join: "\<forall>x \<in> set xs. \<forall>c \<in> set x. emittable D c \<Longrightarrow> \<forall>c \<in> set (join xs). emittable D c"
proof
  fix c assume a: "\<forall>x \<in> set xs. \<forall>c \<in> set x. emittable D c" and "c \<in> set (join xs)"
  then have "c = CHR '','' \<or> (\<exists>x \<in> set xs. c \<in> set x)" using set_join [of xs] by blast
  then show "emittable D c" using a by (auto simp: emittable_def printable_def)
qed

lemma emittable_write: "\<forall>c \<in> set (writeJson (- 1) depth True j). emittable (texts j) c"
proof (induction "- 1 :: int" depth True j rule: writeJson.induct)
  case (4 depth t)
  then show ?case using printable_write_chars [of t] by (auto simp: writeString_def emittable_def printable_def)
next
  case (5 depth xs)
  have "\<forall>c \<in> set (join (map (\<lambda>j. pretty_pad (- 1) (depth + 1) @ writeJson (- 1) (depth + 1) True j) xs)). emittable (texts (JArray xs)) c"
  proof (rule emittable_join, intro ballI)
    fix x c
    assume "x \<in> set (map (\<lambda>j. pretty_pad (- 1) (depth + 1) @ writeJson (- 1) (depth + 1) True j) xs)" and "c \<in> set x"
    then obtain j where j: "j \<in> set xs" "c \<in> set (writeJson (- 1) (depth + 1) True j)" by (auto simp: pretty_pad_def)
    then have "emittable (texts j) c" using 5 by fastforce
    then show "emittable (texts (JArray xs)) c" by (rule emittable_mono [rotated]) (use j(1) in auto)
  qed
  then show ?case by (auto simp: pretty_pad_def emittable_def printable_def)
next
  case (6 depth ms)
  have colon: "emittable (texts (JObject ms)) CHR '':''" by (simp add: emittable_def printable_def)
  have "emittable (texts (JObject ms)) c" if "m \<in> set ms" "c \<in> set (writeString True (fst m))" for m c
    using printable_write_chars [of "fst m"] that by (auto simp: writeString_def emittable_def printable_def)
  moreover have "emittable (texts (JObject ms)) c" if m: "m \<in> set ms" "c \<in> set (writeJson (- 1) (depth + 1) True (snd m))" for m c
  proof -
    have "emittable (texts (snd m)) c" using 6 m by (cases m) fastforce
    then show ?thesis by (rule emittable_mono [rotated]) (use m(1) in auto)
  qed
  ultimately have "\<forall>c \<in> set (join (map (\<lambda>m. pretty_pad (- 1) (depth + 1) @ writeString True (fst m) @ '':'' @
       (if (- 1 :: int) \<ge> 0 then '' '' else '''') @ writeJson (- 1) (depth + 1) True (snd m)) ms)). emittable (texts (JObject ms)) c"
    using colon by (intro emittable_join) (auto simp: pretty_pad_def)
  then show ?case by (auto simp: pretty_pad_def emittable_def printable_def)
qed (use printable_writeNumber in \<open>auto simp: emittable_def printable_def\<close>)

text \<open>
  C11: The payload for the widget, written compactly and with \<^verbatim>\<open>asciiOnly\<close>, consists of ASCII bytes from the blank on, whatever
  bytes the names, addresses and error texts in it hold: no line break, no other control character below the blank and no byte
  above 127 survives, valid UTF-8 or not.  The one byte that is not printable, DEL (127), is written as it is, and then only if
  a string of the document holds it.
\<close>

theorem payload_is_ascii:
  "set (dump (- 1) True j) \<subseteq> {c. 0x20 \<le> (of_char c :: nat) \<and> (of_char c :: nat) < 0x7F} \<union> ({CHR 0x7F} \<inter> texts j)"
  using emittable_write [of 0 j] by (auto simp: dump_def emittable_def printable_def DEL_def)

end
