(* ===== verification/Json_Parser.thy ===== *)
theory Json_Parser
  imports Json
begin

unbundle bit_operations_syntax

text \<open>
  The parser of \<^verbatim>\<open>json.hpp\<close>.  Its state is the position and what is left of the text; the nesting
  counter is passed as the number of levels that may still be opened.  A call that returns false
  carries the message of the first \<^verbatim>\<open>fail\<close>, which is the one the source keeps.  The two element loops
  have fuel, one unit per element; \<open>parse_enough_fuel\<close> shows that the length of the text is enough,
  since every element consumes at least one byte.
\<close>

section \<open>Parser state\<close>

datatype 'a parsed = POk 'a nat string | PErr string | PFuel

definition fail :: "string \<Rightarrow> nat \<Rightarrow> 'a parsed" where
  "fail message pos = PErr (message @ '' at offset '' @ to_string_nat pos)"

definition bind_parsed :: "'a parsed \<Rightarrow> ('a \<Rightarrow> nat \<Rightarrow> string \<Rightarrow> 'b parsed) \<Rightarrow> 'b parsed" where
  "bind_parsed r k = (case r of POk v pos s \<Rightarrow> k v pos s | PErr e \<Rightarrow> PErr e | PFuel \<Rightarrow> PFuel)"

definition is_ws :: "char \<Rightarrow> bool" where
  "is_ws c \<longleftrightarrow> c = CHR '' '' \<or> c = CHR 0x09 \<or> c = CHR 0x0A \<or> c = CHR 0x0D"

text \<open>\<^verbatim>\<open>skipWhitespace\<close>: the new position and the rest.\<close>

definition skip_pos :: "nat \<Rightarrow> string \<Rightarrow> nat" where
  "skip_pos pos s = pos + length (takeWhile is_ws s)"

abbreviation skip_ws :: "string \<Rightarrow> string" where
  "skip_ws s \<equiv> dropWhile is_ws s"

definition literal :: "string \<Rightarrow> nat \<Rightarrow> string \<Rightarrow> unit parsed" where
  "literal word pos s =
     (if take (length word) s \<noteq> word then fail ''invalid literal'' pos
      else POk () (pos + length word) (drop (length word) s))"

section \<open>Numbers\<close>

text \<open>
  \<^verbatim>\<open>strtod\<close> on a token made of digits, signs, points and exponent letters: the value it reads and the
  number of characters it consumes, or nothing when there is no digit to read.
\<close>

definition is_sign :: "char \<Rightarrow> bool" where
  "is_sign c \<longleftrightarrow> c = CHR ''-'' \<or> c = CHR ''+''"

definition strip_sign :: "string \<Rightarrow> bool \<times> string" where
  "strip_sign s = (case s of c # r \<Rightarrow> if is_sign c then (c = CHR ''-'', r) else (False, s) | [] \<Rightarrow> (False, s))"

definition strtod_fraction :: "string \<Rightarrow> string \<times> string" where
  "strtod_fraction s = (case s of c # r \<Rightarrow> if c = CHR ''.'' then (takeWhile is_digit r, dropWhile is_digit r) else ([], s)
     | [] \<Rightarrow> ([], s))"

definition strtod_exponent :: "string \<Rightarrow> int \<times> string" where
  "strtod_exponent s = (case s of
       c # r \<Rightarrow>
         (if c = CHR ''e'' \<or> c = CHR ''E'' then
            (let (neg, r1) = strip_sign r; ds = takeWhile is_digit r1
             in if ds = [] then (0, s)
                else (if neg then - int (read_digits ds) else int (read_digits ds), dropWhile is_digit r1))
          else (0, s))
     | [] \<Rightarrow> (0, s))"

definition strtod :: "string \<Rightarrow> (rat \<times> nat) option" where
  "strtod token =
     (let (neg, s1) = strip_sign token;
          ip = takeWhile is_digit s1;
          (fp, s3) = strtod_fraction (dropWhile is_digit s1);
          (e, s4) = strtod_exponent s3;
          v = of_nat (read_digits (ip @ fp)) * 10 powi (e - int (length fp))
      in if ip = [] \<and> fp = [] then None
         else Some (if neg then - v else v, length token - length s4))"

text \<open>
  \<^verbatim>\<open>std::stod\<close> throws when nothing can be read and when \<^verbatim>\<open>strtod\<close> reports \<^verbatim>\<open>ERANGE\<close>: the value overflows, or it
  underflows to an inexact subnormal or to zero.
\<close>

definition out_of_range :: "rat \<Rightarrow> bool" where
  "out_of_range v = (case double_of_rat v of Finite y \<Rightarrow> y \<noteq> v \<and> \<bar>y\<bar> < 2 powi (- 1022) | _ \<Rightarrow> True)"

definition stod :: "string \<Rightarrow> (double \<times> nat) option" where
  "stod token = (case strtod token of
       None \<Rightarrow> None
     | Some (v, consumed) \<Rightarrow> if out_of_range v then None else Some (double_of_rat v, consumed))"

definition number_char :: "char \<Rightarrow> bool" where
  "number_char c \<longleftrightarrow> is_digit c \<or> c = CHR ''.'' \<or> c = CHR ''e'' \<or> c = CHR ''E'' \<or> c = CHR ''+'' \<or> c = CHR ''-''"

definition parseNumber :: "nat \<Rightarrow> string \<Rightarrow> Json parsed" where
  "parseNumber pos s =
     (let (sign, s1) = (case s of c # r \<Rightarrow> if is_sign c then ([c], r) else ([], s) | [] \<Rightarrow> ([], s));
          token = sign @ takeWhile number_char s1;
          rest = dropWhile number_char s1;
          pos1 = pos + length token
      in if token = [] then fail ''unexpected character'' pos1
         else (case stod token of
                 None \<Rightarrow> fail ''malformed number'' pos1
               | Some (v, consumed) \<Rightarrow>
                   if consumed \<noteq> length token then fail ''malformed number'' pos1
                   else POk (JNumber v) pos1 rest))"

section \<open>Strings\<close>

definition appendUtf8 :: "nat \<Rightarrow> string" where
  "appendUtf8 cp =
     (if cp < 0x80 then [char_of cp]
      else if cp < 0x800 then
        [char_of (0xC0 OR drop_bit 6 cp), char_of (0x80 OR (cp AND 0x3F))]
      else if cp < 0x10000 then
        [char_of (0xE0 OR drop_bit 12 cp), char_of (0x80 OR (drop_bit 6 cp AND 0x3F)), char_of (0x80 OR (cp AND 0x3F))]
      else
        [char_of (0xF0 OR drop_bit 18 cp), char_of (0x80 OR (drop_bit 12 cp AND 0x3F)),
         char_of (0x80 OR (drop_bit 6 cp AND 0x3F)), char_of (0x80 OR (cp AND 0x3F))])"

definition hex_value :: "char \<Rightarrow> nat option" where
  "hex_value c =
     (let n = of_char c :: nat
      in if 48 \<le> n \<and> n \<le> 57 then Some (n - 48)
         else if 97 \<le> n \<and> n \<le> 102 then Some (n - 97 + 10)
         else if 65 \<le> n \<and> n \<le> 70 then Some (n - 65 + 10)
         else None)"

text \<open>
  The loop of \<^verbatim>\<open>parseHex4\<close> over the four digits, with what follows them; on a bad digit the position has
  already moved past it.
\<close>

fun hex4_loop :: "nat \<Rightarrow> nat \<Rightarrow> string \<Rightarrow> string \<Rightarrow> nat parsed" where
  "hex4_loop out pos [] rest = POk out pos rest"
| "hex4_loop out pos (c # cs) rest =
     (case hex_value c of
        Some d \<Rightarrow> hex4_loop (push_bit 4 out OR d) (pos + 1) cs rest
      | None \<Rightarrow> fail ''invalid hex digit'' (pos + 1))"

definition parseHex4 :: "nat \<Rightarrow> string \<Rightarrow> nat parsed" where
  "parseHex4 pos s =
     (if length s < 4 then fail (''truncated '' @ [backslash] @ ''u escape'') pos
      else hex4_loop 0 pos (take 4 s) (drop 4 s))"

text \<open>The code point of an escape whose first four digits were \<open>cp\<close>: a surrogate pair when the next escape is its low half.\<close>

definition parse_escape :: "nat \<Rightarrow> string \<Rightarrow> string parsed" where
  "parse_escape pos s =
     bind_parsed (parseHex4 pos s) (\<lambda>cp pos1 s1.
       if 0xD800 \<le> cp \<and> cp \<le> 0xDBFF \<and> take 2 s1 = [backslash, CHR ''u''] then
         bind_parsed (parseHex4 (pos1 + 2) (drop 2 s1)) (\<lambda>low pos2 s2.
           if 0xDC00 \<le> low \<and> low \<le> 0xDFFF
           then POk (appendUtf8 (0x10000 + push_bit 10 (cp - 0xD800) + (low - 0xDC00))) pos2 s2
           else POk (appendUtf8 cp @ appendUtf8 low) pos2 s2)
       else POk (appendUtf8 cp) pos1 s1)"

definition simple_escape :: "char \<Rightarrow> char option" where
  "simple_escape c =
     (if c = quote then Some quote else if c = backslash then Some backslash else if c = CHR ''/'' then Some CHR ''/''
      else if c = CHR ''b'' then Some CHR 0x08 else if c = CHR ''f'' then Some CHR 0x0C
      else if c = CHR ''n'' then Some CHR 0x0A else if c = CHR ''r'' then Some CHR 0x0D
      else if c = CHR ''t'' then Some CHR 0x09 else None)"

lemma hex4_loop_rest: "hex4_loop out pos cs rest = POk v pos' s' \<Longrightarrow> s' = rest"
  by (induction out pos cs rest rule: hex4_loop.induct) (auto simp: fail_def split: option.splits)

lemma parseHex4_shorter: "parseHex4 pos s = POk v pos' s' \<Longrightarrow> length s' \<le> length s"
  by (auto simp: parseHex4_def fail_def dest!: hex4_loop_rest split: if_splits)

lemma bind_parsed_POk:
  "bind_parsed r k = POk v pos s \<longleftrightarrow> (\<exists>u p t. r = POk u p t \<and> k u p t = POk v pos s)"
  by (cases r) (simp_all add: bind_parsed_def)

lemma parse_escape_shorter: "parse_escape pos s = POk v pos' s' \<Longrightarrow> length s' \<le> length s"
  unfolding parse_escape_def bind_parsed_POk
  by (auto simp: bind_parsed_POk split: if_splits dest!: parseHex4_shorter)

function string_loop :: "string \<Rightarrow> nat \<Rightarrow> string \<Rightarrow> string parsed" where
  "string_loop out pos [] = fail ''unterminated string'' pos"
| "string_loop out pos (c # s) =
     (if c = quote then POk out (pos + 1) s
      else if c \<noteq> backslash then string_loop (out @ [c]) (pos + 1) s
      else (case s of
              [] \<Rightarrow> fail ''unterminated escape'' (pos + 1)
            | esc # r \<Rightarrow>
                (case simple_escape esc of
                   Some x \<Rightarrow> string_loop (out @ [x]) (pos + 2) r
                 | None \<Rightarrow>
                     (if esc = CHR ''u'' then
                        (case parse_escape (pos + 2) r of
                           POk t pos1 r1 \<Rightarrow> string_loop (out @ t) pos1 r1
                         | PErr e \<Rightarrow> PErr e
                         | PFuel \<Rightarrow> PFuel)
                      else fail ''invalid escape'' (pos + 2)))))"
  by pat_completeness auto

termination string_loop
  by (relation "measure (\<lambda>(out, pos, s). length s)") (auto dest!: parse_escape_shorter)

definition parseString :: "nat \<Rightarrow> string \<Rightarrow> string parsed" where
  "parseString pos s = (case s of
       c # r \<Rightarrow> if c = quote then string_loop [] (pos + 1) r else fail ''expected string'' pos
     | [] \<Rightarrow> fail ''expected string'' pos)"

section \<open>Values\<close>

definition quoted :: "char \<Rightarrow> string" where
  "quoted c = [CHR 0x27, c, CHR 0x27]"

text \<open>
  The two ends of an array and of an object: after the opening bracket, and after an element, where
  \<open>again\<close> is the next round of the loop.
\<close>

definition after_open :: "char \<Rightarrow> Json \<Rightarrow> (nat \<Rightarrow> string \<Rightarrow> Json parsed) \<Rightarrow> nat \<Rightarrow> string \<Rightarrow> Json parsed" where
  "after_open close none loop pos s =
     (let pos1 = skip_pos (pos + 1) (drop 1 s); s1 = skip_ws (drop 1 s)
      in if take 1 s1 = [close] then POk none (pos1 + 1) (drop 1 s1) else loop pos1 s1)"

definition after_element ::
    "string \<Rightarrow> char \<Rightarrow> (nat \<Rightarrow> string \<Rightarrow> Json parsed) \<Rightarrow> Json \<Rightarrow> nat \<Rightarrow> string \<Rightarrow> Json parsed" where
  "after_element what close again out pos s =
     (let pos1 = skip_pos pos s
      in case skip_ws s of
           [] \<Rightarrow> fail (''unterminated '' @ what) pos1
         | c # r \<Rightarrow>
             if c = CHR '','' then again (pos1 + 1) r
             else if c = close then POk out (pos1 + 1) r
             else fail (''expected '' @ quoted CHR '','' @ '' or '' @ quoted close) pos1)"

text \<open>The element loops, over the parser of one value.\<close>

fun array_loop :: "(nat \<Rightarrow> string \<Rightarrow> Json parsed) \<Rightarrow> nat \<Rightarrow> Json \<Rightarrow> nat \<Rightarrow> string \<Rightarrow> Json parsed" where
  "array_loop pv 0 out pos s = PFuel"
| "array_loop pv (Suc n) out pos s =
     bind_parsed (pv pos s) (\<lambda>v.
       let out1 = Json_push v out
       in after_element ''array'' CHR '']'' (\<lambda>pos s. array_loop pv n out1 pos s) out1)"

definition parseArray :: "(nat \<Rightarrow> string \<Rightarrow> Json parsed) \<Rightarrow> nat \<Rightarrow> string \<Rightarrow> Json parsed" where
  "parseArray pv pos s = after_open CHR '']'' (JArray []) (array_loop pv (length s) (JArray [])) pos s"

definition expect_colon :: "nat \<Rightarrow> string \<Rightarrow> unit parsed" where
  "expect_colon pos s =
     (let pos1 = skip_pos pos s
      in case skip_ws s of
           [] \<Rightarrow> fail (''expected '' @ quoted CHR '':'') pos1
         | c # r \<Rightarrow> if c \<noteq> CHR '':'' then fail (''expected '' @ quoted CHR '':'') pos1 else POk () (pos1 + 1) r)"

fun object_loop :: "(nat \<Rightarrow> string \<Rightarrow> Json parsed) \<Rightarrow> nat \<Rightarrow> Json \<Rightarrow> nat \<Rightarrow> string \<Rightarrow> Json parsed" where
  "object_loop pv 0 out pos s = PFuel"
| "object_loop pv (Suc n) out pos s =
     bind_parsed (parseString (skip_pos pos s) (skip_ws s)) (\<lambda>key pos1 s1.
     bind_parsed (expect_colon pos1 s1) (\<lambda>_ pos2 s2.
     bind_parsed (pv pos2 s2) (\<lambda>v.
       let out1 = Json_set key v out
       in after_element ''object'' CHR ''}'' (\<lambda>pos s. object_loop pv n out1 pos s) out1)))"

definition parseObject :: "(nat \<Rightarrow> string \<Rightarrow> Json parsed) \<Rightarrow> nat \<Rightarrow> string \<Rightarrow> Json parsed" where
  "parseObject pv pos s = after_open CHR ''}'' (JObject []) (object_loop pv (length s) (JObject [])) pos s"

definition parseValueInner :: "(nat \<Rightarrow> string \<Rightarrow> Json parsed) \<Rightarrow> nat \<Rightarrow> string \<Rightarrow> Json parsed" where
  "parseValueInner pv pos0 s0 =
     (let pos = skip_pos pos0 s0; s = skip_ws s0
      in case s of
           [] \<Rightarrow> fail ''unexpected end of input'' pos
         | c # r \<Rightarrow>
             if c = CHR ''n'' then bind_parsed (literal ''null'' pos s) (\<lambda>_. POk JNull)
             else if c = CHR ''t'' then bind_parsed (literal ''true'' pos s) (\<lambda>_. POk (JBool True))
             else if c = CHR ''f'' then bind_parsed (literal ''false'' pos s) (\<lambda>_. POk (JBool False))
             else if c = quote then bind_parsed (parseString pos s) (\<lambda>v. POk (JString v))
             else if c = CHR ''['' then parseArray pv pos s
             else if c = CHR ''{'' then parseObject pv pos s
             else parseNumber pos s)"

text \<open>\<^verbatim>\<open>parseValue\<close> with the levels that may still be opened, 64 at the top.\<close>

primrec parseValue :: "nat \<Rightarrow> nat \<Rightarrow> string \<Rightarrow> Json parsed" where
  "parseValue 0 pos s = fail ''nesting too deep'' pos"
| "parseValue (Suc levels) pos s = parseValueInner (parseValue levels) pos s"

definition parse_document :: "string \<Rightarrow> Json parsed" where
  "parse_document text =
     bind_parsed (parseValue 64 0 text) (\<lambda>v pos s.
       if skip_pos pos s \<noteq> length text then PErr ''trailing data after JSON document''
       else POk v (skip_pos pos s) (skip_ws s))"

text \<open>The value and the error text; a failed parse gives the null value.\<close>

definition Json_parse :: "string \<Rightarrow> Json \<times> string" where
  "Json_parse text = (case parse_document text of POk v _ _ \<Rightarrow> (v, '''') | PErr e \<Rightarrow> (JNull, e) | PFuel \<Rightarrow> (JNull, ''''))"

end
