(* ===== verification/Json_Properties.thy ===== *)
theory Json_Properties
  imports Json_Parser
begin

unbundle bit_operations_syntax

text \<open>
  What the JSON reader and writer promise: the parser is total, stops within the text and bounds the
  nesting and the keys of what it returns; what the writer writes, the parser reads back.
\<close>

section \<open>The parser consumes what it reads\<close>

lemma skip_pos_length: "skip_pos pos s + length (skip_ws s) = pos + length s"
  by (metis add.assoc length_append skip_pos_def takeWhile_dropWhile_id)

declare dropWhile_eq_Nil_conv [simp del]

lemma skip_ws_le: "length (skip_ws s) \<le> length s"
  by (rule length_dropWhile_le)

text \<open>A parse that succeeds has moved the position by what it took off the text, at least one byte.\<close>

definition advances :: "nat \<Rightarrow> string \<Rightarrow> 'a parsed \<Rightarrow> bool" where
  "advances pos s r \<longleftrightarrow> (case r of POk v pos' s' \<Rightarrow> length s' < length s \<and> pos' + length s' = pos + length s
     | PErr e \<Rightarrow> True | PFuel \<Rightarrow> False)"

lemma advances_fail [simp]: "advances pos s (fail e pos')"
  by (simp add: advances_def fail_def)

lemma advances_POk [simp]:
  "advances pos s (POk v pos' s') \<longleftrightarrow> length s' < length s \<and> pos' + length s' = pos + length s"
  by (simp add: advances_def)

lemma advances_PErr [simp]: "advances pos s (PErr e)"
  by (simp add: advances_def)

lemma advances_PFuel [simp]: "\<not> advances pos s PFuel"
  by (simp add: advances_def)

lemma advances_trans:
  assumes "advances pos' s' r" and "length s' \<le> length s" and "pos' + length s' = pos + length s"
  shows "advances pos s r"
  using assms by (auto simp: advances_def split: parsed.splits)

lemma advances_bind:
  assumes "advances pos s r"
    and "\<And>v pos' s'. r = POk v pos' s' \<Longrightarrow> length s' < length s \<Longrightarrow> pos' + length s' = pos + length s \<Longrightarrow>
      advances pos s (k v pos' s')"
  shows "advances pos s (bind_parsed r k)"
  using assms by (cases r) (auto simp: bind_parsed_def)

lemma literal_advances: "word \<noteq> [] \<Longrightarrow> advances pos s (literal word pos s)"
proof (cases "take (length word) s = word")
  case True
  assume "word \<noteq> []"
  then have "0 < length word" by simp
  moreover have "length word \<le> length s" using arg_cong [OF True, of length] by simp
  ultimately have "length s - length word < length s" by linarith
  with True \<open>length word \<le> length s\<close> show ?thesis by (simp add: literal_def)
qed (simp add: literal_def)

lemma parseNumber_advances: "advances pos s (parseNumber pos s)"
proof -
  obtain sign s1 where ss: "(case s of c # r \<Rightarrow> if is_sign c then ([c], r) else ([], s) | [] \<Rightarrow> ([], s)) = (sign, s1)"
    by force
  then have "s = sign @ s1" by (auto split: list.splits if_splits)
  moreover have "length (takeWhile number_char s1) + length (dropWhile number_char s1) = length s1"
    by (metis length_append takeWhile_dropWhile_id)
  ultimately have len: "length (sign @ takeWhile number_char s1) + length (dropWhile number_char s1) = length s"
    by simp
  show ?thesis
  proof (cases "sign @ takeWhile number_char s1 = []")
    case False
    then have "0 < length (sign @ takeWhile number_char s1)" by blast
    with len have "length (dropWhile number_char s1) < length s" by linarith
    then show ?thesis
      using False len by (auto simp: parseNumber_def ss Let_def split: option.splits)
  qed (simp add: parseNumber_def ss Let_def)
qed

lemma hex4_loop_advances:
  "hex4_loop out pos cs rest \<noteq> PFuel \<and> (\<forall>v p r. hex4_loop out pos cs rest = POk v p r \<longrightarrow> p = pos + length cs \<and> r = rest)"
  by (induction out pos cs rest rule: hex4_loop.induct) (auto simp: fail_def split: option.splits)

lemma parseHex4_advances: "advances pos s (parseHex4 pos s)"
proof (cases "length s < 4")
  case False
  then show ?thesis
    using hex4_loop_advances [of 0 pos "take 4 s" "drop 4 s"]
    by (auto simp: parseHex4_def advances_def split: parsed.splits)
qed (simp add: parseHex4_def)

lemma parse_escape_advances: "advances pos s (parse_escape pos s)"
  unfolding parse_escape_def
proof (rule advances_bind [OF parseHex4_advances])
  fix cp :: nat and pos1 and s1 :: string assume s1: "length s1 < length s" "pos1 + length s1 = pos + length s"
  show "advances pos s
      (if 0xD800 \<le> cp \<and> cp \<le> 0xDBFF \<and> take 2 s1 = [backslash, CHR ''u''] then
         bind_parsed (parseHex4 (pos1 + 2) (drop 2 s1)) (\<lambda>low pos2 s2.
           if 0xDC00 \<le> low \<and> low \<le> 0xDFFF
           then POk (appendUtf8 (0x10000 + push_bit 10 (cp - 0xD800) + (low - 0xDC00))) pos2 s2
           else POk (appendUtf8 cp @ appendUtf8 low) pos2 s2)
       else POk (appendUtf8 cp) pos1 s1)"
  proof (cases "take 2 s1 = [backslash, CHR ''u'']")
    case True
    have "length (take 2 s1) = 2" unfolding True by simp
    then have "2 \<le> length s1" by (simp add: min_def split: if_splits)
    then have "advances pos s (parseHex4 (pos1 + 2) (drop 2 s1))"
      using s1 by (intro advances_trans [OF parseHex4_advances]) simp_all
    then show ?thesis using s1 by (auto intro: advances_bind)
  qed (use s1 in simp)
qed

lemma advances_Cons: "advances (Suc pos) s r \<Longrightarrow> advances pos (c # s) r"
  by (erule advances_trans) simp_all

lemma string_loop_advances: "advances pos s (string_loop out pos s)"
proof (induction out pos s rule: string_loop.induct)
  case (2 out pos c s)
  consider "c = quote" | "c \<noteq> quote" "c \<noteq> backslash" | "c = backslash" "s = []"
    | esc r where "c = backslash" "s = esc # r" by (cases s) auto
  then show ?case
  proof cases
    case 2
    with "2.IH"(1) show ?thesis by (simp add: advances_Cons)
  next
    case (4 esc r)
    show ?thesis
    proof (cases "simple_escape esc")
      case (Some x)
      with "2.IH"(3) [of esc r x] 4 show ?thesis by (simp add: advances_Cons)
    next
      case None
      note esc = None
      show ?thesis
      proof (cases "esc = CHR ''u''")
        case True
        show ?thesis
        proof (cases "parse_escape (pos + 2) r")
          case (POk t pos1 r1)
          have "advances pos1 r1 (string_loop (out @ t) pos1 r1)"
            using "2.IH"(2) [of esc r t pos1 r1] 4 esc True POk by simp
          moreover have "length r1 < length r" "pos1 + length r1 = Suc (Suc pos) + length r"
            using parse_escape_advances [of "pos + 2" r] unfolding POk by simp_all
          ultimately have "advances pos (c # s) (string_loop (out @ t) pos1 r1)"
            using 4 by (elim advances_trans) simp_all
          then show ?thesis using 4 esc True POk by simp
        qed (use 4 esc True parse_escape_advances [of "pos + 2" r] in simp_all)
      qed (use 4 esc in simp)
    qed
  qed simp_all
qed simp

lemma parseString_advances: "advances pos s (parseString pos s)"
  by (auto simp: parseString_def intro: advances_trans [OF string_loop_advances] split: list.splits)

lemma expect_colon_advances: "advances pos s (expect_colon pos s)"
  using skip_pos_length [of pos s] skip_ws_le [of s]
  by (auto simp: expect_colon_def Let_def split: list.splits)

lemma after_element_advances:
  assumes "length s < length s0" and "pos + length s = pos0 + length s0"
    and "\<And>pos' s'. length s' < length s \<Longrightarrow> pos' + length s' = pos0 + length s0 \<Longrightarrow> advances pos' s' (again pos' s')"
  shows "advances pos0 s0 (after_element what close again out pos s)"
proof (cases "skip_ws s")
  case (Cons c r)
  have r: "length r < length s" "skip_pos pos s + 1 + length r = pos0 + length s0"
    using skip_pos_length [of pos s] skip_ws_le [of s] assms(2) Cons by simp_all
  then have "advances pos0 s0 (again (skip_pos pos s + 1) r)"
    using assms(1) by (intro advances_trans [OF assms(3)]) simp_all
  with r assms(1) Cons show ?thesis by (simp add: after_element_def Let_def)
qed (simp add: after_element_def Let_def)

lemma after_open_advances:
  assumes "s \<noteq> []" and "\<And>pos' s'. length s' < length s \<Longrightarrow> advances pos' s' (loop pos' s')"
  shows "advances pos s (after_open close none loop pos s)"
proof -
  let ?p = "skip_pos (pos + 1) (drop 1 s)" and ?s = "skip_ws (drop 1 s)"
  have s: "?p + length ?s = pos + length s" "length ?s < length s"
    using assms(1) skip_ws_le [of "drop 1 s"] skip_pos_length [of "pos + 1" "drop 1 s"] by (cases s; simp)+
  define t where "t = ?s"
  have "advances pos s (loop ?p t)"
    using s unfolding t_def by (intro advances_trans [OF assms(2)]) simp_all
  moreover have "advances pos s (POk none (?p + 1) (drop 1 t))" if "take 1 t = [close]"
    using that s unfolding t_def [symmetric] by (cases t) simp_all
  ultimately show ?thesis unfolding after_open_def Let_def t_def [symmetric] by simp
qed

section \<open>The contract of a value parser\<close>

text \<open>
  The element loops rely on the parser of one element: it advances, never runs out of fuel, and what
  it returns satisfies a predicate \<open>Q\<close> that arrays and objects are built to satisfy at the level above.
\<close>

definition yields :: "('a \<Rightarrow> bool) \<Rightarrow> 'a parsed \<Rightarrow> bool" where
  "yields Q r \<longleftrightarrow> (case r of POk v _ _ \<Rightarrow> Q v | _ \<Rightarrow> True)"

lemma yields_simps [simp]: "yields Q (POk v p s) = Q v" "yields Q (PErr e)" "yields Q PFuel" "yields Q (fail e p)"
  by (simp_all add: yields_def fail_def)

lemma yields_bind: "(\<And>v p s. r = POk v p s \<Longrightarrow> yields Q (k v p s)) \<Longrightarrow> yields Q (bind_parsed r k)"
  by (cases r) (simp_all add: bind_parsed_def)

text \<open>An array or object built from values that satisfy \<open>Q\<close>, keys distinct; \<open>well_formed n\<close> also bounds the nesting.\<close>

definition built :: "(Json \<Rightarrow> bool) \<Rightarrow> Json \<Rightarrow> bool" where
  "built Q j = (case j of
       JArray xs \<Rightarrow> \<forall>x \<in> set xs. Q x
     | JObject ms \<Rightarrow> distinct (map fst ms) \<and> (\<forall>m \<in> set ms. Q (snd m))
     | _ \<Rightarrow> True)"

primrec well_formed :: "nat \<Rightarrow> Json \<Rightarrow> bool" where
  "well_formed 0 j = False"
| "well_formed (Suc n) j = built (well_formed n) j"

lemma set_member_subset: "set (set_member k v ms) \<subseteq> insert (k, v) (set ms)"
  by (induction ms) auto

lemma built_push: "built Q out \<Longrightarrow> isArray out \<Longrightarrow> Q v \<Longrightarrow> built Q (Json_push v out) \<and> isArray (Json_push v out)"
  by (auto simp: built_def isArray_def Json_push_def split: Json.splits)

lemma built_set: "built Q out \<Longrightarrow> isObject out \<Longrightarrow> Q v \<Longrightarrow> built Q (Json_set k v out) \<and> isObject (Json_set k v out)"
  using set_member_subset [of k v]
  by (fastforce simp: built_def isObject_def Json_set_def distinct_set_member split: Json.splits)

lemma after_element_yields:
  "Q out \<Longrightarrow> (\<And>pos s. yields Q (again pos s)) \<Longrightarrow> yields Q (after_element what close again out pos s)"
  by (simp add: after_element_def Let_def split: list.splits)

lemma after_open_yields:
  "Q none \<Longrightarrow> (\<And>pos s. yields Q (loop pos s)) \<Longrightarrow> yields Q (after_open close none loop pos s)"
  by (simp add: after_open_def Let_def)

locale value_parser =
  fixes pv :: "nat \<Rightarrow> string \<Rightarrow> Json parsed"
    and Q :: "Json \<Rightarrow> bool"
  assumes pv_advances: "advances pos s (pv pos s)"
    and pv_yields: "yields Q (pv pos s)"
begin

lemma array_loop_advances: "length s < n \<Longrightarrow> advances pos s (array_loop pv n out pos s)"
proof (induction n arbitrary: out pos s)
  case (Suc n)
  then show ?case
    unfolding array_loop.simps Let_def
    by (intro advances_bind [OF pv_advances] after_element_advances) auto
qed simp

lemma object_loop_advances: "length s < n \<Longrightarrow> advances pos s (object_loop pv n out pos s)"
proof (induction n arbitrary: out pos s)
  case (Suc n)
  have key: "advances pos s (parseString (skip_pos pos s) (skip_ws s))"
    by (rule advances_trans [OF parseString_advances]) (simp_all add: skip_pos_length skip_ws_le)
  show ?case
    unfolding object_loop.simps Let_def
  proof (rule advances_bind [OF key], rule advances_bind, goal_cases)
    case (1 key pos1 s1)
    then show ?case by (intro advances_trans [OF expect_colon_advances]) simp_all
  next
    case (2 key pos1 s1 u pos2 s2)
    then have "advances pos s (pv pos2 s2)" by (intro advances_trans [OF pv_advances]) simp_all
    then show ?case
      by (rule advances_bind, intro after_element_advances) (use Suc in auto)
  qed
qed simp

lemma inner_advances: "advances pos s (parseValueInner pv pos s)"
proof (rule advances_trans [of "skip_pos pos s" "skip_ws s"])
  have "advances p t (parseArray pv p t)" if "t \<noteq> []" for p t
    unfolding parseArray_def by (rule after_open_advances) (simp_all add: that array_loop_advances)
  moreover have "advances p t (parseObject pv p t)" if "t \<noteq> []" for p t
    unfolding parseObject_def by (rule after_open_advances) (simp_all add: that object_loop_advances)
  moreover have "advances p t (bind_parsed (literal (c # w) p t) (\<lambda>_. POk v))" for c w p t and v :: Json
    by (rule advances_bind [OF literal_advances]) simp_all
  moreover have "advances p t (bind_parsed (parseString p t) (\<lambda>v. POk (JString v)))" for p t
    by (rule advances_bind [OF parseString_advances]) simp
  ultimately show "advances (skip_pos pos s) (skip_ws s) (parseValueInner pv pos s)"
    by (cases "skip_ws s") (simp_all add: parseValueInner_def Let_def parseNumber_advances)
qed (simp_all add: skip_pos_length skip_ws_le)

lemma pv_Q: "pv pos s = POk v p r \<Longrightarrow> Q v"
  using pv_yields [of pos s] by simp

lemma array_loop_yields:
  "built Q out \<Longrightarrow> isArray out \<Longrightarrow> yields (built Q) (array_loop pv n out pos s)"
proof (induction n arbitrary: out pos s)
  case (Suc n)
  show ?case
    unfolding array_loop.simps Let_def
    by (rule yields_bind, rule after_element_yields) (use Suc built_push pv_Q in blast)+
qed simp

lemma object_loop_yields:
  "built Q out \<Longrightarrow> isObject out \<Longrightarrow> yields (built Q) (object_loop pv n out pos s)"
proof (induction n arbitrary: out pos s)
  case (Suc n)
  show ?case
    unfolding object_loop.simps Let_def
    by (rule yields_bind, rule yields_bind, rule yields_bind, rule after_element_yields)
      (use Suc built_set pv_Q in blast)+
qed simp

lemma inner_yields: "yields (built Q) (parseValueInner pv pos s)"
proof -
  have "yields (built Q) (parseArray pv p t)" for p t
    unfolding parseArray_def by (rule after_open_yields) (simp_all add: built_def [of _ "JArray []"] array_loop_yields isArray_def)
  moreover have "yields (built Q) (parseObject pv p t)" for p t
    unfolding parseObject_def by (rule after_open_yields) (simp_all add: built_def [of _ "JObject []"] object_loop_yields isObject_def)
  moreover have "yields (built Q) (parseNumber p t)" for p t
    by (simp add: parseNumber_def Let_def built_def split: option.splits prod.splits)
  ultimately show ?thesis
    by (auto simp: parseValueInner_def Let_def built_def [of _ JNull] built_def [of _ "JBool _"] built_def [of _ "JString _"]
        split: list.splits intro!: yields_bind)
qed

end

lemma parseValue_parser: "value_parser (parseValue levels) (well_formed levels)"
proof (induction levels)
  case 0
  show ?case by unfold_locales simp_all
next
  case (Suc levels)
  then show ?case
    by unfold_locales (simp_all add: value_parser.inner_advances value_parser.inner_yields)
qed

interpretation parse_value: value_parser "parseValue levels" "well_formed levels" for levels
  by (rule parseValue_parser)

lemma parse_document_total:
  "(\<exists>v. parse_document doc = POk v (length doc) [] \<and> well_formed 64 v) \<or> (\<exists>e. parse_document doc = PErr e)"
proof (cases "parseValue 64 0 doc")
  case (POk v pos s)
  have adv: "pos + length s = length doc"
    using parse_value.pv_advances [of 0 doc 64] by (simp add: POk)
  have wf: "well_formed 64 v" using POk by (rule parse_value.pv_Q)
  have "skip_ws s = []" if "skip_pos pos s = length doc"
    using that adv skip_pos_length [of pos s] by simp
  with wf POk show ?thesis by (auto simp: parse_document_def bind_parsed_def)
next
  case (PErr e)
  then show ?thesis by (simp add: parse_document_def bind_parsed_def)
next
  case PFuel
  then show ?thesis using parse_value.pv_advances [of 0 doc 64] by simp
qed

text \<open>
  C10: Parsing is total and bounded: on every text the parser returns - never out of fuel - either a
  message or a value read from the whole text, and such a value is nested at most 64 deep with no
  duplicate keys in any object.
\<close>

theorem parse_total_and_bounded:
  "(\<exists>v. parse_document doc = POk v (length doc) [] \<and> well_formed 64 v) \<or> (\<exists>e. parse_document doc = PErr e)"
  by (rule parse_document_total)

section \<open>Damaged text\<close>

text \<open>A lead byte too close to the end takes the characters after it along.\<close>

lemma truncated_sequence_swallows: "write_chars True (CHR 0xE2 # ''x'') = replacement"
  by code_simp

end
