(* ===== verification/Json_Numbers.thy ===== *)
theory Json_Numbers
  imports Json_Properties
begin

text \<open>
  Reading numbers back: \<^verbatim>\<open>writeNumber\<close> prints integral values exactly and others to ten significant digits,
  in fixed or scientific notation; \<^verbatim>\<open>parseNumber\<close> reads the printed decimal and rounds it to the nearest
  \<^verbatim>\<open>double\<close>.
\<close>

section \<open>Tokens and integral values\<close>

text \<open>What may follow a number: nothing that could belong to it.\<close>

definition delimited :: "string \<Rightarrow> bool" where
  "delimited rest \<longleftrightarrow> (rest = [] \<or> \<not> number_char (hd rest))"

lemma takeWhile_delimited:
  assumes "delimited rest"
  shows "takeWhile number_char rest = []" and "dropWhile number_char rest = rest"
  using assms by (cases rest; simp add: delimited_def)+

lemma number_char_digit: "is_digit c \<Longrightarrow> number_char c"
  by (simp add: number_char_def)

lemma not_digits:
  "\<not> is_digit CHR ''-''" "\<not> is_digit CHR ''+''" "\<not> is_digit CHR ''.''" "\<not> is_digit CHR ''e''" "\<not> is_digit CHR ''E''"
  by (simp_all add: is_digit_def)

lemma is_sign_digit: "is_digit c \<Longrightarrow> \<not> is_sign c"
  by (auto simp: is_sign_def not_digits)

text \<open>A token without an inner sign is taken whole, whatever follows it.\<close>

lemma parseNumber_token:
  assumes "token \<noteq> []" and "\<forall>c \<in> set token. number_char c" and "delimited rest"
    and "stod token = Some (v, length token)"
  shows "parseNumber pos (token @ rest) = POk (JNumber v) (pos + length token) rest"
proof -
  obtain c t where t: "token = c # t" using assms(1) by (cases token) auto
  have "takeWhile number_char (t @ rest) = t" "dropWhile number_char (t @ rest) = rest"
    "takeWhile number_char (token @ rest) = token" "dropWhile number_char (token @ rest) = rest"
    using assms(2,3) by (simp_all add: takeWhile_delimited t)
  then show ?thesis using assms(4) by (simp add: parseNumber_def Let_def t)
qed

lemma takeWhile_digits: "\<forall>c \<in> set ds. is_digit c \<Longrightarrow> takeWhile is_digit ds = ds" "\<forall>c \<in> set ds. is_digit c \<Longrightarrow> dropWhile is_digit ds = []"
  by (simp_all add: takeWhile_eq_all_conv dropWhile_eq_Nil_conv)

lemma strip_sign_digits: "ds \<noteq> [] \<Longrightarrow> \<forall>c \<in> set ds. is_digit c \<Longrightarrow> strip_sign (ds @ r) = (False, ds @ r)"
  by (cases ds) (simp_all add: strip_sign_def is_sign_digit)

lemma strtod_int: "strtod (to_string_int i) = Some (of_int i, length (to_string_int i))"
proof -
  have d: "\<forall>c \<in> set (to_string_nat n). is_digit c" for n by (rule to_string_nat_digits)
  have s: "strip_sign (to_string_nat n) = (False, to_string_nat n)" for n
    using strip_sign_digits [of "to_string_nat n" "[]"] d by simp
  have m: "strip_sign (CHR ''-'' # r) = (True, r)" for r by (simp add: strip_sign_def is_sign_def)
  show ?thesis
    by (simp add: strtod_def to_string_int_def s m takeWhile_digits [OF d] strtod_fraction_def strtod_exponent_def)
qed

lemma stod_int: "\<bar>i\<bar> < 2 ^ 53 \<Longrightarrow> stod (to_string_int i) = Some (Finite (of_int i), length (to_string_int i))"
  by (simp add: stod_def strtod_int double_of_int_exact out_of_range_def)

lemma to_string_int_chars: "to_string_int i \<noteq> [] \<and> (\<forall>c \<in> set (to_string_int i). number_char c)"
  using to_string_nat_digits number_char_digit by (auto simp: to_string_int_def number_char_def)

definition integral :: "double \<Rightarrow> bool" where
  "integral v = (case v of Finite x \<Rightarrow> x = of_int \<lfloor>x\<rfloor> \<and> \<bar>x\<bar> < 9000000000000000 | _ \<Rightarrow> False)"

lemma integral_cases:
  assumes "integral v"
  obtains i where "v = Finite (of_int i)" and "\<bar>i\<bar> < 9000000000000000" and "writeNumber v = to_string_int i"
proof -
  obtain x where x: "v = Finite x" "x = of_int \<lfloor>x\<rfloor>" "\<bar>x\<bar> < 9000000000000000"
    using assms by (cases v) (auto simp: integral_def)
  have "\<bar>of_int \<lfloor>x\<rfloor>\<bar> < (of_int 9000000000000000 :: rat)" using x(2,3) by simp
  then have "\<bar>\<lfloor>x\<rfloor>\<bar> < 9000000000000000" by (simp only: of_int_abs [symmetric] of_int_less_iff)
  moreover have "truncate_rat x = \<lfloor>x\<rfloor>" by (metis x(2) ceiling_of_int truncate_rat_def ceiling_def)
  ultimately show ?thesis using x by (intro that [of "\<lfloor>x\<rfloor>"]) (auto simp: writeNumber_def)
qed

lemma parseNumber_integral:
  assumes "integral v" and "delimited rest"
  shows "parseNumber pos (writeNumber v @ rest) = POk (JNumber v) (pos + length (writeNumber v)) rest"
proof -
  obtain i where i: "v = Finite (of_int i)" "\<bar>i\<bar> < 9000000000000000" "writeNumber v = to_string_int i"
    using assms(1) by (rule integral_cases)
  then have "stod (to_string_int i) = Some (v, length (to_string_int i))" by (simp add: stod_int)
  then show ?thesis
    unfolding i(3) using to_string_int_chars assms(2) by (intro parseNumber_token) blast+
qed

section \<open>The printed decimal\<close>

lemma ilog_upper:
  assumes "2 \<le> b" and "0 < x"
  shows "x < of_nat b powi (ilog b x + 1)"
proof -
  obtain p q where pq: "quotient_of x = (p, q)" by force
  then have x: "x = of_int p / of_int q" and q: "0 < q"
    by (simp_all add: quotient_of_div quotient_of_denom_pos)
  then have p: "0 < p" using assms(2) by (simp add: zero_less_divide_iff)
  let ?m = "ndigits b (nat p)" and ?k = "ndigits b (nat q)"
  have b: "(0 :: rat) < of_nat b" using assms(1) by simp
  have "nat p < b ^ ?m" using assms(1) by (rule ndigits_upper)
  then have "(of_nat (nat p) :: rat) < of_nat (b ^ ?m)" by (simp only: of_nat_less_iff)
  then have 1: "(of_int p :: rat) < of_nat b ^ ?m" using p by (simp add: of_nat_nat)
  have "b ^ (?k - 1) \<le> nat q" using assms(1) q by (intro ndigits_lower) simp_all
  then have "of_nat (b ^ (?k - 1)) \<le> (of_nat (nat q) :: rat)" by (simp only: of_nat_le_iff)
  then have 2: "of_nat b ^ (?k - 1) \<le> (of_int q :: rat)" using q by (simp add: of_nat_nat)
  have "x < of_nat b ^ ?m / of_nat b ^ (?k - 1)"
    unfolding x using 1 2 p b by (intro frac_less) simp_all
  also have "\<dots> = of_nat b powi (int ?m - int ?k + 1)"
  proof -
    have "int ?m - int ?k + 1 = int ?m - int (?k - 1)" using ndigits_pos [OF assms(1)] q by (simp add: of_nat_diff Suc_leI)
    then show ?thesis using power_int_diff [of "of_nat b :: rat"] b by (metis less_irrefl power_int_of_nat)
  qed
  finally show ?thesis by (auto simp: ilog_def pq Let_def)
qed

lemma round_half_even_bounds:
  "of_int n \<le> x \<Longrightarrow> n \<le> round_half_even x" "x \<le> of_int n \<Longrightarrow> round_half_even x \<le> n"
  "\<bar>of_int (round_half_even x) - x\<bar> \<le> 1 / 2"
proof -
  show "n \<le> round_half_even x" if "of_int n \<le> x"
  proof -
    have "n \<le> \<lfloor>x\<rfloor>" using that by (simp add: le_floor_iff)
    then show ?thesis by (simp add: round_half_even_def Let_def)
  qed
  show "round_half_even x \<le> n" if "x \<le> of_int n"
  proof (cases "x = of_int n")
    case False
    with that have "\<lfloor>x\<rfloor> < n" by (simp add: floor_less_iff)
    then show ?thesis by (simp add: round_half_even_def Let_def)
  qed simp
  have "of_int \<lfloor>x\<rfloor> \<le> x" "x < of_int \<lfloor>x\<rfloor> + 1" by linarith+
  then show "\<bar>of_int (round_half_even x) - x\<bar> \<le> 1 / 2"
    by (auto simp: round_half_even_def Let_def abs_le_iff)
qed

text \<open>The ten digits and the exponent that \<^verbatim>\<open>%.10g\<close> prints, and the value they denote.\<close>

definition digits10 :: "rat \<Rightarrow> int \<times> int" where
  "digits10 x =
     (let d0 = ilog 10 \<bar>x\<bar>; m0 = round_half_even (\<bar>x\<bar> / 10 powi (d0 - 9))
      in if m0 = 10 ^ 10 then (10 ^ 9, d0 + 1) else (m0, d0))"

definition decimal10 :: "rat \<Rightarrow> rat" where
  "decimal10 x = (case digits10 x of (m, d) \<Rightarrow> (if x < 0 then - 1 else 1) * of_int m * 10 powi (d - 9))"

lemma digits10_bounds:
  assumes "x \<noteq> 0" and "digits10 x = (m, d)"
  shows "10 ^ 9 \<le> m" and "m < 10 ^ 10"
    and "\<bar>of_int m * 10 powi (d - 9) - \<bar>x\<bar>\<bar> \<le> \<bar>x\<bar> / (2 * 10 ^ 9)"
proof -
  let ?d = "ilog 10 \<bar>x\<bar>"
  let ?s = "10 powi (?d - 9) :: rat"
  let ?m = "round_half_even (\<bar>x\<bar> / ?s)"
  have s: "0 < ?s" by simp
  have lo: "10 ^ 9 * ?s \<le> \<bar>x\<bar>"
    using ilog_le [of 10 "\<bar>x\<bar>"] assms(1) by (simp add: power_int_diff)
  have up: "\<bar>x\<bar> < 10 ^ 10 * ?s"
    using ilog_upper [of 10 "\<bar>x\<bar>"] assms(1) by (simp add: power_int_diff power_int_add)
  have 1: "10 ^ 9 \<le> ?m"
    using lo s by (intro round_half_even_bounds(1)) (simp add: pos_le_divide_eq)
  have 2: "?m \<le> 10 ^ 10"
    using up s by (intro round_half_even_bounds(2)) (simp add: pos_divide_le_eq)
  show "10 ^ 9 \<le> m" "m < 10 ^ 10"
    using assms(2) 1 2 by (auto simp: digits10_def Let_def split: if_splits)
  have md: "of_int m * 10 powi (d - 9) = of_int ?m * ?s"
  proof (cases "?m = 10 ^ 10")
    case True
    then have m: "m = 10 ^ 9" and d: "d - 9 = (?d - 9) + 1" using assms(2) by (auto simp: digits10_def)
    have "10 powi (d - 9) = (?s * 10 :: rat)" unfolding d by (subst power_int_add) simp_all
    then show ?thesis using True by (simp add: m)
  qed (use assms(2) in \<open>auto simp: digits10_def Let_def\<close>)
  have "of_int ?m * ?s - \<bar>x\<bar> = (of_int ?m - \<bar>x\<bar> / ?s) * ?s" using s by (simp add: left_diff_distrib)
  then have "\<bar>of_int ?m * ?s - \<bar>x\<bar>\<bar> = \<bar>of_int ?m - \<bar>x\<bar> / ?s\<bar> * ?s"
    unfolding abs_mult abs_of_pos [OF s] by (simp only: abs_mult abs_of_pos [OF s])
  also have "\<dots> \<le> 1 / 2 * ?s"
    using s round_half_even_bounds(3) by (intro mult_right_mono) simp_all
  also have "\<dots> \<le> \<bar>x\<bar> / (2 * 10 ^ 9)" using lo by simp
  finally show "\<bar>of_int m * 10 powi (d - 9) - \<bar>x\<bar>\<bar> \<le> \<bar>x\<bar> / (2 * 10 ^ 9)" unfolding md .
qed

section \<open>Reading the printed decimal\<close>

lemma read_digits_append: "read_digits (a @ b) = read_digits a * 10 ^ length b + read_digits b"
proof (induction b rule: rev_induct)
  case (snoc c b)
  have "read_digits (a @ b @ [c]) = 10 * read_digits (a @ b) + digit_value c"
    using read_digits_snoc [of "a @ b" c] by simp
  with snoc show ?case by (simp add: algebra_simps)
qed simp

lemma digit_value_0: "digit_value CHR ''0'' = 0"
  by (simp add: digit_value_def)

lemma read_digits_zeros [simp]: "read_digits (replicate n CHR ''0'') = 0"
proof (induction n)
  case (Suc n)
  have "read_digits (replicate n CHR ''0'' @ [CHR ''0'']) = 0" by (simp add: Suc digit_value_0)
  then show ?case by (simp add: replicate_append_same)
qed simp

lemma strip_zeros_split: "\<exists>n. s = strip_zeros s @ replicate n CHR ''0''"
proof -
  let ?P = "\<lambda>c. c = CHR ''0''"
  have "rev s = takeWhile ?P (rev s) @ dropWhile ?P (rev s)" by simp
  moreover have "takeWhile ?P (rev s) = replicate (length (takeWhile ?P (rev s))) CHR ''0''"
    by (rule replicate_length_same [symmetric]) (auto dest: set_takeWhileD)
  ultimately have "s = rev (dropWhile ?P (rev s)) @ replicate (length (takeWhile ?P (rev s))) CHR ''0''"
    by (metis rev_append rev_replicate rev_rev_ident)
  then show ?thesis unfolding strip_zeros_def by blast
qed

text \<open>Dropping trailing zeros of the fraction does not change the value.\<close>

lemma read_fraction:
  "(of_nat (read_digits (ip @ strip_zeros fp)) * 10 powi (e - int (length (strip_zeros fp))) :: rat) =
   of_nat (read_digits (ip @ fp)) * 10 powi (e - int (length fp))"
proof -
  obtain n where n: "fp = strip_zeros fp @ replicate n CHR ''0''" using strip_zeros_split by blast
  let ?z = "strip_zeros fp"
  have len: "length fp = length ?z + n" by (subst n) simp
  have "read_digits (ip @ fp) = read_digits ((ip @ ?z) @ replicate n CHR ''0'')" by (subst n) simp
  then have r: "read_digits (ip @ fp) = read_digits (ip @ ?z) * 10 ^ n"
    unfolding read_digits_append [of "ip @ ?z"] by simp
  have e: "e - int (length ?z) = int n + (e - int (length fp))" by (simp add: len)
  have "10 powi (e - int (length ?z)) = (10 ^ n * 10 powi (e - int (length fp)) :: rat)"
    unfolding e by (subst power_int_add) simp_all
  then show ?thesis by (simp add: r)
qed

lemma digits_strip: "\<forall>c \<in> set s. is_digit c \<Longrightarrow> \<forall>c \<in> set (strip_zeros s). is_digit c"
  using set_strip_zeros by blast

lemma takeWhile_digits_stop:
  assumes "\<forall>c \<in> set ds. is_digit c" and "r = [] \<or> \<not> is_digit (hd r)"
  shows "takeWhile is_digit (ds @ r) = ds" and "dropWhile is_digit (ds @ r) = r"
proof -
  have "takeWhile is_digit r = []" "dropWhile is_digit r = r"
    using assms(2) by (cases r; simp)+
  then show "takeWhile is_digit (ds @ r) = ds" "dropWhile is_digit (ds @ r) = r"
    using assms(1) by (simp_all add: takeWhile_append dropWhile_append)
qed

lemma strtod_decimal:
  assumes "ip \<noteq> []" and "\<forall>c \<in> set ip. is_digit c" and "\<forall>c \<in> set fp. is_digit c"
    and ex: "strtod_exponent ex = (e, [])" "ex = [] \<or> hd ex = CHR ''e''"
  defines "t \<equiv> ip @ fraction fp @ ex"
  shows "strtod t = Some (of_nat (read_digits (ip @ fp)) * 10 powi (e - int (length fp)), length t)"
    and "strtod (CHR ''-'' # t) = Some (- (of_nat (read_digits (ip @ fp)) * 10 powi (e - int (length fp))), Suc (length t))"
proof -
  let ?z = "strip_zeros fp"
  have z: "\<forall>c \<in> set ?z. is_digit c" using assms(3) by (rule digits_strip)
  have exd: "ex = [] \<or> \<not> is_digit (hd ex)" "ex = [] \<or> hd ex \<noteq> CHR ''.''" using ex(2) by (auto simp: not_digits)
  have "fraction fp @ ex = [] \<or> \<not> is_digit (hd (fraction fp @ ex))"
    using exd by (auto simp: fraction_def not_digits)
  then have ip: "takeWhile is_digit t = ip" "dropWhile is_digit t = fraction fp @ ex"
    unfolding t_def using takeWhile_digits_stop [OF assms(2)] by blast+
  have fr: "strtod_fraction (fraction fp @ ex) = (?z, ex)"
  proof (cases "?z = []")
    case True
    then show ?thesis using exd(2) by (cases ex) (auto simp: fraction_def strtod_fraction_def)
  next
    case False
    then show ?thesis using takeWhile_digits_stop [OF z exd(1)] by (simp add: fraction_def strtod_fraction_def)
  qed
  have sg: "strip_sign t = (False, t)" "strip_sign (CHR ''-'' # t) = (True, t)"
    using strip_sign_digits [OF assms(1,2)] by (simp_all add: t_def strip_sign_def is_sign_def)
  show "strtod t = Some (of_nat (read_digits (ip @ fp)) * 10 powi (e - int (length fp)), length t)"
    "strtod (CHR ''-'' # t) = Some (- (of_nat (read_digits (ip @ fp)) * 10 powi (e - int (length fp))), Suc (length t))"
    using assms(1) by (simp_all add: strtod_def sg ip fr ex(1) read_fraction)
qed

lemma length_to_string_nat:
  assumes "10 ^ k \<le> n" and "n < 10 ^ Suc k"
  shows "length (to_string_nat n) = Suc k"
  using assms
proof (induction k arbitrary: n)
  case 0
  then show ?case by (simp add: to_string_nat.simps)
next
  case (Suc k)
  then have "10 ^ k \<le> n div 10" "n div 10 < 10 ^ Suc k"
    by (simp_all add: less_eq_div_iff_mult_less_eq div_less_iff_less_mult mult.commute)
  then have "length (to_string_nat (n div 10)) = Suc k" by (rule Suc.IH)
  moreover have "\<not> n < 10"
  proof -
    have "(1 :: nat) \<le> 10 ^ k" by simp
    then show ?thesis using Suc.prems(1) unfolding power_Suc by linarith
  qed
  ultimately show ?case by (simp add: to_string_nat.simps [of n])
qed

text \<open>The text of ten digits with an exponent, as \<^verbatim>\<open>%.10g\<close> lays it out.\<close>

definition decimal_text :: "int \<Rightarrow> int \<Rightarrow> string" where
  "decimal_text m d =
     (let digits = to_string_nat (nat m)
      in if d < - 4 \<or> d \<ge> 10 then
           take 1 digits @ fraction (drop 1 digits) @ ''e'' @ (if d < 0 then ''-'' else ''+'') @
           (let e = to_string_nat (nat \<bar>d\<bar>) in if length e < 2 then CHR ''0'' # e else e)
         else if d \<ge> 0 then take (nat d + 1) digits @ fraction (drop (nat d + 1) digits)
         else ''0'' @ fraction (replicate (nat (- d) - 1) CHR ''0'' @ digits))"

lemma sprintf_10g_text:
  assumes "x \<noteq> 0" and "digits10 x = (m, d)"
  shows "sprintf_10g x = (if x < 0 then ''-'' else '''') @ decimal_text m d"
  using assms by (auto simp: sprintf_10g_def digits10_def decimal_text_def Let_def split: if_splits)

lemma exponent_written:
  "strtod_exponent (''e'' @ (if d < 0 then ''-'' else ''+'') @
     (let e = to_string_nat (nat \<bar>d\<bar>) in if length e < 2 then CHR ''0'' # e else e)) = (d, [])"
proof -
  let ?e = "to_string_nat (nat \<bar>d\<bar>)"
  let ?es = "if length ?e < 2 then CHR ''0'' # ?e else ?e"
  have dig: "\<forall>c \<in> set ?es. is_digit c" "?es \<noteq> []"
    using to_string_nat_digits [of "nat \<bar>d\<bar>"] by (auto simp: is_digit_def)
  have z: "read_digits (CHR ''0'' # s) = read_digits s" for s
    using read_digits_append [of "[CHR ''0'']" s] by (simp add: read_digits_def digit_value_0)
  then have r: "read_digits ?es = nat \<bar>d\<bar>" by (simp add: z)
  show ?thesis
    unfolding Let_def using dig
    by (simp add: strtod_exponent_def strip_sign_def is_sign_def takeWhile_digits r z)
qed

lemma strtod_decimal_text:
  fixes m d :: int
  assumes "10 ^ 9 \<le> m" and "m < 10 ^ 10"
  defines "t \<equiv> decimal_text m d" and "v \<equiv> of_int m * 10 powi (d - 9)"
  shows "strtod t = Some (v, length t) \<and> strtod (CHR ''-'' # t) = Some (- v, Suc (length t))"
proof -
  let ?ds = "to_string_nat (nat m)"
  have len: "length ?ds = 10"
    using length_to_string_nat [of 9 "nat m"] assms(1,2) by (simp add: nat_less_iff le_nat_iff)
  have dig: "\<forall>c \<in> set ?ds. is_digit c" by (rule to_string_nat_digits)
  have rd: "(of_nat (read_digits ?ds) :: rat) = of_int m" using assms(1) by (simp add: of_nat_nat)
  have td: "\<forall>c \<in> set (take n ?ds). is_digit c" "\<forall>c \<in> set (drop n ?ds). is_digit c" for n
    using dig by (meson in_set_takeD in_set_dropD)+
  have emp: "strtod_exponent [] = (0, [])" by (simp add: strtod_exponent_def)
  consider (sci) "d < - 4 \<or> d \<ge> 10" | (fixed) "0 \<le> d" "d < 10" | (small) "- 4 \<le> d" "d < 0" by linarith
  then show ?thesis
  proof cases
    case sci
    show ?thesis
      using strtod_decimal [where ip = "take 1 ?ds" and fp = "drop 1 ?ds", OF _ td(1) td(2) exponent_written [of d]] len rd sci
      by (simp add: t_def v_def decimal_text_def Let_def)
  next
    case fixed
    show ?thesis
      using strtod_decimal [where ip = "take (nat d + 1) ?ds" and fp = "drop (nat d + 1) ?ds", OF _ td(1) td(2) emp] len rd fixed
      by (simp add: t_def v_def decimal_text_def Let_def of_nat_diff)
  next
    case small
    let ?fp = "replicate (nat (- d) - 1) CHR ''0'' @ ?ds"
    have "\<forall>c \<in> set ?fp. is_digit c" "\<forall>c \<in> set ''0''. is_digit c" using dig by (auto simp: is_digit_def)
    moreover have "read_digits (''0'' @ ?fp) = read_digits ?ds"
      using read_digits_zeros [of "Suc (nat (- d) - 1)"] read_digits_append [of "replicate (Suc (nat (- d) - 1)) CHR ''0''" ?ds]
      by simp
    moreover have "0 - int (length ?fp) = d - 9" using len small by simp
    ultimately show ?thesis
      using strtod_decimal [where ip = "''0''" and fp = ?fp, OF _ _ _ emp] rd small
      by (simp add: t_def v_def decimal_text_def Let_def del: length_append)
  qed
qed

lemma pow2_less_exponent: "(2 :: rat) powi a < 2 powi b \<Longrightarrow> a < b"
  using power_int_increasing [of b a "2 :: rat"] by (force simp: not_less)

lemma pow2_le_exponent: "(2 :: rat) powi a \<le> 2 powi b \<Longrightarrow> a \<le> b"
  using power_int_strict_increasing [of b a "2 :: rat"] by (force simp: not_le)

lemma double_of_rat_normal:
  assumes "2 powi (- 1000) \<le> \<bar>v\<bar>" and "\<bar>v\<bar> \<le> 2 powi 1001"
  obtains y where "double_of_rat v = Finite y" and "2 powi (- 1022) \<le> \<bar>y\<bar>"
proof -
  let ?e = "ilog 2 \<bar>v\<bar>"
  have v: "0 < \<bar>v\<bar>" using assms(1) by (rule less_le_trans [rotated]) simp
  have lo: "2 powi ?e \<le> \<bar>v\<bar>" and up: "\<bar>v\<bar> < 2 powi (?e + 1)"
    using ilog_le [of 2 "\<bar>v\<bar>"] ilog_upper [of 2 "\<bar>v\<bar>"] v by simp_all
  have "(2 :: rat) powi (- 1000) < 2 powi (?e + 1)" using assms(1) up by linarith
  from pow2_less_exponent [OF this] have e1: "- 1000 \<le> ?e" by simp
  have "(2 :: rat) powi ?e \<le> 2 powi 1001" using assms(2) lo by linarith
  then have e2: "?e \<le> 1001" by (rule pow2_le_exponent)
  have q: "quantum \<bar>v\<bar> = 2 powi (?e - 52)" using e1 by (simp add: quantum_def max_def)
  have q0: "0 \<le> quantum \<bar>v\<bar>" unfolding q by simp
  let ?r = "round_half_even (\<bar>v\<bar> / quantum \<bar>v\<bar>)"
  have pw: "2 powi ?e = (2 ^ 52 * 2 powi (?e - 52) :: rat)" "2 powi (?e + 1) = (2 ^ 53 * 2 powi (?e - 52) :: rat)"
    by (simp_all add: power_int_diff power_int_add)
  have "2 ^ 52 \<le> ?r"
    unfolding q using lo pw(1) by (intro round_half_even_bounds(1)) (simp add: pos_le_divide_eq)
  moreover have "?r \<le> 2 ^ 53"
    unfolding q using up pw(2) by (intro round_half_even_bounds(2)) (simp add: pos_divide_le_eq)
  ultimately have r: "(2 ^ 52 :: rat) \<le> of_int ?r" "of_int ?r \<le> (2 ^ 53 :: rat)"
    by (metis of_int_le_iff of_int_numeral of_int_power)+
  define y where "y = of_int ?r * quantum \<bar>v\<bar>"
  have y1: "2 powi ?e \<le> y" unfolding pw(1) y_def q [symmetric] by (rule mult_right_mono [OF r(1) q0])
  have y2: "y \<le> 2 powi (?e + 1)" unfolding pw(2) y_def q [symmetric] by (rule mult_right_mono [OF r(2) q0])
  have "(2 :: rat) powi (?e + 1) < 2 powi 1024" using e2 by (intro power_int_strict_increasing) simp_all
  with y2 have "y < 2 ^ 1024" by simp
  moreover have "(2 :: rat) powi (- 1022) \<le> 2 powi ?e" using e1 by (intro power_int_increasing) simp_all
  then have "2 powi (- 1022) \<le> \<bar>y\<bar>" using y1 by linarith
  ultimately show ?thesis
    using v by (intro that [of "if v < 0 then - y else y"])
      (auto simp: double_of_rat_def Let_def y_def)
qed

text \<open>The numbers that can be printed and read back; the smallest and the largest of them lie far outside anything published.\<close>

definition number_ok :: "double \<Rightarrow> bool" where
  "number_ok v = (integral v \<or> (case v of Finite x \<Rightarrow> 2 powi (- 999) \<le> \<bar>x\<bar> \<and> \<bar>x\<bar> \<le> 2 powi 1000 | _ \<Rightarrow> True))"

definition reads_as :: "double \<Rightarrow> Json" where
  "reads_as v = (case v of Finite x \<Rightarrow> JNumber (if integral v then v else double_of_rat (decimal10 x)) | _ \<Rightarrow> JNull)"

lemma stod_sprintf_10g:
  assumes "2 powi (- 999) \<le> \<bar>x\<bar>" and "\<bar>x\<bar> \<le> 2 powi 1000"
  shows "stod (sprintf_10g x) = Some (double_of_rat (decimal10 x), length (sprintf_10g x))"
proof -
  have x: "0 < \<bar>x\<bar>" using assms(1) by (rule less_le_trans [rotated]) simp
  obtain m d where md: "digits10 x = (m, d)" by force
  let ?w = "of_int m * 10 powi (d - 9) :: rat"
  note b = digits10_bounds [OF _ md]
  have st: "strtod (sprintf_10g x) = Some (decimal10 x, length (sprintf_10g x))"
    using strtod_decimal_text [of m d] b x sprintf_10g_text [OF _ md] by (simp add: decimal10_def md)
  have w: "\<bar>decimal10 x\<bar> = ?w"
    using b(1) x by (simp add: decimal10_def md abs_mult)
  have "\<bar>?w - \<bar>x\<bar>\<bar> \<le> \<bar>x\<bar> / 2000000000" using b(3) x by simp
  then have "?w - \<bar>x\<bar> \<le> \<bar>x\<bar> / 2000000000" "\<bar>x\<bar> - ?w \<le> \<bar>x\<bar> / 2000000000"
    using abs_le_D1 abs_le_D2 by fastforce+
  then have le: "\<bar>x\<bar> / 2 \<le> ?w" "?w \<le> 2 * \<bar>x\<bar>" using x by linarith+
  have "(2 :: rat) powi (- 1000) = 2 powi (- 999) / 2"
    using power_int_diff [of "2 :: rat" "- 999" 1] by (simp only: power_int_1_right) simp
  also have "\<dots> \<le> \<bar>x\<bar> / 2" using assms(1) by (rule divide_right_mono) simp
  also have "\<dots> \<le> \<bar>decimal10 x\<bar>" unfolding w by (rule le(1))
  finally have lo: "2 powi (- 1000) \<le> \<bar>decimal10 x\<bar>" .
  have "\<bar>decimal10 x\<bar> \<le> 2 * \<bar>x\<bar>" unfolding w by (rule le(2))
  also have "\<dots> \<le> 2 * 2 powi 1000" using assms(2) by (rule mult_left_mono) simp
  also have "\<dots> = 2 powi 1001" using power_int_add [of "2 :: rat" 1000 1] by simp
  finally have "\<bar>decimal10 x\<bar> \<le> 2 powi 1001" .
  then obtain y where y: "double_of_rat (decimal10 x) = Finite y" "2 powi (- 1022) \<le> \<bar>y\<bar>"
    using double_of_rat_normal [OF lo] by blast
  have "\<not> out_of_range (decimal10 x)"
    unfolding out_of_range_def y(1) double.case using leD [OF y(2)] by blast
  then show ?thesis using st by (simp add: stod_def)
qed

lemma decimal_text_chars:
  "decimal_text m d \<noteq> [] \<and> (\<forall>c \<in> set (decimal_text m d). number_char c)"
proof -
  have d: "\<forall>c \<in> set (to_string_nat n). number_char c" for n
    using to_string_nat_digits number_char_digit by blast
  have f: "\<forall>c \<in> set s. number_char c \<Longrightarrow> \<forall>c \<in> set (fraction s). number_char c" for s
    using set_strip_zeros [of s] by (auto simp: fraction_def number_char_def)
  have td: "\<forall>c \<in> set (take n (to_string_nat k)). number_char c" "\<forall>c \<in> set (drop n (to_string_nat k)). number_char c" for n k
    using d by (meson in_set_takeD in_set_dropD)+
  have z: "\<forall>c \<in> set (replicate n CHR ''0'' @ to_string_nat k). number_char c" for n k
    using d by (auto simp: number_char_def is_digit_def)
  have l: "number_char CHR ''0''" "number_char CHR ''e''" "number_char CHR ''+''" "number_char CHR ''-''"
    by (simp_all add: number_char_def is_digit_def)
  show ?thesis
    unfolding decimal_text_def Let_def by (simp add: ball_Un d td f [OF td(2)] f [OF z] l)
qed

text \<open>Every number that can be read back is: integral ones exactly, the others as the printed decimal, infinities as null.\<close>

lemma parseNumber_written:
  assumes "number_ok (Finite x)" and "delimited rest"
  shows "parseNumber pos (writeNumber (Finite x) @ rest) =
    POk (reads_as (Finite x)) (pos + length (writeNumber (Finite x))) rest"
proof (cases "integral (Finite x)")
  case True
  then show ?thesis using parseNumber_integral [OF True assms(2)] by (simp add: reads_as_def)
next
  case False
  then have w: "writeNumber (Finite x) = sprintf_10g x" by (auto simp: writeNumber_def integral_def)
  have r: "2 powi (- 999) \<le> \<bar>x\<bar>" "\<bar>x\<bar> \<le> 2 powi 1000"
    using assms(1) False unfolding number_ok_def double.case by blast+
  have x: "x \<noteq> 0" using False by (auto simp: integral_def)
  obtain m d where md: "digits10 x = (m, d)" by force
  have "sprintf_10g x \<noteq> [] \<and> (\<forall>c \<in> set (sprintf_10g x). number_char c)"
    unfolding sprintf_10g_text [OF x md] using decimal_text_chars by (auto simp: number_char_def)
  then show ?thesis
    unfolding w using parseNumber_token [OF _ _ assms(2) stod_sprintf_10g [OF r]] False
    by (simp add: reads_as_def)
qed

text \<open>
  C12: A number the daemon publishes is read back: an integer below \<open>9 * 10 ^ 15\<close> in size, zero included, exactly, and any
  other finite value of a size between \<open>2 ^ -999\<close> and \<open>2 ^ 1000\<close> as the \<^verbatim>\<open>double\<close> nearest to a decimal within
  \<open>5 * 10 ^ -10\<close> of it (relative), which is ten significant digits.
\<close>

theorem number_roundtrip:
  assumes "x = of_int \<lfloor>x\<rfloor> \<and> \<bar>x\<bar> < 9000000000000000 \<or> 2 powi (- 999) \<le> \<bar>x\<bar> \<and> \<bar>x\<bar> \<le> 2 powi 1000" and "delimited rest"
  shows "\<exists>y. \<bar>y - x\<bar> \<le> \<bar>x\<bar> / (2 * 10 ^ 9) \<and>
    parseNumber pos (writeNumber (Finite x) @ rest) =
      POk (JNumber (if x = of_int \<lfloor>x\<rfloor> \<and> \<bar>x\<bar> < 9000000000000000 then Finite x else double_of_rat y))
        (pos + length (writeNumber (Finite x))) rest"
proof (rule exI [of _ "if x = 0 then 0 else decimal10 x"], rule conjI)
  show "\<bar>(if x = 0 then 0 else decimal10 x) - x\<bar> \<le> \<bar>x\<bar> / (2 * 10 ^ 9)"
  proof (cases "x = 0")
    case False
    obtain m d where md: "digits10 x = (m, d)" by force
    let ?w = "of_int m * 10 powi (d - 9) :: rat"
    have "decimal10 x - x = (if x < 0 then - 1 else 1) * (?w - \<bar>x\<bar>)"
      by (simp add: decimal10_def md algebra_simps)
    then have "\<bar>decimal10 x - x\<bar> = \<bar>?w - \<bar>x\<bar>\<bar>" by (simp add: abs_mult)
    then show ?thesis using digits10_bounds(3) [OF False md] False by simp
  qed simp
  have "number_ok (Finite x)" using assms(1) unfolding number_ok_def integral_def double.case by blast
  then show "parseNumber pos (writeNumber (Finite x) @ rest) =
      POk (JNumber (if x = of_int \<lfloor>x\<rfloor> \<and> \<bar>x\<bar> < 9000000000000000 then Finite x else double_of_rat (if x = 0 then 0 else decimal10 x)))
        (pos + length (writeNumber (Finite x))) rest"
    using parseNumber_written [OF _ assms(2)] by (simp add: reads_as_def integral_def)
qed

theorem number_roundtrip_witness:
  "(\<exists>y. \<bar>y - 25 / 2\<bar> \<le> (25 / 2 :: rat) / (2 * 10 ^ 9) \<and>
    parseNumber 0 (writeNumber (Finite (25 / 2)) @ '','') =
      POk (JNumber (double_of_rat y)) (length (writeNumber (Finite (25 / 2)))) '','') \<and>
   parseNumber 0 (writeNumber (Finite 0) @ '','') = POk (JNumber (Finite 0)) (length (writeNumber (Finite 0))) '',''"
proof -
  have "(2 :: rat) powi (- 999) \<le> 2 powi 3" "(2 :: rat) powi 4 \<le> 2 powi 1000"
    by (rule power_int_increasing; simp)+
  then have "(2 :: rat) powi (- 999) \<le> \<bar>25 / 2\<bar>" "\<bar>25 / 2\<bar> \<le> (2 :: rat) powi 1000"
    by (auto intro: order_trans)
  moreover have "delimited '',''" by (simp add: delimited_def number_char_def is_digit_def)
  moreover have "\<lfloor>25 / 2 :: rat\<rfloor> = 12" by (simp add: floor_eq_iff)
  ultimately show ?thesis
    using number_roundtrip [of "25 / 2" "'',''" 0] number_roundtrip [of 0 "'',''" 0] by simp
qed

end
