(* ===== verification/Json_Roundtrip.thy ===== *)
theory Json_Roundtrip
  imports Json_Numbers
begin

unbundle bit_operations_syntax

text \<open>
  Reading back what was written: hexadecimal escapes, UTF-8 sequences and surrogate pairs, strings,
  integral and decimal numbers, whole documents in compact and in indented form.
\<close>

section \<open>Bits of natural numbers\<close>

lemma or_low_bits:
  fixes a b :: nat
  assumes "b < 2 ^ n"
  shows "push_bit n a OR b = a * 2 ^ n + b"
proof -
  have b: "take_bit n b = b" using assms by (simp add: take_bit_nat_eq_self)
  have "push_bit n a AND take_bit n b = 0" by (rule bit_eqI) (auto simp: bit_simps)
  then have "push_bit n a AND b = 0" by (simp add: b)
  then have "push_bit n a OR b = push_bit n a + b" by (simp add: disjunctive_add_eq_or)
  then show ?thesis by (simp add: push_bit_eq_mult)
qed

lemma and_mask_mod:
  fixes a :: nat
  shows "a AND 0x3F = a mod 64" "a AND 0x1F = a mod 32" "a AND 0x0F = a mod 16" "a AND 0x07 = a mod 8"
    "a AND 0x3FF = a mod 1024"
  using take_bit_eq_mask [of 6 a] take_bit_eq_mask [of 5 a] take_bit_eq_mask [of 4 a] take_bit_eq_mask [of 3 a]
    take_bit_eq_mask [of 10 a]
  by (simp_all add: take_bit_eq_mod mask_eq_exp_minus_1)

lemma and_push_bit: "(x :: nat) AND push_bit n m = push_bit n (drop_bit n x AND m)"
  by (rule bit_eqI) (auto simp: bit_simps)

lemma and_high_mod:
  fixes x :: nat
  shows "x AND 0xE0 = x div 32 mod 8 * 32" "x AND 0xF0 = x div 16 mod 16 * 16"
    "x AND 0xF8 = x div 8 mod 32 * 8" "x AND 0xC0 = x div 64 mod 4 * 64"
  using and_push_bit [of x 5 7] and_push_bit [of x 4 15] and_push_bit [of x 3 31] and_push_bit [of x 6 3]
    take_bit_eq_mask [of 2 "x div 64"]
  by (simp_all add: push_bit_eq_mult drop_bit_eq_div and_mask_mod take_bit_eq_mod mask_eq_exp_minus_1)

lemma or_lead:
  fixes y :: nat
  shows "y < 32 \<Longrightarrow> 0xC0 OR y = 0xC0 + y" "y < 16 \<Longrightarrow> 0xE0 OR y = 0xE0 + y"
    "y < 8 \<Longrightarrow> 0xF0 OR y = 0xF0 + y" "y < 64 \<Longrightarrow> 0x80 OR y = 0x80 + y"
  using or_low_bits [of y 5 6] or_low_bits [of y 4 14] or_low_bits [of y 3 30] or_low_bits [of y 6 2]
  by (simp_all add: push_bit_eq_mult)

section \<open>Escapes\<close>

lemma hex_value_digit: "d < 16 \<Longrightarrow> hex_value (hex_digit d) = Some d"
  by (auto simp: hex_value_def hex_digit_def Let_def)

lemma hex_digit_0: "hex_digit 0 = CHR ''0''"
  by code_simp

lemma hex_nat_small: "n < 16 \<Longrightarrow> hex_nat n = [hex_digit n]"
  by (simp add: hex_nat.simps)

lemma hex_nat_large: "16 \<le> n \<Longrightarrow> hex_nat n = hex_nat (n div 16) @ [hex_digit (n mod 16)]"
  by (subst hex_nat.simps) simp

lemma sprintf_04x_digits:
  assumes "n < 0x10000"
  shows "sprintf_04x n = [hex_digit (n div 4096), hex_digit (n div 256 mod 16), hex_digit (n div 16 mod 16), hex_digit (n mod 16)]"
proof -
  have d: "n div 16 div 16 = n div 256" "n div 256 div 16 = n div 4096" by (simp_all flip: div_mult2_eq)
  consider "n < 16" | "16 \<le> n" "n < 256" | "256 \<le> n" "n < 4096" | "4096 \<le> n" using not_less by blast
  then show ?thesis
  proof cases
    case 1
    then show ?thesis by (simp add: sprintf_04x_def hex_nat_small hex_digit_0 numeral_3_eq_3)
  next
    case 2
    then have "n div 16 < 16" by (simp add: div_less_iff_less_mult)
    then have "hex_nat n = [hex_digit (n div 16), hex_digit (n mod 16)]"
      using 2 by (simp add: hex_nat_large [of n] hex_nat_small)
    with 2 \<open>n div 16 < 16\<close> show ?thesis by (simp add: sprintf_04x_def hex_digit_0 numeral_2_eq_2)
  next
    case 3
    then have "16 \<le> n div 16" "n div 256 < 16"
      by (simp_all add: less_eq_div_iff_mult_less_eq div_less_iff_less_mult)
    then have "hex_nat n = [hex_digit (n div 256), hex_digit (n div 16 mod 16), hex_digit (n mod 16)]"
      using 3 by (simp add: hex_nat_large [of n] hex_nat_large [of "n div 16"] hex_nat_small d)
    with 3 \<open>n div 256 < 16\<close> show ?thesis by (simp add: sprintf_04x_def hex_digit_0 numeral_2_eq_2)
  next
    case 4
    then have "16 \<le> n div 16" "16 \<le> n div 256" "n div 4096 < 16"
      using assms by (simp_all add: less_eq_div_iff_mult_less_eq div_less_iff_less_mult)
    then have "hex_nat n = [hex_digit (n div 4096), hex_digit (n div 256 mod 16), hex_digit (n div 16 mod 16), hex_digit (n mod 16)]"
      using 4 by (simp add: hex_nat_large [of n] hex_nat_large [of "n div 16"] hex_nat_large [of "n div 256"] hex_nat_small d)
    then show ?thesis by (simp add: sprintf_04x_def)
  qed
qed

lemma digits16:
  "(((n :: nat) div 4096 * 16 + n div 256 mod 16) * 16 + n div 16 mod 16) * 16 + n mod 16 = n"
proof -
  have "n div 4096 * 16 + n div 256 mod 16 = n div 256"
    using div_mult_mod_eq [of "n div 256" 16] by (simp flip: div_mult2_eq)
  moreover have "n div 256 * 16 + n div 16 mod 16 = n div 16"
    using div_mult_mod_eq [of "n div 16" 16] by (simp flip: div_mult2_eq)
  ultimately show ?thesis by simp
qed

lemma shift4: "d < 16 \<Longrightarrow> push_bit 4 a OR d = a * 16 + (d :: nat)"
  using or_low_bits [of d 4 a] by simp

lemma parseHex4_sprintf:
  assumes "n < 0x10000"
  shows "parseHex4 pos (sprintf_04x n @ rest) = POk n (pos + 4) rest"
proof -
  have "n div 4096 < 16" using assms by (simp add: div_less_iff_less_mult)
  then show ?thesis
    using digits16 [of n] or_low_bits [of "n div 4096" 4 0]
    by (simp add: parseHex4_def sprintf_04x_digits [OF assms] hex_value_digit shift4)
qed

lemma length_sprintf_04x: "n < 0x10000 \<Longrightarrow> length (sprintf_04x n) = 4"
  by (simp add: sprintf_04x_digits)

text \<open>A Unicode scalar value: a code point that is not half of a surrogate pair.\<close>

definition scalar :: "nat \<Rightarrow> bool" where
  "scalar cp \<longleftrightarrow> cp < 0x110000 \<and> \<not> (0xD800 \<le> cp \<and> cp \<le> 0xDFFF)"

lemma surrogate_pair:
  assumes "0x10000 \<le> cp" and "cp < 0x110000"
  shows "drop_bit 10 (cp - 0x10000) < 0x400"
    and "0x10000 + push_bit 10 (drop_bit 10 (cp - 0x10000)) + (cp - 0x10000) mod 1024 = (cp :: nat)"
proof -
  show "drop_bit 10 (cp - 0x10000) < 0x400"
    using assms by (simp add: drop_bit_eq_div div_less_iff_less_mult)
  show "0x10000 + push_bit 10 (drop_bit 10 (cp - 0x10000)) + (cp - 0x10000) mod 1024 = cp"
    using assms div_mult_mod_eq [of "cp - 0x10000" 1024] by (simp add: drop_bit_eq_div push_bit_eq_mult)
qed

lemma parse_escape_written:
  assumes "scalar cp"
  shows "\<exists>r. writeEscapedCodePoint cp = [backslash, CHR ''u''] @ r \<and>
    (\<forall>pos rest. parse_escape pos (r @ rest) = POk (appendUtf8 cp) (pos + length r) rest)"
proof (cases "cp < 0x10000")
  case True
  then have "parse_escape pos (sprintf_04x cp @ rest) = POk (appendUtf8 cp) (pos + length (sprintf_04x cp)) rest" for pos rest
    using assms by (auto simp: parse_escape_def parseHex4_sprintf bind_parsed_def scalar_def length_sprintf_04x)
  with True show ?thesis by (auto simp: writeEscapedCodePoint_def)
next
  case False
  let ?v = "cp - 0x10000"
  have pair: "drop_bit 10 ?v < 0x400" "0x10000 + push_bit 10 (drop_bit 10 ?v) + ?v mod 1024 = cp"
    using surrogate_pair False assms by (simp_all add: scalar_def)
  let ?hi = "sprintf_04x (0xD800 + drop_bit 10 ?v)" and ?lo = "sprintf_04x (0xDC00 + (?v AND 0x3FF))"
  let ?r = "?hi @ [backslash, CHR ''u''] @ ?lo"
  have "?v mod 1024 \<le> 1023" using mod_less_divisor [of 1024 ?v] by linarith
  then have "parse_escape pos (?r @ rest) = POk (appendUtf8 cp) (pos + length ?r) rest" for pos rest
    using pair by (simp add: parse_escape_def parseHex4_sprintf bind_parsed_def length_sprintf_04x and_mask_mod)
  with False show ?thesis by (auto simp: writeEscapedCodePoint_def Let_def)
qed

section \<open>Strings\<close>

lemma string_loop_escaped:
  assumes "scalar cp"
  shows "string_loop out pos (writeEscapedCodePoint cp @ rest) =
    string_loop (out @ appendUtf8 cp) (pos + length (writeEscapedCodePoint cp)) rest"
proof -
  obtain r where r: "writeEscapedCodePoint cp = [backslash, CHR ''u''] @ r"
    "\<And>pos rest. parse_escape pos (r @ rest) = POk (appendUtf8 cp) (pos + length r) rest"
    using parse_escape_written [OF assms] by blast
  show ?thesis using r(2) [of "Suc (Suc pos)"] by (simp add: r(1) simple_escape_def)
qed

lemma string_loop_escape_char:
  "string_loop out pos (escape_char c @ rest) = string_loop (out @ [c]) (pos + length (escape_char c)) rest"
proof (cases "of_char c < (0x20 :: nat) \<and> escape_char c = writeEscapedCodePoint (of_char c)")
  case True
  then have "scalar (of_char c)" "appendUtf8 (of_char c) = [c]"
    by (simp_all add: scalar_def appendUtf8_def)
  with True string_loop_escaped [of "of_char c" out pos rest] show ?thesis by simp
next
  case False
  then show ?thesis by (auto simp: escape_char_def simple_escape_def)
qed

lemma string_loop_raw:
  "string_loop out pos (write_chars False s @ rest) = string_loop (out @ s) (pos + length (write_chars False s)) rest"
proof (induction s arbitrary: out pos)
  case (Cons c s)
  show ?case by (simp add: string_loop_escape_char Cons add.assoc)
qed simp

text \<open>A byte sequence that is the UTF-8 form of a sequence of scalar values.\<close>

definition utf8 :: "string \<Rightarrow> bool" where
  "utf8 s \<longleftrightarrow> (\<exists>cps. (\<forall>cp \<in> set cps. scalar cp) \<and> s = concat (map appendUtf8 cps))"

lemma block_div_mod: "y < k \<Longrightarrow> (k * m + y) div k = m" "y < k \<Longrightarrow> (k * m + y) mod k = (y :: nat)"
  by simp_all

lemma lead_div_mod:
  fixes y :: nat
  shows "y < 32 \<Longrightarrow> (192 + y) div 32 = 6"
    "y < 32 \<Longrightarrow> (192 + y) mod 32 = y"
    "y < 16 \<Longrightarrow> (224 + y) div 32 = 7"
    "y < 16 \<Longrightarrow> (224 + y) div 16 = 14"
    "y < 16 \<Longrightarrow> (224 + y) mod 16 = y"
    "y < 8 \<Longrightarrow> (240 + y) div 32 = 7"
    "y < 8 \<Longrightarrow> (240 + y) div 16 = 15"
    "y < 8 \<Longrightarrow> (240 + y) div 8 = 30"
    "y < 8 \<Longrightarrow> (240 + y) mod 8 = y"
    "y < 64 \<Longrightarrow> (128 + y) div 64 = 2"
    "y < 64 \<Longrightarrow> (128 + y) mod 64 = y"
proof -
  show "y < 32 \<Longrightarrow> (192 + y) div 32 = 6" using block_div_mod(1) [of y 32 6] by simp
  show "y < 32 \<Longrightarrow> (192 + y) mod 32 = y" using block_div_mod(2) [of y 32 6] by simp
  show "y < 16 \<Longrightarrow> (224 + y) div 32 = 7" using block_div_mod(1) [of y 32 7] by simp
  show "y < 16 \<Longrightarrow> (224 + y) div 16 = 14" using block_div_mod(1) [of y 16 14] by simp
  show "y < 16 \<Longrightarrow> (224 + y) mod 16 = y" using block_div_mod(2) [of y 16 14] by simp
  show "y < 8 \<Longrightarrow> (240 + y) div 32 = 7" using block_div_mod(1) [of "16 + y" 32 7] by simp
  show "y < 8 \<Longrightarrow> (240 + y) div 16 = 15" using block_div_mod(1) [of y 16 15] by simp
  show "y < 8 \<Longrightarrow> (240 + y) div 8 = 30" using block_div_mod(1) [of y 8 30] by simp
  show "y < 8 \<Longrightarrow> (240 + y) mod 8 = y" using block_div_mod(2) [of y 8 30] by simp
  show "y < 64 \<Longrightarrow> (128 + y) div 64 = 2" using block_div_mod(1) [of y 64 2] by simp
  show "y < 64 \<Longrightarrow> (128 + y) mod 64 = y" using block_div_mod(2) [of y 64 2] by simp
qed

lemma utf8_continue_step:
  "y < 64 \<Longrightarrow> utf8_continue cp (char_of (0x80 + y) # bs) = utf8_continue (cp * 64 + y) bs"
  using or_low_bits [of y 6 cp] by (simp add: and_high_mod and_mask_mod lead_div_mod)

lemma utf8_bytes:
  "0x80 \<le> cp \<Longrightarrow> cp < 0x800 \<Longrightarrow> appendUtf8 cp = [char_of (0xC0 + cp div 64), char_of (0x80 + cp mod 64)]"
  "0x800 \<le> cp \<Longrightarrow> cp < 0x10000 \<Longrightarrow>
     appendUtf8 cp = [char_of (0xE0 + cp div 4096), char_of (0x80 + cp div 64 mod 64), char_of (0x80 + cp mod 64)]"
  "0x10000 \<le> cp \<Longrightarrow> cp < 0x110000 \<Longrightarrow>
     appendUtf8 cp = [char_of (0xF0 + cp div 262144), char_of (0x80 + cp div 4096 mod 64),
                      char_of (0x80 + cp div 64 mod 64), char_of (0x80 + cp mod 64)]"
  by (simp_all add: appendUtf8_def drop_bit_eq_div and_mask_mod or_lead div_less_iff_less_mult)

lemma write_chars_sequence:
  assumes "utf8_lead c = Some (y, length bs)" and "0x80 \<le> c" and "c < 256" and "utf8_continue y bs = Some cp"
  shows "write_chars True (char_of c # bs @ s) = writeEscapedCodePoint cp @ write_chars True s"
  using assms by (simp add: take_bit_eq_mod)

lemma write_chars_utf8:
  assumes "scalar cp"
  shows "write_chars True (appendUtf8 cp @ s) =
    (if cp < 0x80 then escape_char (char_of cp) else writeEscapedCodePoint cp) @ write_chars True s"
proof -
  have d: "cp div 64 div 64 = cp div 4096" "cp div 4096 div 64 = cp div 262144" by (simp_all flip: div_mult2_eq)
  have m: "cp div 4096 * 64 + cp div 64 mod 64 = cp div 64" "cp div 64 * 64 + cp mod 64 = cp"
    "cp div 262144 * 64 + cp div 4096 mod 64 = cp div 4096"
    using div_mult_mod_eq [of "cp div 64" 64] div_mult_mod_eq [of "cp div 4096" 64] by (simp_all add: d)
  consider "cp < 0x80" | "0x80 \<le> cp" "cp < 0x800" | "0x800 \<le> cp" "cp < 0x10000" | "0x10000 \<le> cp" "cp < 0x110000"
    using assms unfolding scalar_def by linarith
  then show ?thesis
  proof cases
    case 1
    then show ?thesis by (simp add: appendUtf8_def take_bit_eq_mod)
  next
    case 2
    then have "cp div 64 < 32" by (simp add: div_less_iff_less_mult)
    then have lead: "utf8_lead (0xC0 + cp div 64) = Some (cp div 64, 1)"
      by (simp add: utf8_lead_def and_high_mod and_mask_mod lead_div_mod)
    have cont: "utf8_continue (cp div 64) [char_of (0x80 + cp mod 64)] = Some cp"
      using m by (simp add: utf8_continue_step del: utf8_continue.simps(2))
    show ?thesis
      using write_chars_sequence [of "0xC0 + cp div 64", OF _ _ _ cont, of s] lead \<open>cp div 64 < 32\<close> 2
      by (simp add: utf8_bytes del: write_chars.simps)
  next
    case 3
    then have "cp div 4096 < 16" by (simp add: div_less_iff_less_mult)
    then have lead: "utf8_lead (0xE0 + cp div 4096) = Some (cp div 4096, 2)"
      by (simp add: utf8_lead_def and_high_mod and_mask_mod lead_div_mod)
    have cont: "utf8_continue (cp div 4096) [char_of (0x80 + cp div 64 mod 64), char_of (0x80 + cp mod 64)] = Some cp"
      using m by (simp add: utf8_continue_step del: utf8_continue.simps(2))
    show ?thesis
      using write_chars_sequence [of "0xE0 + cp div 4096", OF _ _ _ cont, of s] lead \<open>cp div 4096 < 16\<close> 3
      by (simp add: utf8_bytes del: write_chars.simps)
  next
    case 4
    then have "cp div 262144 < 8" by (simp add: div_less_iff_less_mult)
    then have lead: "utf8_lead (0xF0 + cp div 262144) = Some (cp div 262144, 3)"
      by (simp add: utf8_lead_def and_high_mod and_mask_mod lead_div_mod)
    have cont: "utf8_continue (cp div 262144) [char_of (0x80 + cp div 4096 mod 64), char_of (0x80 + cp div 64 mod 64), char_of (0x80 + cp mod 64)] = Some cp"
      using m by (simp add: utf8_continue_step del: utf8_continue.simps(2))
    show ?thesis
      using write_chars_sequence [of "0xF0 + cp div 262144", OF _ _ _ cont, of s] lead \<open>cp div 262144 < 8\<close> 4
      by (simp add: utf8_bytes del: write_chars.simps)
  qed
qed

lemma string_loop_ascii:
  assumes "\<forall>cp \<in> set cps. scalar cp" and "s = concat (map appendUtf8 cps)"
  shows "string_loop out pos (write_chars True s @ rest) = string_loop (out @ s) (pos + length (write_chars True s)) rest"
  using assms
proof (induction cps arbitrary: s out pos)
  case (Cons cp cps)
  let ?e = "if cp < 0x80 then escape_char (char_of cp) else writeEscapedCodePoint cp"
  let ?t = "concat (map appendUtf8 cps)"
  have cp: "scalar cp" using Cons.prems by simp
  have e: "string_loop out pos (?e @ r) = string_loop (out @ appendUtf8 cp) (pos + length ?e) r" for out pos r
    using string_loop_escaped [OF cp] by (simp add: string_loop_escape_char appendUtf8_def)
  have s: "s = appendUtf8 cp @ ?t" using Cons.prems by simp
  have w: "write_chars True s = ?e @ write_chars True ?t"
    unfolding s by (rule write_chars_utf8 [OF cp])
  have "string_loop (out @ appendUtf8 cp) (pos + length ?e) (write_chars True ?t @ rest) =
      string_loop ((out @ appendUtf8 cp) @ ?t) (pos + length ?e + length (write_chars True ?t)) rest"
    using Cons.prems by (intro Cons.IH) simp_all
  then show ?case unfolding w append_assoc e by (simp add: s add.assoc del: string_loop.simps)
qed simp

definition string_ok :: "bool \<Rightarrow> string \<Rightarrow> bool" where
  "string_ok asciiOnly s \<longleftrightarrow> \<not> asciiOnly \<or> utf8 s"

lemma parseString_written:
  assumes "string_ok asciiOnly s"
  shows "parseString pos (writeString asciiOnly s @ rest) = POk s (pos + length (writeString asciiOnly s)) rest"
proof -
  have "string_loop [] p (write_chars asciiOnly s @ r) = string_loop ([] @ s) (p + length (write_chars asciiOnly s)) r" for p r
    using assms string_loop_ascii [of _ s "[]"] string_loop_raw [of "[]" _ s]
    by (cases asciiOnly) (auto simp: string_ok_def utf8_def)
  from this [of "pos + 1" "quote # rest"] show ?thesis
    by (simp add: parseString_def writeString_def)
qed

section \<open>Documents\<close>

text \<open>The value read back, and the documents that can be: every string and number is one that can.\<close>

fun reread :: "Json \<Rightarrow> Json" where
  "reread (JNumber v) = reads_as v"
| "reread (JArray xs) = JArray (map reread xs)"
| "reread (JObject ms) = JObject (map (\<lambda>m. (fst m, reread (snd m))) ms)"
| "reread j = j"

fun writable :: "bool \<Rightarrow> Json \<Rightarrow> bool" where
  "writable asciiOnly (JNumber v) = number_ok v"
| "writable asciiOnly (JString s) = string_ok asciiOnly s"
| "writable asciiOnly (JArray xs) = (\<forall>x \<in> set xs. writable asciiOnly x)"
| "writable asciiOnly (JObject ms) = (\<forall>m \<in> set ms. string_ok asciiOnly (fst m) \<and> writable asciiOnly (snd m))"
| "writable asciiOnly j = True"

definition blank :: "string \<Rightarrow> bool" where
  "blank w \<longleftrightarrow> (\<forall>c \<in> set w. is_ws c)"

lemma blank_pad [simp]: "blank (pretty_pad indent depth)" "blank []" "blank '' ''"
  by (auto simp: blank_def pretty_pad_def is_ws_def)

lemma skip_blank:
  assumes "blank w" and "\<not> is_ws c"
  shows "skip_ws (w @ c # s) = c # s" and "skip_pos pos (w @ c # s) = pos + length w"
  using assms by (simp_all add: blank_def skip_pos_def)

text \<open>A written value starts with a character that is neither white space nor a closing bracket.\<close>

definition opens_value :: "string \<Rightarrow> bool" where
  "opens_value s \<longleftrightarrow> (\<exists>c r. s = c # r \<and> \<not> is_ws c \<and> c \<noteq> CHR '']'' \<and> c \<noteq> CHR ''}'')"

lemma number_char_opening:
  "number_char c \<Longrightarrow> \<not> is_ws c \<and> c \<notin> {CHR ''n'', CHR ''t'', CHR ''f'', quote, CHR ''['', CHR ''{'', CHR '']'', CHR ''}''}"
  by (auto simp: number_char_def is_ws_def is_digit_def)

lemma writeNumber_chars:
  "writeNumber (Finite x) \<noteq> [] \<and> (\<forall>c \<in> set (writeNumber (Finite x)). number_char c)"
proof (cases "x = of_int \<lfloor>x\<rfloor> \<and> \<bar>x\<bar> < 9000000000000000")
  case True
  then show ?thesis using to_string_int_chars by (simp add: writeNumber_def)
next
  case False
  then have x: "x \<noteq> 0" by auto
  obtain m d where md: "digits10 x = (m, d)" by force
  show ?thesis
    using False decimal_text_chars sprintf_10g_text [OF x md] by (auto simp: writeNumber_def number_char_def)
qed

lemma opening_write: "opens_value (writeJson indent depth asciiOnly j)"
proof (cases j)
  case (JNumber v)
  show ?thesis
  proof (cases v)
    case (Finite x)
    then show ?thesis using JNumber writeNumber_chars [of x] number_char_opening
      by (cases "writeNumber (Finite x)") (auto simp: opens_value_def)
  qed (simp_all add: JNumber writeNumber_def opens_value_def is_ws_def)
qed (auto simp: opens_value_def writeString_def is_ws_def)

lemma join_Cons: "join (x # xs) = x @ concat (map (\<lambda>y. '','' @ y) xs)"
  by (induction xs arbitrary: x) simp_all

lemma delimited_simps [simp]:
  "delimited (CHR '','' # r)" "delimited (CHR '']'' # r)" "delimited (CHR ''}'' # r)" "delimited (CHR 0x0A # r)" "delimited []"
  by (simp_all add: delimited_def number_char_def is_digit_def)

lemma delimited_pad: "c \<in> {CHR '']'', CHR ''}''} \<Longrightarrow> delimited (pretty_pad indent depth @ c # r)"
  by (auto simp: pretty_pad_def)

text \<open>The property of the parser of one value that the element loops rely on.\<close>

definition reads :: "(nat \<Rightarrow> string \<Rightarrow> Json parsed) \<Rightarrow> string \<Rightarrow> Json \<Rightarrow> bool" where
  "reads pv t v \<longleftrightarrow> (\<forall>pos w rest. blank w \<longrightarrow> delimited rest \<longrightarrow>
     pv pos (w @ t @ rest) = POk v (pos + length w + length t) rest)"

lemma readsD: "reads pv t v \<Longrightarrow> blank w \<Longrightarrow> delimited rest \<Longrightarrow>
    pv pos (w @ t @ rest) = POk v (pos + length w + length t) rest"
  by (simp add: reads_def)

lemma after_element_comma:
  "after_element what close again out pos (CHR '','' # r) = again (pos + 1) r"
  by (simp add: after_element_def is_ws_def skip_pos_def)

lemma after_element_close:
  assumes "c \<in> {CHR '']'', CHR ''}''}"
  shows "after_element what c again out pos (pretty_pad indent depth @ c # r) =
    POk out (pos + length (pretty_pad indent depth) + 1) r"
proof -
  have "\<not> is_ws c" "c \<noteq> CHR '',''" using assms by (auto simp: is_ws_def)
  then show ?thesis by (simp add: after_element_def skip_blank)
qed

lemma array_loop_reads:
  assumes "blank w" and "\<forall>x \<in> set (x # xs). reads pv (t x) (f x)" and "length xs < n"
  shows "array_loop pv n (JArray acc) pos
      (w @ t x @ concat (map (\<lambda>y. '','' @ pretty_pad indent d @ t y) xs) @ pretty_pad indent e @ CHR '']'' # rest) =
    POk (JArray (acc @ map f (x # xs)))
      (pos + length w + length (t x) + length (concat (map (\<lambda>y. '','' @ pretty_pad indent d @ t y) xs)) +
       length (pretty_pad indent e) + 1) rest"
  using assms
proof (induction xs arbitrary: x w acc pos n)
  case Nil
  then obtain n' where n: "n = Suc n'" by (cases n) auto
  from Nil have "reads pv (t x) (f x)" by simp
  from readsD [OF this Nil(1) delimited_pad [of "CHR '']''"]] show ?case
    by (simp add: n bind_parsed_def Json_push_def after_element_close Let_def)
next
  case (Cons y ys)
  then obtain n' where n: "n = Suc n'" "length ys < n'" by (cases n) auto
  from Cons.prems have "reads pv (t x) (f x)" by simp
  from readsD [OF this Cons.prems(1), of "CHR '','' # _"]
  have "pv pos (w @ t x @ CHR '','' # r) = POk (f x) (pos + length w + length (t x)) (CHR '','' # r)" for r by simp
  then show ?case
    using Cons.prems(2) n(2) Cons.IH [OF blank_pad(1) _ n(2), of y "acc @ [f x]" "pos + length w + length (t x) + 1" indent d]
    by (simp add: n(1) bind_parsed_def Json_push_def after_element_comma Let_def add.assoc)
qed

text \<open>One member of an object as it is written, and as the loop reads it.\<close>

definition member_text :: "int \<Rightarrow> bool \<Rightarrow> string \<Rightarrow> string \<Rightarrow> string" where
  "member_text indent asciiOnly key t = writeString asciiOnly key @ '':'' @ (if indent \<ge> 0 then '' '' else '''') @ t"

lemma expect_colon_written: "expect_colon pos (CHR '':'' # r) = POk () (pos + 1) r"
  by (simp add: expect_colon_def skip_pos_def is_ws_def)

lemma object_loop_member:
  assumes "blank w" and "string_ok asciiOnly key" and "reads pv t v" and "delimited rest"
  shows "object_loop pv (Suc n) (JObject acc) pos (w @ member_text indent asciiOnly key t @ rest) =
    after_element ''object'' CHR ''}'' (object_loop pv n (Json_set key v (JObject acc)))
      (Json_set key v (JObject acc)) (pos + length w + length (member_text indent asciiOnly key t)) rest"
proof -
  let ?sp = "if indent \<ge> 0 then '' '' else ''''"
  obtain q where q: "writeString asciiOnly key = quote # q" by (simp add: writeString_def)
  have "\<not> is_ws quote" by (simp add: is_ws_def)
  then have skip: "skip_ws (w @ writeString asciiOnly key @ r) = writeString asciiOnly key @ r"
    "skip_pos pos (w @ writeString asciiOnly key @ r) = pos + length w" for r
    using skip_blank [OF assms(1)] by (simp_all add: q)
  have sp: "blank ?sp" by (simp add: blank_def is_ws_def)
  have pv: "pv p (?sp @ t @ rest) = POk v (p + length ?sp + length t) rest" for p
    using assms(3) sp assms(4) by (rule readsD)
  show ?thesis
    unfolding member_text_def append_assoc object_loop.simps skip parseString_written [OF assms(2)]
    using pv [of "pos + length w + length (writeString asciiOnly key) + 1"]
    by (simp add: bind_parsed_def expect_colon_written Let_def add.assoc)
qed

lemma object_loop_reads:
  assumes "blank w" and "\<forall>x \<in> set (x # xs). string_ok asciiOnly (k x) \<and> reads pv (t x) (f x)" and "length xs < n"
    and "distinct (map fst acc @ map k (x # xs))"
  shows "object_loop pv n (JObject acc) pos
      (w @ member_text indent asciiOnly (k x) (t x) @
       concat (map (\<lambda>y. '','' @ pretty_pad indent d @ member_text indent asciiOnly (k y) (t y)) xs) @
       pretty_pad indent e @ CHR ''}'' # rest) =
    POk (JObject (acc @ map (\<lambda>y. (k y, f y)) (x # xs)))
      (pos + length w + length (member_text indent asciiOnly (k x) (t x)) +
       length (concat (map (\<lambda>y. '','' @ pretty_pad indent d @ member_text indent asciiOnly (k y) (t y)) xs)) +
       length (pretty_pad indent e) + 1) rest"
  using assms
proof (induction xs arbitrary: x w acc pos n)
  case Nil
  then obtain n' where n: "n = Suc n'" by (cases n) auto
  have "Json_set (k x) (f x) (JObject acc) = JObject (acc @ [(k x, f x)])"
    using Nil.prems(4) by (simp add: Json_set_def set_member_new)
  then show ?case
    using Nil.prems object_loop_member [OF Nil.prems(1) _ _ delimited_pad [of "CHR ''}''"], of asciiOnly "k x" pv "t x" "f x"]
    by (simp add: n after_element_close del: object_loop.simps)
next
  case (Cons y ys)
  then obtain n' where n: "n = Suc n'" "length ys < n'" by (cases n) auto
  have acc: "Json_set (k x) (f x) (JObject acc) = JObject (acc @ [(k x, f x)])"
    using Cons.prems(4) by (simp add: Json_set_def set_member_new)
  have "object_loop pv n (JObject acc) pos (w @ member_text indent asciiOnly (k x) (t x) @ CHR '','' # r) =
      object_loop pv n' (JObject (acc @ [(k x, f x)])) (pos + length w + length (member_text indent asciiOnly (k x) (t x)) + 1) r" for r
    using Cons.prems object_loop_member [OF Cons.prems(1), of asciiOnly "k x" pv "t x" "f x" "CHR '','' # r"]
    by (simp add: n(1) acc after_element_comma del: object_loop.simps)
  then show ?case
    using Cons.prems(2,4) Cons.IH [OF blank_pad(1) _ n(2), of y "acc @ [(k x, f x)]"
        "pos + length w + length (member_text indent asciiOnly (k x) (t x)) + 1" indent d]
    by (simp add: add.assoc del: object_loop.simps)
qed

lemma after_open_loop:
  assumes "blank w" and "opens_value t" and "c \<in> {CHR '']'', CHR ''}''}"
  shows "after_open c none loop pos (b # w @ t @ r) = loop (pos + 1 + length w) (t @ r)"
proof -
  obtain a q where a: "t = a # q" "\<not> is_ws a" "a \<noteq> c" using assms(2,3) by (auto simp: opens_value_def)
  show ?thesis
    using skip_blank [OF assms(1) a(2)] a(3) by (simp add: after_open_def Let_def a(1))
qed

lemma length_concat_ge: "(\<forall>y. t y \<noteq> []) \<Longrightarrow> length xs \<le> length (concat (map t xs))"
proof (induction xs)
  case (Cons x xs)
  then have "length xs \<le> length (concat (map t xs))" "0 < length (t x)" by auto
  then have "Suc (length xs) \<le> length (t x) + length (concat (map t xs))" by linarith
  then show ?case by simp
qed simp

text \<open>The cases of \<^verbatim>\<open>parseValueInner\<close> on the text of a value, after the white space before it.\<close>

lemma reads_innerI:
  assumes "opens_value t"
    and "\<And>pos rest. delimited rest \<Longrightarrow> parseValueInner pv pos (t @ rest) = POk v (pos + length t) rest"
  shows "reads (parseValueInner pv) t v"
  unfolding reads_def
proof (intro allI impI)
  fix pos w rest assume w: "blank w" and r: "delimited rest"
  obtain c q where c: "t = c # q" "\<not> is_ws c" using assms(1) by (auto simp: opens_value_def)
  have "skip_ws (t @ rest) = t @ rest" "skip_pos p (t @ rest) = p" for p
    using c by (simp_all add: skip_pos_def)
  moreover have "skip_ws (w @ t @ rest) = t @ rest" "skip_pos pos (w @ t @ rest) = pos + length w"
    using skip_blank [OF w c(2)] by (simp_all add: c(1))
  ultimately have "parseValueInner pv pos (w @ t @ rest) = parseValueInner pv (pos + length w) (t @ rest)"
    by (simp only: parseValueInner_def)
  then show "parseValueInner pv pos (w @ t @ rest) = POk v (pos + length w + length t) rest"
    using assms(2) [OF r] by simp
qed

lemma inner_dispatch:
  assumes "\<not> is_ws c"
  shows "parseValueInner pv pos (c # r) =
    (if c = CHR ''n'' then bind_parsed (literal ''null'' pos (c # r)) (\<lambda>_. POk JNull)
     else if c = CHR ''t'' then bind_parsed (literal ''true'' pos (c # r)) (\<lambda>_. POk (JBool True))
     else if c = CHR ''f'' then bind_parsed (literal ''false'' pos (c # r)) (\<lambda>_. POk (JBool False))
     else if c = quote then bind_parsed (parseString pos (c # r)) (\<lambda>v. POk (JString v))
     else if c = CHR ''['' then parseArray pv pos (c # r)
     else if c = CHR ''{'' then parseObject pv pos (c # r)
     else parseNumber pos (c # r))"
  using assms by (simp add: parseValueInner_def skip_pos_def)

lemma inner_number:
  assumes "number_ok v" and "delimited rest"
  shows "parseValueInner pv pos (writeNumber v @ rest) = POk (reads_as v) (pos + length (writeNumber v)) rest"
proof (cases v)
  case (Finite x)
  obtain c r where c: "writeNumber (Finite x) = c # r" "number_char c"
    using writeNumber_chars [of x] by (cases "writeNumber (Finite x)") auto
  have "parseValueInner pv pos (c # r @ rest) = parseNumber pos (c # r @ rest)"
    using number_char_opening [OF c(2)] by (simp add: inner_dispatch)
  then show ?thesis using parseNumber_written [of x rest pos] assms by (simp add: Finite c(1))
qed (simp_all add: writeNumber_def reads_as_def inner_dispatch is_ws_def literal_def bind_parsed_def)

lemma inner_string:
  assumes "string_ok asciiOnly s"
  shows "parseValueInner pv pos (writeString asciiOnly s @ rest) = POk (JString s) (pos + length (writeString asciiOnly s)) rest"
proof -
  have q: "writeString asciiOnly s = quote # tl (writeString asciiOnly s)" by (simp add: writeString_def)
  have "parseValueInner pv pos (writeString asciiOnly s @ rest) =
      bind_parsed (parseString pos (writeString asciiOnly s @ rest)) (\<lambda>v. POk (JString v))"
    by (subst (1 2) q) (simp add: inner_dispatch is_ws_def)
  then show ?thesis by (simp add: parseString_written [OF assms] bind_parsed_def)
qed

lemma inner_array:
  assumes "\<forall>x \<in> set xs. reads pv (writeJson indent (Suc depth) asciiOnly x) (f x)"
  shows "parseValueInner pv pos (writeJson indent depth asciiOnly (JArray xs) @ rest) =
    POk (JArray (map f xs)) (pos + length (writeJson indent depth asciiOnly (JArray xs))) rest"
proof (cases xs)
  case Nil
  then show ?thesis by (simp add: inner_dispatch is_ws_def parseArray_def after_open_def skip_pos_def)
next
  case (Cons x ys)
  let ?t = "writeJson indent (Suc depth) asciiOnly"
  let ?pad = "pretty_pad indent (Suc depth)"
  let ?c = "concat (map (\<lambda>y. '','' @ ?pad @ ?t y) ys)"
  have t: "writeJson indent depth asciiOnly (JArray xs) = ''['' @ ?pad @ ?t x @ ?c @ pretty_pad indent depth @ '']''"
    by (simp add: Cons join_Cons o_def)
  have n: "length ys < length (''['' @ ?pad @ ?t x @ ?c @ pretty_pad indent depth @ CHR '']'' # rest)" (is "_ < ?n")
    using length_concat_ge [of "\<lambda>y. '','' @ ?pad @ ?t y" ys] by simp
  have "parseArray pv pos (''['' @ ?pad @ ?t x @ ?c @ pretty_pad indent depth @ CHR '']'' # rest) =
      array_loop pv ?n (JArray []) (pos + 1 + length ?pad) (?t x @ ?c @ pretty_pad indent depth @ CHR '']'' # rest)"
    unfolding parseArray_def using after_open_loop [OF blank_pad(1) opening_write] by simp
  also have "\<dots> = POk (JArray ([] @ map f (x # ys)))
      (pos + 1 + length ?pad + length ([] :: string) + length (?t x) + length ?c + length (pretty_pad indent depth) + 1) rest"
    using array_loop_reads [OF blank_pad(2) _ n, of x pv ?t f "[]" "pos + 1 + length ?pad" indent "Suc depth" depth rest]
      assms by (simp add: Cons)
  finally show ?thesis unfolding t by (simp add: inner_dispatch is_ws_def Cons)
qed

lemma inner_object:
  assumes "\<forall>m \<in> set ms. string_ok asciiOnly (fst m) \<and> reads pv (writeJson indent (Suc depth) asciiOnly (snd m)) (f m)"
    and "distinct (map fst ms)"
  shows "parseValueInner pv pos (writeJson indent depth asciiOnly (JObject ms) @ rest) =
    POk (JObject (map (\<lambda>m. (fst m, f m)) ms)) (pos + length (writeJson indent depth asciiOnly (JObject ms))) rest"
proof (cases ms)
  case Nil
  then show ?thesis by (simp add: inner_dispatch is_ws_def parseObject_def after_open_def skip_pos_def)
next
  case (Cons x ys)
  let ?w = "\<lambda>m. writeJson indent (Suc depth) asciiOnly (snd m)"
  let ?t = "\<lambda>m. member_text indent asciiOnly (fst m) (?w m)"
  let ?pad = "pretty_pad indent (Suc depth)"
  let ?c = "concat (map (\<lambda>y. '','' @ ?pad @ ?t y) ys)"
  have t: "writeJson indent depth asciiOnly (JObject ms) = ''{'' @ ?pad @ ?t x @ ?c @ pretty_pad indent depth @ ''}''"
    by (simp add: Cons join_Cons o_def member_text_def)
  have o: "opens_value (?t x)" by (simp add: opens_value_def member_text_def writeString_def is_ws_def)
  have n: "length ys < length (''{'' @ ?pad @ ?t x @ ?c @ pretty_pad indent depth @ CHR ''}'' # rest)" (is "_ < ?n")
    using length_concat_ge [of "\<lambda>y. '','' @ ?pad @ ?t y" ys] by simp
  have "parseObject pv pos (''{'' @ ?pad @ ?t x @ ?c @ pretty_pad indent depth @ CHR ''}'' # rest) =
      object_loop pv ?n (JObject []) (pos + 1 + length ?pad) (?t x @ ?c @ pretty_pad indent depth @ CHR ''}'' # rest)"
    unfolding parseObject_def using after_open_loop [OF blank_pad(1) o] by simp
  also have "\<dots> = POk (JObject ([] @ map (\<lambda>m. (fst m, f m)) (x # ys)))
      (pos + 1 + length ?pad + length ([] :: string) + length (?t x) + length ?c + length (pretty_pad indent depth) + 1) rest"
    using object_loop_reads [OF blank_pad(2) _ n, of x asciiOnly fst pv ?w f "[]" "pos + 1 + length ?pad" indent "Suc depth" depth rest]
      assms by (simp add: Cons)
  finally show ?thesis unfolding t by (simp add: inner_dispatch is_ws_def Cons)
qed

lemma parseValue_written:
  "well_formed n j \<Longrightarrow> writable asciiOnly j \<Longrightarrow> reads (parseValue n) (writeJson indent depth asciiOnly j) (reread j)"
proof (induction n arbitrary: j depth)
  case (Suc n)
  have eq: "parseValue (Suc n) = parseValueInner (parseValue n)" by (intro ext) simp
  show ?case
    unfolding eq
  proof (rule reads_innerI [OF opening_write])
    fix pos rest assume r: "delimited rest"
    show "parseValueInner (parseValue n) pos (writeJson indent depth asciiOnly j @ rest) =
      POk (reread j) (pos + length (writeJson indent depth asciiOnly j)) rest"
    proof (cases j)
      case (JNumber v)
      then show ?thesis using Suc.prems r by (simp add: inner_number)
    next
      case (JString s)
      then show ?thesis using Suc.prems by (simp add: inner_string)
    next
      case (JArray xs)
      then have "\<forall>x \<in> set xs. reads (parseValue n) (writeJson indent (Suc depth) asciiOnly x) (reread x)"
        using Suc by (auto simp: built_def)
      from inner_array [OF this] show ?thesis by (simp add: JArray del: writeJson.simps)
    next
      case (JObject ms)
      then have "\<forall>m \<in> set ms. string_ok asciiOnly (fst m) \<and>
          reads (parseValue n) (writeJson indent (Suc depth) asciiOnly (snd m)) (reread (snd m))"
        using Suc by (auto simp: built_def)
      moreover have "distinct (map fst ms)" using Suc.prems JObject by (simp add: built_def)
      ultimately have "parseValueInner (parseValue n) pos (writeJson indent depth asciiOnly (JObject ms) @ rest) =
          POk (JObject (map (\<lambda>m. (fst m, reread (snd m))) ms)) (pos + length (writeJson indent depth asciiOnly (JObject ms))) rest"
        by (rule inner_object)
      then show ?thesis by (simp add: JObject del: writeJson.simps)
    qed (simp_all add: inner_dispatch is_ws_def literal_def bind_parsed_def)
  qed
qed simp

lemma parse_document_written:
  assumes "well_formed 64 j" and "writable asciiOnly j"
  shows "parse_document (dump indent asciiOnly j) = POk (reread j) (length (dump indent asciiOnly j)) []"
proof -
  have "parseValue 64 0 ([] @ writeJson indent 0 asciiOnly j @ []) =
      POk (reread j) (0 + length ([] :: string) + length (writeJson indent 0 asciiOnly j)) []"
    by (rule readsD [OF parseValue_written [OF assms]]) simp_all
  then show ?thesis
    by (simp add: parse_document_def dump_def bind_parsed_def skip_pos_def del: parseValue.simps)
qed

interpretation json: codec "dump indent asciiOnly" "\<lambda>t. case parse_document t of POk v _ _ \<Rightarrow> Some v | _ \<Rightarrow> None"
  "\<lambda>j. well_formed 64 j \<and> writable asciiOnly j \<and> reread j = j" for indent asciiOnly
  by unfold_locales (simp add: parse_document_written)

lemma appendUtf8_ascii: "of_char c < (0x80 :: nat) \<Longrightarrow> appendUtf8 (of_char c) = [c]"
  by (simp add: appendUtf8_def)

lemma utf8_ascii:
  assumes "\<forall>c \<in> set s. of_char c < (0x80 :: nat)"
  shows "utf8 s"
proof -
  have "concat (map appendUtf8 (map of_char s)) = s"
    using assms by (induction s) (simp_all add: appendUtf8_ascii)
  moreover have "\<forall>cp \<in> set (map of_char s). scalar cp" using assms by (auto simp: scalar_def)
  ultimately show ?thesis unfolding utf8_def by metis
qed

lemma built_mono: "(\<And>x. P x \<Longrightarrow> Q x) \<Longrightarrow> built P j \<Longrightarrow> built Q j"
  by (auto simp: built_def split: Json.splits)

lemma well_formed_Suc: "well_formed n j \<Longrightarrow> well_formed (Suc n) j"
proof (induction n arbitrary: j)
  case (Suc n)
  from Suc.prems have "built (well_formed n) j" by simp
  then have "built (well_formed (Suc n)) j" by (rule built_mono [rotated]) (rule Suc.IH)
  then show ?case by simp
qed simp

lemma well_formed_mono: "n \<le> m \<Longrightarrow> well_formed n j \<Longrightarrow> well_formed m j"
  by (induction rule: dec_induct) (simp_all add: well_formed_Suc del: well_formed.simps)

lemma well_formed_3: "well_formed (Suc (Suc (Suc 0))) j \<Longrightarrow> well_formed 64 j"
  by (rule well_formed_mono [of "Suc (Suc (Suc 0))"]) simp_all



end
