(* ===== verification/Config.thy ===== *)
theory Config
  imports Monitor_Invariant Json_Parser "HOL-Library.List_Lexorder" "HOL-Library.Char_ord"
begin

text \<open>
  The configuration part of \<^verbatim>\<open>monitor.cpp\<close>: reading the widgets' files, carrying results over, sharing
  probers between destinations, watching the directory and dropping widgets that went away.
  \<^verbatim>\<open>std::sort\<close> by id is \<open>sort_key\<close>: ids are distinct because file names are, so no order among equal ids
  is relied on.  Strings are compared by the unsigned values of their bytes, as \<^verbatim>\<open>std::string\<close> does.
\<close>

section \<open>Client files\<close>

definition proberKey :: "string \<Rightarrow> u64 \<Rightarrow> u64 \<Rightarrow> string" where
  "proberKey host intervalUs timeoutUs =
     host @ [CHR 0x1F] @ to_string_u64 intervalUs @ [CHR 0x1F] @ to_string_u64 timeoutUs"

text \<open>The conversion of a \<^verbatim>\<open>long long\<close> to \<^verbatim>\<open>int\<close> keeps the low 32 bits.\<close>

definition cast_int :: "int \<Rightarrow> int" where
  "cast_int x = (x + 2 ^ 31) mod 2 ^ 32 - 2 ^ 31"

definition loadDestination :: "(rat \<Rightarrow> int) \<Rightarrow> nat \<Rightarrow> Json \<Rightarrow> Destination option" where
  "loadDestination wild i entry =
     (if \<not> isObject entry then None
      else let address = trimmed (toString '''' (Json_get entry ''address''))
           in if address = '''' then None
              else let given = toString '''' (Json_get entry ''id'');
                       ident = (if given = '''' then ''d'' @ to_string_nat i else given)
                   in Some (Destination_default\<lparr>
                        d_id := ident,
                        d_name := toString address (Json_get entry ''name''),
                        d_address := address,
                        d_order := cast_int (toInt wild (int i) (Json_get entry ''order'')),
                        d_thresholdUs := of_int (clampValue (toInt wild 1000 (Json_get entry ''threshold_us'')) 1 60000000),
                        d_sensitivity := clampValue (toInt wild 3 (Json_get entry ''sensitivity'')) 0 1000,
                        d_enabled := (if isNull (Json_get entry ''enabled'') then True
                                      else toBool True (Json_get entry ''enabled'')),
                        d_partTime := toBool False (Json_get entry ''part_time'')\<rparr>))"

text \<open>The loop over the entries from index \<open>i\<close> on, with its bound on the number of destinations.\<close>

fun load_destinations :: "(rat \<Rightarrow> int) \<Rightarrow> nat \<Rightarrow> nat \<Rightarrow> Json list \<Rightarrow> Destination list \<Rightarrow> Destination list" where
  "load_destinations wild maxDestinations i [] out = out"
| "load_destinations wild maxDestinations i (entry # rest) out =
     (if length out < maxDestinations
      then load_destinations wild maxDestinations (Suc i) rest
             (case loadDestination wild i entry of None \<Rightarrow> out | Some d \<Rightarrow> out @ [d])
      else out)"

definition Json_items :: "Json \<Rightarrow> Json list" where
  "Json_items j = map (Json_at j) [0..<Json_size j]"

definition loadClientFile :: "(rat \<Rightarrow> int) \<Rightarrow> nat \<Rightarrow> string option \<Rightarrow> string \<Rightarrow> string \<Rightarrow> Client option" where
  "loadClientFile wild maxDestinations content path ident =
     (case content of
        None \<Rightarrow> None
      | Some file \<Rightarrow>
          (let document = fst (Json_parse file)
           in if \<not> isObject document then None
              else let client = Client_default\<lparr>c_id := ident, c_path := path,
                         c_intervalUs := of_int (clampValue (toInt wild 1000 (Json_get document ''interval_ms'')) 100 3600000) * 1000,
                         c_timeoutUs := of_int (clampValue (toInt wild 3000 (Json_get document ''timeout_ms'')) 50 60000) * 1000\<rparr>;
                       entries = Json_get document ''destinations''
                   in if \<not> isArray entries then Some client
                      else Some (client\<lparr>c_destinations :=
                             load_destinations wild maxDestinations 0 (Json_items entries) []\<rparr>)))"

section \<open>Reloading\<close>

definition is_client_file :: "string \<Rightarrow> bool" where
  "is_client_file name \<longleftrightarrow> \<not> (name = '''' \<or> hd name = CHR ''.'' \<or> \<not> hasSuffix name ''.json'')"

text \<open>The loop over the directory: each file is read by the next call.\<close>

fun load_clients :: "env \<Rightarrow> nat \<Rightarrow> string \<Rightarrow> string list \<Rightarrow> nat \<Rightarrow> Client list \<Rightarrow> Client list \<times> nat" where
  "load_clients E maxDestinations dir [] n loaded = (loaded, n)"
| "load_clients E maxDestinations dir (name # names) n loaded =
     (if \<not> is_client_file name then load_clients E maxDestinations dir names n loaded
      else let ident = take (length name - 5) name;
               path = dir @ ''/'' @ name;
               (opened, reads) = e_readfile E n path
           in load_clients E maxDestinations dir names (Suc n)
                (case loadClientFile (e_wild E) maxDestinations (readWholeFile opened (2 ^ 20) reads) path ident of
                   None \<Rightarrow> loaded | Some client \<Rightarrow> loaded @ [client]))"

definition carryDestination :: "Destination list \<Rightarrow> Destination \<Rightarrow> Destination" where
  "carryDestination previous d =
     (case find (\<lambda>old. d_id old = d_id d \<and> d_address old = d_address d) previous of
        None \<Rightarrow> d
      | Some old \<Rightarrow> d\<lparr>d_state := d_state old, d_candidate := d_candidate old,
          d_candidateStreak := d_candidateStreak old, d_haveRtt := d_haveRtt old, d_rttUs := d_rttUs old,
          d_sent := d_sent old, d_received := d_received old, d_lastReplyRealUs := d_lastReplyRealUs old,
          d_lastChangeRealUs := d_lastChangeRealUs old\<rparr>)"

definition carryOver :: "Client list \<Rightarrow> Client \<Rightarrow> Client" where
  "carryOver previous client =
     (case find (\<lambda>c. c_id c = c_id client) previous of
        None \<Rightarrow> client
      | Some old \<Rightarrow> client\<lparr>c_destinations := map (carryDestination (c_destinations old)) (c_destinations client)\<rparr>)"

section \<open>Rebuilding the probers\<close>

text \<open>The local state of \<^verbatim>\<open>rebuildProbers\<close>: the new probers, which previous ones were taken, the key index, the uid counter.\<close>

record rebuild =
  rb_probers :: "Prober list"
  rb_consumed :: "bool list"
  rb_byKey :: "string \<rightharpoonup> nat"
  rb_nextUid :: u32
  rb_calls :: nat

definition keyOf :: "Prober \<Rightarrow> string" where
  "keyOf p = proberKey (pr_host p) (pr_intervalUs p) (pr_timeoutUs p)"

text \<open>\<^verbatim>\<open>emplace\<close> keeps the first entry of a key.\<close>

definition emplace :: "'k \<Rightarrow> 'v \<Rightarrow> ('k \<rightharpoonup> 'v) \<Rightarrow> ('k \<rightharpoonup> 'v)" where
  "emplace k v m = (if m k = None then m(k \<mapsto> v) else m)"

definition indexByKey :: "Prober list \<Rightarrow> (string \<rightharpoonup> nat)" where
  "indexByKey ps = fold (\<lambda>i. emplace (keyOf (ps ! i)) i) [0..<length ps] Map.empty"

definition newProber :: "env \<Rightarrow> u64 \<Rightarrow> Client \<Rightarrow> Destination \<Rightarrow> rebuild \<Rightarrow> Prober \<times> rebuild" where
  "newProber E now client d rb =
     (let (numeric, endpoint) = parseNumericAddress (e_netdb E (rb_calls rb)) (d_address d) Endpoint_default;
          prober = Prober_default\<lparr>pr_host := d_address d, pr_intervalUs := c_intervalUs client,
            pr_timeoutUs := c_timeoutUs client, pr_uid := rb_nextUid rb, pr_numeric := numeric,
            pr_endpoint := endpoint, pr_nextSendUs := now\<rparr>;
          rb1 = rb\<lparr>rb_nextUid := rb_nextUid rb + 1, rb_calls := Suc (rb_calls rb)\<rparr>
      in if numeric then (prober, rb1)
         else (prober\<lparr>pr_nextResolveUs := now, pr_lastError := ''resolving''\<rparr>, rb1))"

text \<open>A prober for a key that no new one has yet: the previous one of that key, or a new one.\<close>

definition takeProber ::
    "env \<Rightarrow> u64 \<Rightarrow> Prober list \<Rightarrow> (string \<rightharpoonup> nat) \<Rightarrow> Client \<Rightarrow> Destination \<Rightarrow> rebuild \<Rightarrow> Prober \<times> rebuild" where
  "takeProber E now previous previousByKey client d rb =
     (let key = proberKey (d_address d) (c_intervalUs client) (c_timeoutUs client)
      in case previousByKey key of
           Some j \<Rightarrow>
             (if \<not> rb_consumed rb ! j
              then ((previous ! j)\<lparr>pr_subscribers := []\<rparr>, rb\<lparr>rb_consumed := (rb_consumed rb)[j := True]\<rparr>)
              else newProber E now client d rb)
         | None \<Rightarrow> newProber E now client d rb)"

text \<open>The prober of a destination's key is looked up, and made when there is none yet.\<close>

definition ensureProber ::
    "env \<Rightarrow> u64 \<Rightarrow> Prober list \<Rightarrow> (string \<rightharpoonup> nat) \<Rightarrow> Client \<Rightarrow> Destination \<Rightarrow> rebuild \<Rightarrow> rebuild" where
  "ensureProber E now previous previousByKey client d rb =
     (let key = proberKey (d_address d) (c_intervalUs client) (c_timeoutUs client)
      in case rb_byKey rb key of
           Some _ \<Rightarrow> rb
         | None \<Rightarrow>
             (let (prober, rb0) = takeProber E now previous previousByKey client d rb
              in rb0\<lparr>rb_probers := rb_probers rb0 @ [prober],
                     rb_byKey := (rb_byKey rb0)(key \<mapsto> length (rb_probers rb0))\<rparr>))"

definition subscribe :: "nat \<Rightarrow> Subscriber \<Rightarrow> rebuild \<Rightarrow> rebuild" where
  "subscribe i sub rb =
     (let prober = rb_probers rb ! i
      in rb\<lparr>rb_probers := (rb_probers rb)[i := prober\<lparr>pr_subscribers := pr_subscribers prober @ [sub]\<rparr>]\<rparr>)"

definition rebuildDestination ::
    "env \<Rightarrow> u64 \<Rightarrow> Prober list \<Rightarrow> (string \<rightharpoonup> nat) \<Rightarrow> nat \<Rightarrow> Client \<Rightarrow> nat \<Rightarrow> Destination \<Rightarrow> rebuild \<Rightarrow>
       Destination \<times> rebuild" where
  "rebuildDestination E now previous previousByKey c client k d rb =
     (let d1 = d\<lparr>d_prober := - 1\<rparr>
      in if \<not> d_enabled d1 then (d1, rb)
         else
           (let key = proberKey (d_address d1) (c_intervalUs client) (c_timeoutUs client);
                rb1 = ensureProber E now previous previousByKey client d1 rb;
                i = the (rb_byKey rb1 key)
            in (d1\<lparr>d_prober := int i\<rparr>, subscribe i \<lparr>sub_client = c, sub_destination = k\<rparr> rb1)))"

text \<open>The two nested loops, over what is left of the destinations and of the clients.\<close>

fun rebuildDestinations ::
    "env \<Rightarrow> u64 \<Rightarrow> Prober list \<Rightarrow> (string \<rightharpoonup> nat) \<Rightarrow> nat \<Rightarrow> Client \<Rightarrow> nat \<Rightarrow> Destination list \<Rightarrow> rebuild \<Rightarrow>
       Destination list \<times> rebuild" where
  "rebuildDestinations E now previous previousByKey c client k [] rb = ([], rb)"
| "rebuildDestinations E now previous previousByKey c client k (d # ds) rb =
     (let (d1, rb1) = rebuildDestination E now previous previousByKey c client k d rb;
          (ds1, rb2) = rebuildDestinations E now previous previousByKey c client (Suc k) ds rb1
      in (d1 # ds1, rb2))"

fun rebuildClients ::
    "env \<Rightarrow> u64 \<Rightarrow> Prober list \<Rightarrow> (string \<rightharpoonup> nat) \<Rightarrow> nat \<Rightarrow> Client list \<Rightarrow> rebuild \<Rightarrow> Client list \<times> rebuild" where
  "rebuildClients E now previous previousByKey c [] rb = ([], rb)"
| "rebuildClients E now previous previousByKey c (client # clients) rb =
     (let (ds, rb1) = rebuildDestinations E now previous previousByKey c client 0 (c_destinations client) rb;
          (cs, rb2) = rebuildClients E now previous previousByKey (Suc c) clients rb1
      in (client\<lparr>c_destinations := ds\<rparr> # cs, rb2))"

definition windowFor :: "u64 \<Rightarrow> u64 \<Rightarrow> nat" where
  "windowFor timeoutUs intervalUs =
     (let needed = (timeoutUs + intervalUs - 1) div intervalUs in unat (min (max needed 1) kMaxInFlight))"

definition minInterval :: "Prober list \<Rightarrow> u64" where
  "minInterval ps = fold (\<lambda>p m. if m = 0 \<or> pr_intervalUs p < m then pr_intervalUs p else m) ps 0"

definition rebuildProbers :: "env \<Rightarrow> Monitor \<Rightarrow> Monitor" where
  "rebuildProbers E s =
     (let previous = m_probers s;
          now = e_monotonic E (m_osCalls s);
          rb0 = \<lparr>rb_probers = [], rb_consumed = replicate (length previous) False, rb_byKey = Map.empty,
                 rb_nextUid = m_nextUid s, rb_calls = Suc (m_osCalls s)\<rparr>;
          (clients, rb) = rebuildClients E now previous (indexByKey previous) 0 (m_clients s) rb0;
          probers = rb_probers rb
      in s\<lparr>m_clients := clients,
           m_probers := map (\<lambda>p. p\<lparr>pr_maxInFlight := windowFor (pr_timeoutUs p) (pr_intervalUs p)\<rparr>) probers,
           m_proberByUid := fold (\<lambda>i m. m(pr_uid (probers ! i) \<mapsto> i)) [0..<length probers] Map.empty,
           m_nextUid := rb_nextUid rb,
           m_minIntervalUs := minInterval probers,
           m_osCalls := rb_calls rb\<rparr>)"

text \<open>\<^verbatim>\<open>mkdir\<close> as a call into the environment; the state it threads is the call counter.\<close>

definition os_mkdir :: "env \<Rightarrow> string \<Rightarrow> nat \<Rightarrow> mkdir_result \<times> nat" where
  "os_mkdir E path n = (e_mkdir E n path, Suc n)"

text \<open>
  When the clients' directory is missing it is created again, whatever comes of it, and watched again.
\<close>

definition recreateClientsDir :: "env \<Rightarrow> Monitor \<Rightarrow> Monitor" where
  "recreateClientsDir E s =
     (let (_, n) = makeDirectories (os_mkdir E) (clientsDirPath s) (m_osCalls s)
      in if m_inotifyFd s \<ge> 0 then s\<lparr>m_inotifyWatch := e_addwatch E n, m_osCalls := Suc n\<rparr>
         else s\<lparr>m_osCalls := n\<rparr>)"

definition readClients :: "env \<Rightarrow> Monitor \<Rightarrow> Client list \<times> Monitor" where
  "readClients E s =
     (let s1 = os_tick s
      in case e_readdir E (m_osCalls s) of
           DirEntries names \<Rightarrow>
             (let (loaded, n) = load_clients E (o_maxDestinations (m_options s1)) (clientsDirPath s1) names (m_osCalls s1) []
              in (loaded, s1\<lparr>m_osCalls := n\<rparr>))
         | DirError \<Rightarrow> ([], s1)
         | DirMissing \<Rightarrow> ([], recreateClientsDir E s1))"

definition reloadClients :: "env \<Rightarrow> Monitor \<Rightarrow> Monitor" where
  "reloadClients E s =
     (let (loaded, s1) = readClients E (s\<lparr>m_configDirty := False\<rparr>);
          clients = map (carryOver (m_clients s1)) (sort_key c_id loaded)
      in (rebuildProbers E (s1\<lparr>m_clients := clients\<rparr>))\<lparr>m_stateDirty := True\<rparr>)"

section \<open>Watching the directory\<close>

fun handle_events :: "inotify_event list \<Rightarrow> bool \<Rightarrow> bool" where
  "handle_events [] dirty = dirty"
| "handle_events (e # es) dirty =
     handle_events es (if ie_name e = '''' \<or> hasSuffix (ie_name e) ''.json'' \<or> ie_self e then True else dirty)"

text \<open>The read loop over a script of results; where the script ends the queue is drained.\<close>

fun inotify_loop :: "inotify_read list \<Rightarrow> bool \<Rightarrow> bool" where
  "inotify_loop [] dirty = dirty"
| "inotify_loop (r # rs) dirty =
     (case r of
        InotifyInterrupted \<Rightarrow> inotify_loop rs dirty
      | InotifyDrained \<Rightarrow> dirty
      | InotifyEvents es \<Rightarrow> if es = [] then dirty else inotify_loop rs (handle_events es dirty))"

definition handleInotify :: "env \<Rightarrow> Monitor \<Rightarrow> Monitor" where
  "handleInotify E s = (os_tick s)\<lparr>m_configDirty := inotify_loop (e_inotify E (m_osCalls s)) (m_configDirty s)\<rparr>"

section \<open>Dropping stale clients\<close>

definition clientCheckIntervalUs :: "Monitor \<Rightarrow> u64" where
  "clientCheckIntervalUs s =
     (if o_clientTimeoutUs (m_options s) = 0 then kClientCheckIntervalUs
      else min kClientCheckIntervalUs (max (o_clientTimeoutUs (m_options s) div 2) 1000000))"

definition is_stale :: "u64 \<Rightarrow> u64 \<Rightarrow> (u64 \<times> u64) option \<Rightarrow> bool" where
  "is_stale timeoutUs realNow info =
     (case info of
        None \<Rightarrow> False
      | Some (sec, nsec) \<Rightarrow>
          (let mtimeUs = timespecUs sec nsec in realNow > mtimeUs \<and> realNow - mtimeUs > timeoutUs))"

text \<open>
  The loop over the clients: the file system after the \<^verbatim>\<open>unlink\<close> calls, and whether there was one.  Its result is not
  looked at; a \<^verbatim>\<open>stat\<close> and the \<^verbatim>\<open>unlink\<close> after it have the same number in the environment.
\<close>

definition os_unlink :: "env \<Rightarrow> nat \<Rightarrow> string \<Rightarrow> filesystem \<Rightarrow> filesystem" where
  "os_unlink E n path fs = (if e_unlink E n path then fs(path := None) else fs)"

fun drop_loop :: "env \<Rightarrow> u64 \<Rightarrow> u64 \<Rightarrow> Client list \<Rightarrow> nat \<Rightarrow> filesystem \<Rightarrow> bool \<Rightarrow> nat \<times> filesystem \<times> bool" where
  "drop_loop E timeoutUs realNow [] n fs removed = (n, fs, removed)"
| "drop_loop E timeoutUs realNow (client # clients) n fs removed =
     (if is_stale timeoutUs realNow (e_stat E n (c_path client))
      then drop_loop E timeoutUs realNow clients (Suc n) (os_unlink E n (c_path client) fs) True
      else drop_loop E timeoutUs realNow clients (Suc n) fs removed)"

definition dropExpiredClients :: "env \<Rightarrow> u64 \<Rightarrow> Monitor \<times> filesystem \<Rightarrow> Monitor \<times> filesystem" where
  "dropExpiredClients E now sf =
     (let (s, fs) = sf; timeout = o_clientTimeoutUs (m_options s)
      in if timeout = 0 \<or> now - m_lastClientCheckUs s < clientCheckIntervalUs s then (s, fs)
         else
           (let s1 = s\<lparr>m_lastClientCheckUs := now\<rparr>;
                realNow = e_realtime E (m_osCalls s1);
                (n, fs1, removed) = drop_loop E timeout realNow (m_clients s1) (Suc (m_osCalls s1)) fs False
            in (s1\<lparr>m_osCalls := n, m_configDirty := (m_configDirty s1 \<or> removed)\<rparr>, fs1)))"

end
