(* ===== verification/Config_Properties.thy ===== *)
theory Config_Properties
  imports Config Json_Roundtrip Probing_Properties
begin

text \<open>
  What reading the widgets' files guarantees, whatever the files hold: rejected files, clamped values, the
  number and the shape of the destinations, results carried over an edit, and which files the expiry of
  stale widgets may remove.
\<close>

section \<open>Keys\<close>

lemma unit_separator_no_digit: "CHR 0x1F \<notin> set (to_string_u64 w)"
  using to_string_nat_digits [of "unat w"] by (auto simp: to_string_u64_def is_digit_def)

text \<open>
  Two destinations have the same key only when address, interval and timeout agree, although the address
  may itself contain the separator: the two numbers behind it cannot.
\<close>

lemma proberKey_inject [simp]:
  "proberKey h i t = proberKey h' i' t' \<longleftrightarrow> h = h' \<and> i = i' \<and> t = t'"
proof
  assume "proberKey h i t = proberKey h' i' t'"
  then have "(h @ [CHR 0x1F] @ to_string_u64 i) @ CHR 0x1F # to_string_u64 t =
      (h' @ [CHR 0x1F] @ to_string_u64 i') @ CHR 0x1F # to_string_u64 t'"
    by (simp add: proberKey_def)
  from split_last_separator [OF this] have 1: "h @ CHR 0x1F # to_string_u64 i = h' @ CHR 0x1F # to_string_u64 i'"
    and "t = t'" using unit_separator_no_digit by auto
  moreover from split_last_separator [OF 1] have "h = h'" "i = i'"
    using unit_separator_no_digit by auto
  ultimately show "h = h' \<and> i = i' \<and> t = t'" by simp
qed simp

lemma keyOf_eq_iff:
  "keyOf p = keyOf q \<longleftrightarrow> pr_host p = pr_host q \<and> pr_intervalUs p = pr_intervalUs q \<and> pr_timeoutUs p = pr_timeoutUs q"
  by (simp add: keyOf_def)

section \<open>Reading one file\<close>

text \<open>What every destination read from a file satisfies.\<close>

definition loaded_destination :: "Destination \<Rightarrow> bool" where
  "loaded_destination d \<longleftrightarrow>
     d_address d \<noteq> '''' \<and> \<not> isspace (hd (d_address d)) \<and> \<not> isspace (last (d_address d)) \<and> d_id d \<noteq> '''' \<and>
     1 \<le> unat (d_thresholdUs d) \<and> unat (d_thresholdUs d) \<le> 60000000 \<and>
     0 \<le> d_sensitivity d \<and> d_sensitivity d \<le> 1000 \<and>
     - (2 ^ 31) \<le> d_order d \<and> d_order d < 2 ^ 31 \<and>
     d_state d = Unknown \<and> d_sent d = 0 \<and> d_received d = 0 \<and> \<not> d_haveRtt d \<and> d_rttUs d = 0 \<and>
     d_lastReplyRealUs d = 0 \<and> d_lastChangeRealUs d = 0 \<and> wf_verdict d"

text \<open>A clamped integer keeps its bounds as a 64-bit word.\<close>

lemma unat_clamped:
  assumes "0 \<le> low" and "low \<le> high" and "high < 2 ^ 64"
  shows "unat (of_int (clampValue v low high) :: u64) = nat (clampValue v low high)"
proof -
  have "0 \<le> clampValue v low high \<and> clampValue v low high < 2 ^ 64"
    using clampValue_bounds [OF assms(2), of v] assms by auto
  then show ?thesis by (simp add: unsigned_of_int take_bit_int_eq_self)
qed

lemma unat_clamped_bounds:
  assumes "0 \<le> low" and "low \<le> high" and "high < 2 ^ 64"
  shows "nat low \<le> unat (of_int (clampValue v low high) :: u64) \<and> unat (of_int (clampValue v low high) :: u64) \<le> nat high"
  using clampValue_bounds [OF assms(2), of v] assms by (simp add: unat_clamped [OF assms] nat_mono)

lemma cast_int_range: "- (2 ^ 31) \<le> cast_int x \<and> cast_int x < 2 ^ 31"
  by (simp add: cast_int_def algebra_simps)

lemma cast_int_exact: "- (2 ^ 31) \<le> x \<Longrightarrow> x < 2 ^ 31 \<Longrightarrow> cast_int x = x"
  by (simp add: cast_int_def)

lemma loadDestination_loaded:
  assumes "loadDestination wild i entry = Some d"
  shows "loaded_destination d"
proof -
  have "trimmed (toString [] (Json_get entry ''address'')) \<noteq> []"
    using assms by (auto simp: loadDestination_def Let_def split: if_splits)
  note ends = trimmed_ends [OF this]
  show ?thesis
    using assms ends clampValue_bounds [of 0 1000 "toInt wild 3 (Json_get entry ''sensitivity'')"]
      unat_clamped_bounds [of 1 60000000 "toInt wild 1000 (Json_get entry ''threshold_us'')"]
      cast_int_range [of "toInt wild (int i) (Json_get entry ''order'')"]
    by (auto simp: loadDestination_def Let_def loaded_destination_def Destination_default_def wf_verdict_def
        split: if_splits)
qed

lemma load_destinations_loaded:
  assumes "list_all loaded_destination out" and "length out \<le> maxDestinations"
  shows "list_all loaded_destination (load_destinations wild maxDestinations i entries out) \<and>
    length (load_destinations wild maxDestinations i entries out) \<le> maxDestinations"
  using assms
proof (induction entries arbitrary: i out)
  case (Cons entry entries)
  show ?case
  proof (cases "loadDestination wild i entry")
    case (Some d)
    with Cons show ?thesis by (auto dest: loadDestination_loaded)
  qed (use Cons in auto)
qed simp

text \<open>Below the cap nothing but the malformed entries is left out, and the order is kept.\<close>

definition loaded_list :: "(rat \<Rightarrow> int) \<Rightarrow> nat \<Rightarrow> Json list \<Rightarrow> Destination list" where
  "loaded_list wild i entries = List.map_filter (\<lambda>(j, e). loadDestination wild j e) (enumerate i entries)"

lemma loaded_list_Cons:
  "loaded_list wild i (e # es) =
     (case loadDestination wild i e of None \<Rightarrow> [] | Some d \<Rightarrow> [d]) @ loaded_list wild (Suc i) es"
  by (simp add: loaded_list_def map_filter_simps split: option.splits)

lemma load_destinations_eq:
  "length out \<le> maxDestinations \<Longrightarrow> load_destinations wild maxDestinations i entries out =
     take maxDestinations (out @ loaded_list wild i entries)"
proof (induction entries arbitrary: i out)
  case Nil
  then show ?case by (simp add: loaded_list_def map_filter_simps)
next
  case (Cons entry entries)
  then show ?case by (auto simp: loaded_list_Cons split: option.splits)
qed

text \<open>A whole number below \<open>2 ^ 52\<close> is read as itself; beyond the range of \<^verbatim>\<open>long long\<close> the machine decides.\<close>

lemma truncate_rat_half:
  "0 \<le> n \<Longrightarrow> truncate_rat (of_int n + 1 / 2) = n" "n < 0 \<Longrightarrow> truncate_rat (of_int n - 1 / 2) = n"
proof -
  assume "0 \<le> n"
  moreover have "\<lfloor>of_int n + 1 / 2 :: rat\<rfloor> = n" by (rule floor_unique) simp_all
  moreover have "0 \<le> of_int n + (1 / 2 :: rat)" using calculation by simp
  ultimately show "truncate_rat (of_int n + 1 / 2) = n" by (simp add: truncate_rat_def not_less)
next
  assume n: "n < 0"
  have "\<lfloor>- (of_int n - 1 / 2 :: rat)\<rfloor> = - n" by (rule floor_unique) simp_all
  moreover have "of_int n < (1 / 2 :: rat)"
    using n by (rule less_trans [OF of_int_less_0_iff [THEN iffD2]]) simp
  ultimately show "truncate_rat (of_int n - 1 / 2) = n"
    unfolding truncate_rat_def by simp
qed

lemma toInt_exact:
  assumes "\<bar>n\<bar> < 2 ^ 52"
  shows "toInt wild def (JNumber (Finite (of_int n))) = n"
  using assms double_of_half_exact [OF assms] double_of_half_exact_neg [OF assms]
  by (auto simp: toInt_def cast_long_long_def fits_long_long_def truncate_rat_half)

text \<open>A number beyond that range: \<open>2 ^ 63\<close> is a \<^verbatim>\<open>double\<close>, and one half added to it is lost.\<close>

lemma toInt_beyond: "toInt wild def (JNumber (Finite (2 ^ 63))) = wild (2 ^ 63)"
proof -
  have d: "ndigits 2 18446744073709551617 = 65" "ndigits 2 2 = 2" by (simp_all add: ndigits.simps)
  have "quotient_of (2 ^ 63 + 1 / 2) = (18446744073709551617, 2)" by code_simp
  then have "ilog 2 (2 ^ 63 + 1 / 2) = 63" by (simp add: ilog_def d)
  then have "quantum (2 ^ 63 + 1 / 2) = 2048" by (simp add: quantum_def)
  moreover have "round_half_even ((2 ^ 63 + 1 / 2) / 2048) = 4503599627370496" by code_simp
  ultimately have "double_of_rat (2 ^ 63 + 1 / 2) = Finite (2 ^ 63)" by (simp add: double_of_rat_def)
  then show ?thesis by (simp add: toInt_def cast_long_long_def fits_long_long_def truncate_rat_def)
qed

section \<open>Properties of the files\<close>

lemma client_times:
  assumes "0 \<le> low" and "low \<le> high" and "high \<le> 3600000"
  shows "1000 * nat low \<le> unat (of_int (clampValue v low high) * 1000 :: u64) \<and>
    unat (of_int (clampValue v low high) * 1000 :: u64) \<le> 1000 * nat high"
proof -
  let ?w = "of_int (clampValue v low high) :: u64"
  have w: "nat low \<le> unat ?w" "unat ?w \<le> nat high" using unat_clamped_bounds [of low high v] assms by simp_all
  then have "unat ?w * 1000 < 2 ^ 64" using assms(3) by simp
  then have "unat (?w * 1000) = unat ?w * 1000" by (simp add: unat_word_ariths)
  with w show ?thesis by simp
qed

text \<open>The limits of a client that was read from a file.\<close>

definition client_limits :: "nat \<Rightarrow> Client \<Rightarrow> bool" where
  "client_limits maxDestinations client \<longleftrightarrow>
    100000 \<le> unat (c_intervalUs client) \<and> unat (c_intervalUs client) \<le> 3600000000 \<and>
    50000 \<le> unat (c_timeoutUs client) \<and> unat (c_timeoutUs client) \<le> 60000000 \<and>
    length (c_destinations client) \<le> maxDestinations \<and> list_all loaded_destination (c_destinations client)"

lemma loadClientFile_limits:
  assumes "loadClientFile wild maxDestinations content path ident = Some client"
  shows "c_id client = ident \<and> c_path client = path \<and> client_limits maxDestinations client"
proof -
  obtain content0 where parts: "content = Some content0" "isObject (fst (Json_parse content0))"
    using assms by (auto simp: loadClientFile_def Let_def split: option.splits if_splits)
  show ?thesis
    using assms parts load_destinations_loaded [of "[]" maxDestinations]
      client_times [of 100 3600000 "toInt wild 1000 (Json_get (fst (Json_parse content0)) ''interval_ms'')"]
      client_times [of 50 60000 "toInt wild 3000 (Json_get (fst (Json_parse content0)) ''timeout_ms'')"]
    by (auto simp: loadClientFile_def Let_def Client_default_def client_limits_def split: if_splits)
qed

text \<open>
  C28: Whatever a widget's file holds, a client that is read from it keeps the limits the rest of the daemon
  relies on: it is probed between every 100 milliseconds and once an hour, waits between 50 milliseconds and a
  minute, has no more destinations than the cap, and each of these has a trimmed address, an id, a threshold of
  at most a minute, a sensitivity of at most 1000, no results yet and a consistent verdict.  This holds for every behaviour
  of the machine on numbers that do not fit an integer.
\<close>

theorem client_file_checked:
  assumes "loadClientFile wild maxDestinations content path ident = Some client"
  shows "c_id client = ident \<and> c_path client = path \<and>
    100000 \<le> unat (c_intervalUs client) \<and> unat (c_intervalUs client) \<le> 3600000000 \<and>
    50000 \<le> unat (c_timeoutUs client) \<and> unat (c_timeoutUs client) \<le> 60000000 \<and>
    length (c_destinations client) \<le> maxDestinations \<and> list_all loaded_destination (c_destinations client)"
  using loadClientFile_limits [OF assms] by (simp add: client_limits_def)

section \<open>A configuration written as a document\<close>

text \<open>The document that describes a client: the members \<^verbatim>\<open>loadClientFile\<close> looks for, numbers in its units.\<close>

definition json_int :: "int \<Rightarrow> Json" where
  "json_int n = JNumber (Finite (of_int n))"

definition destination_document :: "Destination \<Rightarrow> Json" where
  "destination_document d = JObject
     [(''id'', JString (d_id d)), (''name'', JString (d_name d)), (''address'', JString (d_address d)),
      (''order'', json_int (d_order d)), (''threshold_us'', json_int (uint (d_thresholdUs d))),
      (''sensitivity'', json_int (d_sensitivity d)), (''enabled'', JBool (d_enabled d)), (''part_time'', JBool (d_partTime d))]"

definition client_document :: "Client \<Rightarrow> Json" where
  "client_document c = JObject
     [(''interval_ms'', json_int (uint (c_intervalUs c) div 1000)), (''timeout_ms'', json_int (uint (c_timeoutUs c) div 1000)),
      (''destinations'', JArray (map destination_document (c_destinations c)))]"

text \<open>A destination as a widget may configure it: within the limits and without any result.\<close>

definition configured :: "Destination \<Rightarrow> bool" where
  "configured d \<longleftrightarrow> loaded_destination d \<and> trimmed (d_address d) = d_address d \<and>
     d = Destination_default\<lparr>d_id := d_id d, d_name := d_name d, d_address := d_address d, d_order := d_order d,
           d_thresholdUs := d_thresholdUs d, d_sensitivity := d_sensitivity d, d_enabled := d_enabled d,
           d_partTime := d_partTime d\<rparr>"

definition configured_client :: "Client \<Rightarrow> bool" where
  "configured_client c \<longleftrightarrow> list_all configured (c_destinations c) \<and> c_error c = '''' \<and>
     100000 \<le> unat (c_intervalUs c) \<and> unat (c_intervalUs c) \<le> 3600000000 \<and> 1000 dvd unat (c_intervalUs c) \<and>
     50000 \<le> unat (c_timeoutUs c) \<and> unat (c_timeoutUs c) \<le> 60000000 \<and> 1000 dvd unat (c_timeoutUs c)"

definition config_strings :: "Client \<Rightarrow> string list" where
  "config_strings c = concat (map (\<lambda>d. [d_id d, d_name d, d_address d]) (c_destinations c))"

lemma toInt_json_int [simp]: "\<bar>n\<bar> < 2 ^ 52 \<Longrightarrow> toInt wild def (json_int n) = n"
  unfolding json_int_def by (rule toInt_exact)

lemma json_int_ok:
  assumes "\<bar>n\<bar> < 2 ^ 52"
  shows "writable a (json_int n)" "reread (json_int n) = json_int n"
proof -
  have "\<bar>n\<bar> < 9000000000000000" using assms by simp
  then have "(of_int \<bar>n\<bar> :: rat) < of_int 9000000000000000" by (simp only: of_int_less_iff)
  then have "integral (Finite (of_int n))" by (simp add: integral_def)
  then show "writable a (json_int n)" "reread (json_int n) = json_int n"
    by (simp_all add: json_int_def number_ok_def reads_as_def)
qed

lemma destination_members:
  "isObject (destination_document d)"
  "Json_get (destination_document d) ''id'' = JString (d_id d)"
  "Json_get (destination_document d) ''name'' = JString (d_name d)"
  "Json_get (destination_document d) ''address'' = JString (d_address d)"
  "Json_get (destination_document d) ''order'' = json_int (d_order d)"
  "Json_get (destination_document d) ''threshold_us'' = json_int (uint (d_thresholdUs d))"
  "Json_get (destination_document d) ''sensitivity'' = json_int (d_sensitivity d)"
  "Json_get (destination_document d) ''enabled'' = JBool (d_enabled d)"
  "Json_get (destination_document d) ''part_time'' = JBool (d_partTime d)"
  by (simp_all add: destination_document_def Json_get_def isObject_def)

lemma loadDestination_document:
  assumes "configured d"
  shows "loadDestination wild i (destination_document d) = Some d"
proof -
  have l: "loaded_destination d" and t: "trimmed (d_address d) = d_address d"
    and e: "Destination_default\<lparr>d_id := d_id d, d_name := d_name d, d_address := d_address d, d_order := d_order d,
           d_thresholdUs := d_thresholdUs d, d_sensitivity := d_sensitivity d, d_enabled := d_enabled d,
           d_partTime := d_partTime d\<rparr> = d"
    using assms by (simp_all add: configured_def)
  have u: "1 \<le> uint (d_thresholdUs d)" "uint (d_thresholdUs d) \<le> 60000000"
    using l unfolding loaded_destination_def unat_eq_nat_uint by linarith+
  have o: "- (2 ^ 31) \<le> d_order d" "d_order d < 2 ^ 31" "0 \<le> d_sensitivity d" "d_sensitivity d \<le> 1000"
    and n: "d_address d \<noteq> []" "d_id d \<noteq> []"
    using l by (simp_all add: loaded_destination_def)
  have r: "\<bar>d_order d\<bar> < 2 ^ 52" "\<bar>d_sensitivity d\<bar> < 2 ^ 52" "\<bar>uint (d_thresholdUs d)\<bar> < 2 ^ 52"
    using u o by auto
  show ?thesis
    unfolding loadDestination_def destination_members Let_def toInt_json_int [OF r(1)] toInt_json_int [OF r(2)]
      toInt_json_int [OF r(3)] clampValue_id [OF u] clampValue_id [OF o(3,4)] cast_int_exact [OF o(1,2)] of_int_uint
    by (simp add: n toString_def toBool_def isNull_def t e destination_members)
qed

lemma loaded_list_documents:
  "list_all configured ds \<Longrightarrow> loaded_list wild i (map destination_document ds) = ds"
  by (induction ds arbitrary: i)
    (simp_all add: loaded_list_Cons loadDestination_document, simp add: loaded_list_def map_filter_simps)

lemma destination_document_ok:
  assumes "configured d" and "\<forall>s \<in> {d_id d, d_name d, d_address d}. string_ok a s"
  shows "well_formed (Suc (Suc 0)) (destination_document d)" and "writable a (destination_document d)"
    and "reread (destination_document d) = destination_document d"
proof -
  have l: "loaded_destination d" using assms(1) by (simp add: configured_def)
  have u: "uint (d_thresholdUs d) \<le> 60000000"
    using l unfolding loaded_destination_def unat_eq_nat_uint by linarith
  then have r: "\<bar>d_order d\<bar> < 2 ^ 52" "\<bar>d_sensitivity d\<bar> < 2 ^ 52" "\<bar>uint (d_thresholdUs d)\<bar> < 2 ^ 52"
    using l by (auto simp: loaded_destination_def)
  have k: "utf8 ''id''" "utf8 ''name''" "utf8 ''address''" "utf8 ''order''" "utf8 ''threshold_us''" "utf8 ''sensitivity''"
    "utf8 ''enabled''" "utf8 ''part_time''"
    by (simp_all add: utf8_ascii)
  show "well_formed (Suc (Suc 0)) (destination_document d)"
    by (simp add: destination_document_def json_int_def built_def)
  show "writable a (destination_document d)"
    using assms(2) r by (simp add: destination_document_def json_int_ok string_ok_def k)
  show "reread (destination_document d) = destination_document d"
    using r by (simp add: destination_document_def json_int_ok)
qed

lemma client_document_ok:
  assumes "configured_client c" and "\<forall>s \<in> set (config_strings c). string_ok a s"
  shows "well_formed 64 (client_document c)" and "writable a (client_document c)"
    and "reread (client_document c) = client_document c"
proof -
  have d: "configured d" "\<forall>s \<in> {d_id d, d_name d, d_address d}. string_ok a s" if "d \<in> set (c_destinations c)" for d
    using assms that by (auto simp: configured_client_def config_strings_def list_all_iff)
  note dok = destination_document_ok [OF d]
  have t: "uint (c_intervalUs c) \<le> 3600000000" "uint (c_timeoutUs c) \<le> 60000000"
    using assms(1) unfolding configured_client_def unat_eq_nat_uint by linarith+
  then have r: "\<bar>uint (c_intervalUs c) div 1000\<bar> < 2 ^ 52" "\<bar>uint (c_timeoutUs c) div 1000\<bar> < 2 ^ 52"
    by (auto simp: abs_if pos_imp_zdiv_neg_iff)
  have k: "utf8 ''interval_ms''" "utf8 ''timeout_ms''" "utf8 ''destinations''" by (simp_all add: utf8_ascii)
  have "well_formed (Suc (Suc (Suc (Suc 0)))) (client_document c)"
    using dok(1) by (simp add: client_document_def json_int_def built_def)
  then show "well_formed 64 (client_document c)"
    by (rule well_formed_mono [rotated]) simp
  show "writable a (client_document c)"
    using dok(2) r by (simp add: client_document_def json_int_ok string_ok_def k)
  show "reread (client_document c) = client_document c"
    using dok(3) r by (simp add: client_document_def json_int_ok)
qed

lemma client_members:
  "isObject (client_document c)"
  "Json_get (client_document c) ''interval_ms'' = json_int (uint (c_intervalUs c) div 1000)"
  "Json_get (client_document c) ''timeout_ms'' = json_int (uint (c_timeoutUs c) div 1000)"
  "Json_get (client_document c) ''destinations'' = JArray (map destination_document (c_destinations c))"
  by (simp_all add: client_document_def Json_get_def isObject_def)

lemma Json_items_array: "Json_items (JArray xs) = xs"
  by (auto simp: Json_items_def Json_size_def Json_at_def intro: nth_equalityI)

text \<open>A number of milliseconds within the limits gives the microseconds back.\<close>

lemma millis_roundtrip:
  assumes "1000 dvd unat (w :: u64)" and "1000 * low \<le> unat w" and "unat w \<le> 1000 * high" and "high \<le> 3600000"
  shows "of_int (clampValue (toInt wild def (json_int (uint w div 1000))) (int low) (int high)) * 1000 = w"
proof -
  obtain m where m: "unat w = 1000 * m" using assms(1) by (auto elim: dvdE)
  then have u: "uint w div 1000 = int m" by (simp add: uint_nat)
  have b: "low \<le> m" "m \<le> high" using assms m by simp_all
  then have "toInt wild def (json_int (int m)) = int m" using assms(4) by (intro toInt_json_int) simp
  moreover have "clampValue (int m) (int low) (int high) = int m" using b by (intro clampValue_id) simp_all
  moreover have "of_nat m * 1000 = w"
    using arg_cong [OF m, of "of_nat :: nat \<Rightarrow> u64"] by (simp add: of_nat_unat ucast_id mult.commute)
  ultimately show ?thesis unfolding u by simp
qed

text \<open>
  C29: A configuration that keeps the limits reaches the daemon unchanged: written as a JSON document, in any
  layout, and read back by \<^verbatim>\<open>loadClientFile\<close>, it gives the same interval, timeout and destinations in the same
  order with the same names, addresses, thresholds and flags.  Any bytes are allowed in the strings, and
  valid UTF-8 where the document is written in ASCII.
\<close>

theorem client_file_roundtrip:
  assumes "configured_client c" and "\<forall>s \<in> set (config_strings c). string_ok a s"
    and "length (c_destinations c) \<le> maxDestinations"
  shows "loadClientFile wild maxDestinations (Some (dump indent a (client_document c))) (c_path c) (c_id c) = Some c"
proof -
  have p: "fst (Json_parse (dump indent a (client_document c))) = client_document c"
    by (simp add: Json_parse_def parse_document_written client_document_ok [OF assms(1,2)])
  have ds: "load_destinations wild maxDestinations 0 (map destination_document (c_destinations c)) [] = c_destinations c"
    using assms by (simp add: load_destinations_eq loaded_list_documents configured_client_def)
  have t: "of_int (clampValue (toInt wild 1000 (json_int (uint (c_intervalUs c) div 1000))) 100 3600000) * 1000 = c_intervalUs c"
    "of_int (clampValue (toInt wild 3000 (json_int (uint (c_timeoutUs c) div 1000))) 50 60000) * 1000 = c_timeoutUs c"
    using assms(1) millis_roundtrip [of "c_intervalUs c" 100 3600000] millis_roundtrip [of "c_timeoutUs c" 50 60000]
    by (simp_all add: configured_client_def)
  have "c_error c = []" using assms(1) by (simp add: configured_client_def)
  then show ?thesis
    unfolding loadClientFile_def
    by (simp add: p client_members Json_items_array isArray_def ds t Client_default_def)
qed

definition config_example :: Client where
  "config_example = Client_default\<lparr>c_id := ''w'', c_path := ''/r/clients/w.json'', c_intervalUs := 500000, c_timeoutUs := 3000000,
     c_destinations := [Destination_default\<lparr>d_id := ''gw'', d_name := ''Gateway'', d_address := ''192.0.2.1'', d_order := 0,
       d_thresholdUs := 20000, d_sensitivity := 3, d_partTime := True\<rparr>]\<rparr>"

lemma config_example_ok: "configured_client config_example"
proof -
  have "trimmed ''192.0.2.1'' = ''192.0.2.1''" by (simp add: trimmed_def isspace_def)
  then show ?thesis
    by (simp add: config_example_def configured_client_def configured_def Client_default_def Destination_default_def
        loaded_destination_def isspace_def wf_verdict_def)
qed

lemma config_example_strings: "\<forall>s \<in> set (config_strings config_example). string_ok True s"
  by (simp add: config_strings_def config_example_def string_ok_def utf8_ascii)

lemma config_example_count: "length (c_destinations config_example) \<le> 128"
  by (simp add: config_example_def)

theorem client_file_roundtrip_witness:
  "loadClientFile (e_wild example_env) 128 (Some (dump 2 True (client_document config_example))) ''/r/clients/w.json'' ''w'' =
     Some config_example"
  using client_file_roundtrip [OF config_example_ok config_example_strings config_example_count]
  by (simp add: config_example_def)

text \<open>A file with a value out of range, a malformed entry and an address with blanks around it.\<close>

definition rough_document :: Json where
  "rough_document = JObject [(''interval_ms'', json_int 5),
     (''destinations'', JArray [json_int 7, JObject [(''address'', JString '' gw '')]])]"

definition rough_client :: Client where
  "rough_client = Client_default\<lparr>c_id := ''w'', c_path := ''/r/clients/w.json'', c_intervalUs := 100000, c_timeoutUs := 3000000,
     c_destinations := [Destination_default\<lparr>d_id := ''d1'', d_name := ''gw'', d_address := ''gw'', d_order := 1,
       d_thresholdUs := 1000, d_sensitivity := 3\<rparr>]\<rparr>"

lemma rough_document_loaded:
  "loadClientFile wild 128 (Some (dump 2 True rough_document)) ''/r/clients/w.json'' ''w'' = Some rough_client"
proof -
  have "utf8 ''interval_ms''" "utf8 ''destinations''" "utf8 ''address''" "utf8 '' gw ''" by (simp_all add: utf8_ascii)
  then have "writable True rough_document" "reread rough_document = rough_document"
    by (simp_all add: rough_document_def json_int_ok string_ok_def)
  moreover have "well_formed (Suc (Suc (Suc (Suc 0)))) rough_document"
    by (simp add: rough_document_def json_int_def built_def)
  then have "well_formed 64 rough_document" by (rule well_formed_mono [rotated]) simp
  ultimately have p: "fst (Json_parse (dump 2 True rough_document)) = rough_document"
    by (simp add: Json_parse_def parse_document_written)
  have "trimmed '' gw '' = ''gw''" "char_of (49 :: nat) = CHR ''1''" by (simp add: trimmed_def isspace_def) code_simp
  then have d: "loadDestination wild (Suc 0) (JObject [(''address'', JString '' gw '')]) = Some
      (Destination_default\<lparr>d_id := ''d1'', d_name := ''gw'', d_address := ''gw'', d_order := 1,
       d_thresholdUs := 1000, d_sensitivity := 3\<rparr>)"
    by (simp add: loadDestination_def isObject_def Json_get_def toString_def toInt_def isNull_def toBool_def clampValue_def
        cast_int_def to_string_nat.simps digit_char_def Destination_default_def Let_def)
  have n: "loadDestination wild 0 (json_int 7) = None"
    by (simp add: loadDestination_def json_int_def isObject_def)
  have g: "Json_get rough_document ''interval_ms'' = json_int 5" "Json_get rough_document ''timeout_ms'' = JNull"
    "Json_get rough_document ''destinations'' = JArray [json_int 7, JObject [(''address'', JString '' gw '')]]"
    "isObject rough_document"
    by (simp_all add: rough_document_def Json_get_def isObject_def)
  show ?thesis
    unfolding loadClientFile_def
    by (simp add: p g n d Json_items_array isArray_def clampValue_def rough_client_def Client_default_def) (simp add: toInt_def)
qed

theorem client_file_checked_witness:
  "loadClientFile (e_wild example_env) 128 (Some (dump 2 True rough_document)) ''/r/clients/w.json'' ''w'' = Some rough_client \<and>
   100000 \<le> unat (c_intervalUs rough_client) \<and> list_all loaded_destination (c_destinations rough_client)"
  using client_file_checked [OF rough_document_loaded] rough_document_loaded by blast

text \<open>
  C30: A file is rejected exactly when it cannot be read, is not a JSON text, or holds a value that is not an
  object; then the widget is unknown to the daemon.  Any other file gives a client: a malformed member is replaced by
  its default and a malformed entry is skipped, never an error.
\<close>

theorem client_file_rejected:
  "loadClientFile wild maxDestinations content path ident = None \<longleftrightarrow>
     (case content of
        None \<Rightarrow> True
      | Some file_text \<Rightarrow> (\<exists>e. parse_document file_text = PErr e) \<or>
          (\<exists>v. parse_document file_text = POk v (length file_text) [] \<and> \<not> isObject v))"
proof (cases content)
  case (Some t)
  then show ?thesis
    using parse_document_total [of t] by (auto simp: loadClientFile_def Let_def Json_parse_def isObject_def)
qed (simp add: loadClientFile_def)

section \<open>Stale clients\<close>

lemma is_stale_iff:
  "is_stale timeoutUs realNow info \<longleftrightarrow>
     (\<exists>sec nsec. info = Some (sec, nsec) \<and> unat (timespecUs sec nsec) + unat timeoutUs < unat realNow)"
proof -
  have "realNow > m \<and> realNow - m > timeoutUs \<longleftrightarrow> unat m + unat timeoutUs < unat realNow" for m :: u64
    using unat_sub [of m realNow] by (auto simp: word_less_nat_alt word_le_nat_alt)
  then show ?thesis by (auto simp: is_stale_def Let_def split: option.splits)
qed

text \<open>
  What the loop leaves: the files of stale clients are gone as far as they could be removed, all others are untouched, and the
  flag says whether there was a stale one.
\<close>

definition stale_at :: "env \<Rightarrow> u64 \<Rightarrow> u64 \<Rightarrow> Client list \<Rightarrow> nat \<Rightarrow> string \<Rightarrow> bool" where
  "stale_at E timeoutUs realNow cs n p \<longleftrightarrow>
     (\<exists>k < length cs. c_path (cs ! k) = p \<and> is_stale timeoutUs realNow (e_stat E (n + k) p))"

definition removed_at :: "env \<Rightarrow> u64 \<Rightarrow> u64 \<Rightarrow> Client list \<Rightarrow> nat \<Rightarrow> string \<Rightarrow> bool" where
  "removed_at E timeoutUs realNow cs n p \<longleftrightarrow>
     (\<exists>k < length cs. c_path (cs ! k) = p \<and> is_stale timeoutUs realNow (e_stat E (n + k) p) \<and> e_unlink E (n + k) p)"

lemma stale_at_Cons:
  "stale_at E T r (c # cs) n p \<longleftrightarrow>
     (c_path c = p \<and> is_stale T r (e_stat E n p)) \<or> stale_at E T r cs (Suc n) p"
  "removed_at E T r (c # cs) n p \<longleftrightarrow>
     (c_path c = p \<and> is_stale T r (e_stat E n p) \<and> e_unlink E n p) \<or> removed_at E T r cs (Suc n) p"
  unfolding stale_at_def removed_at_def by (auto simp: less_Suc_eq_0_disj)

lemma removed_stale: "removed_at E T r cs n p \<Longrightarrow> stale_at E T r cs n p"
  by (auto simp: removed_at_def stale_at_def)

lemma drop_loop_result:
  "drop_loop E T r cs n fs removed =
     (n + length cs, (\<lambda>p. if removed_at E T r cs n p then None else fs p), removed \<or> (\<exists>p. stale_at E T r cs n p))"
proof (induction cs arbitrary: n fs removed)
  case Nil
  show ?case by (simp add: stale_at_def removed_at_def)
next
  case (Cons c cs)
  then show ?case by (auto simp: stale_at_Cons os_unlink_def fun_eq_iff)
qed

lemma clientCheckInterval_bounds:
  "1000000 \<le> unat (clientCheckIntervalUs s) \<and> unat (clientCheckIntervalUs s) \<le> 60000000"
proof -
  have "(1000000 :: u64) \<le> clientCheckIntervalUs s \<and> clientCheckIntervalUs s \<le> 60000000"
    by (auto simp: clientCheckIntervalUs_def kClientCheckIntervalUs_def min_def max_def)
  then show ?thesis by (simp add: word_le_nat_alt)
qed

lemma dropExpiredClients_result:
  obtains (skipped) "dropExpiredClients E now (s, fs) = (s, fs)"
  | (checked) "o_clientTimeoutUs (m_options s) \<noteq> 0"
    "dropExpiredClients E now (s, fs) =
      (let stale = stale_at E (o_clientTimeoutUs (m_options s)) (e_realtime E (m_osCalls s)) (m_clients s) (Suc (m_osCalls s));
           removed = removed_at E (o_clientTimeoutUs (m_options s)) (e_realtime E (m_osCalls s)) (m_clients s) (Suc (m_osCalls s))
       in (s\<lparr>m_lastClientCheckUs := now, m_osCalls := Suc (m_osCalls s) + length (m_clients s),
             m_configDirty := (m_configDirty s \<or> (\<exists>p. stale p))\<rparr>,
           \<lambda>p. if removed p then None else fs p))"
  by (cases "o_clientTimeoutUs (m_options s) = 0 \<or> now - m_lastClientCheckUs s < clientCheckIntervalUs s")
    (auto simp: dropExpiredClients_def Let_def drop_loop_result)

text \<open>
  C31: The daemon only ever removes the file of a widget that stopped refreshing it: if the expiry check changes the file
  system at a path, that is the path of a known client whose file was last written longer than the
  client timeout before the time of the check, the configuration is marked for reloading, and the timeout is not switched
  off.  The clients themselves stay until the reload.
\<close>

theorem only_stale_files_removed:
  assumes "dropExpiredClients E now (s, fs) = (t, fs')" and "fs' p \<noteq> fs p"
  shows "o_clientTimeoutUs (m_options s) \<noteq> 0 \<and> fs' p = None \<and> m_configDirty t \<and> m_clients t = m_clients s \<and>
    (\<exists>k sec nsec. k < length (m_clients s) \<and> c_path (m_clients s ! k) = p \<and>
       e_stat E (Suc (m_osCalls s) + k) p = Some (sec, nsec) \<and>
       unat (timespecUs sec nsec) + unat (o_clientTimeoutUs (m_options s)) < unat (e_realtime E (m_osCalls s)))"
proof (cases rule: dropExpiredClients_result [of E now s fs])
  case skipped
  with assms show ?thesis by simp
next
  case checked
  let ?stale = "stale_at E (o_clientTimeoutUs (m_options s)) (e_realtime E (m_osCalls s)) (m_clients s) (Suc (m_osCalls s))"
  have "removed_at E (o_clientTimeoutUs (m_options s)) (e_realtime E (m_osCalls s)) (m_clients s) (Suc (m_osCalls s)) p"
    using assms checked(2) by (auto simp: Let_def split: if_splits)
  note st = removed_stale [OF this]
  have "fs' p = None \<and> m_configDirty t \<and> m_clients t = m_clients s"
    using assms st checked(2) by (auto simp: Let_def split: if_splits)
  with st checked(1) show ?thesis
    by (auto simp: stale_at_def is_stale_iff)
qed

definition stale_env :: env where
  "stale_env = example_env\<lparr>e_stat := (\<lambda>n path. if path = ''/r/a.json'' then Some (1600000000, 0) else Some (1700000000, 0))\<rparr>"

definition stale_monitor :: Monitor where
  "stale_monitor = example_monitor\<lparr>m_clients := [(example_client ''a'')\<lparr>c_path := ''/r/a.json''\<rparr>,
     (example_client ''b'')\<lparr>c_path := ''/r/b.json''\<rparr>]\<rparr>"

theorem only_stale_files_removed_witness:
  "let fs = [''/r/a.json'' \<mapsto> (''{}'', 420 :: nat), ''/r/b.json'' \<mapsto> (''{}'', 420)];
       (t, fs') = dropExpiredClients stale_env 100000000 (stale_monitor, fs)
   in fs' ''/r/a.json'' = None \<and> fs' ''/r/b.json'' = fs ''/r/b.json'' \<and> m_configDirty t"
proof -
  let ?fs = "[''/r/a.json'' \<mapsto> (''{}'', 420 :: nat), ''/r/b.json'' \<mapsto> (''{}'', 420)]"
  obtain t fs' where d: "dropExpiredClients stale_env 100000000 (stale_monitor, ?fs) = (t, fs')" by force
  have "fs' ''/r/a.json'' = None" "fs' ''/r/b.json'' = ?fs ''/r/b.json''"
    using d by (auto simp: dropExpiredClients_def stale_monitor_def stale_env_def example_env_def example_defs
        MonitorOptions_default_def clientCheckIntervalUs_def kClientCheckIntervalUs_def is_stale_def timespecUs_def os_unlink_def Let_def)
  moreover from this have "m_configDirty t" using only_stale_files_removed [OF d, of "''/r/a.json''"] by simp
  ultimately show ?thesis unfolding d Let_def by simp
qed

end
