(* ===== verification/Sharing.thy ===== *)
theory Sharing
  imports Config_Properties
begin

text \<open>
  Rebuilding the probers against its specification: the enabled destinations are grouped by their key, one prober
  per key in the order the keys first appear, and the prober a key had before is kept with everything it knows.
  From this follows that a reload establishes the well-formedness invariant.
\<close>

section \<open>The specification\<close>

definition destination_key :: "Client \<Rightarrow> Destination \<Rightarrow> string" where
  "destination_key client d = proberKey (d_address d) (c_intervalUs client) (c_timeoutUs client)"

text \<open>Every enabled destination with its key, in the order of the two loops.\<close>

type_synonym link = "Subscriber \<times> string"

fun dest_links :: "nat \<Rightarrow> Client \<Rightarrow> nat \<Rightarrow> Destination list \<Rightarrow> link list" where
  "dest_links c client k [] = []"
| "dest_links c client k (d # ds) =
     (if d_enabled d then [(\<lparr>sub_client = c, sub_destination = k\<rparr>, destination_key client d)] else []) @
     dest_links c client (Suc k) ds"

fun links :: "nat \<Rightarrow> Client list \<Rightarrow> link list" where
  "links c [] = []"
| "links c (client # clients) = dest_links c client 0 (c_destinations client) @ links (Suc c) clients"

text \<open>The elements of a list in the order of their first occurrence.\<close>

definition firsts :: "'a list \<Rightarrow> 'a list" where
  "firsts xs = rev (remdups (rev xs))"

lemma firsts_snoc [simp]: "firsts (xs @ [x]) = (if x \<in> set xs then firsts xs else firsts xs @ [x])"
  by (simp add: firsts_def)

lemma firsts_simps [simp]: "firsts [] = []" "distinct (firsts xs)" "set (firsts xs) = set xs"
  by (simp_all add: firsts_def)

text \<open>The destination after the rebuild, for an index of the keys.\<close>

definition assign :: "(string \<rightharpoonup> nat) \<Rightarrow> Client \<Rightarrow> Destination \<Rightarrow> Destination" where
  "assign byKey client d =
     d\<lparr>d_prober := (if d_enabled d then int (the (byKey (destination_key client d))) else - 1)\<rparr>"

section \<open>The index of the previous probers\<close>

lemma emplace_apply: "emplace k v m x = (if x = k \<and> m k = None then Some v else m x)"
  by (simp add: emplace_def)

lemma emplace_fold:
  assumes "n \<le> length ps"
  shows "(fold (\<lambda>i. emplace (keyOf (ps ! i)) i) [0..<n] Map.empty k = Some i \<longrightarrow> i < n \<and> keyOf (ps ! i) = k) \<and>
    (fold (\<lambda>i. emplace (keyOf (ps ! i)) i) [0..<n] Map.empty k = None \<longleftrightarrow> k \<notin> keyOf ` set (take n ps))"
  using assms
proof (induction n)
  case (Suc n)
  define m where "m = fold (\<lambda>i. emplace (keyOf (ps ! i)) i) [0..<n] Map.empty"
  have t: "set (take (Suc n) ps) = insert (ps ! n) (set (take n ps))"
    using Suc.prems by (simp add: take_Suc_conv_app_nth)
  have s: "fold (\<lambda>i. emplace (keyOf (ps ! i)) i) [0..<Suc n] Map.empty = emplace (keyOf (ps ! n)) n m"
    by (simp add: m_def)
  have "(m k = Some i \<longrightarrow> i < n \<and> keyOf (ps ! i) = k) \<and> (m k = None \<longleftrightarrow> k \<notin> keyOf ` set (take n ps))"
    using Suc unfolding m_def by simp
  then show ?case
    unfolding s t by (auto simp: emplace_apply)
qed simp

lemma indexByKey_SomeD: "indexByKey ps k = Some i \<Longrightarrow> i < length ps \<and> keyOf (ps ! i) = k"
  using emplace_fold [of "length ps" ps k i] by (simp add: indexByKey_def)

lemma indexByKey_None: "indexByKey ps k = None \<longleftrightarrow> k \<notin> keyOf ` set ps"
  using emplace_fold [of "length ps" ps k] by (simp add: indexByKey_def)

section \<open>The invariant of the loops\<close>

definition strip :: "Prober \<Rightarrow> Prober" where
  "strip p = p\<lparr>pr_subscribers := []\<rparr>"

lemma strip_simps [simp]:
  "keyOf (strip p) = keyOf p" "pr_uid (strip p) = pr_uid p" "pr_inFlight (strip p) = pr_inFlight p"
  "strip (strip p) = strip p" "strip (p\<lparr>pr_subscribers := x\<rparr>) = strip p" "keyOf (p\<lparr>pr_subscribers := x\<rparr>) = keyOf p"
  by (simp_all add: strip_def keyOf_def)

text \<open>The probers have the keys \<open>K\<close>, the index finds them, and each is subscribed to by the links of its key.\<close>

definition share_inv :: "string list \<Rightarrow> link list \<Rightarrow> rebuild \<Rightarrow> bool" where
  "share_inv K L rb \<longleftrightarrow> map keyOf (rb_probers rb) = K \<and> distinct K \<and>
     (\<forall>k i. rb_byKey rb k = Some i \<longleftrightarrow> i < length K \<and> K ! i = k) \<and>
     (\<forall>i < length K. pr_subscribers (rb_probers rb ! i) = map fst (filter (\<lambda>l. snd l = K ! i) L))"

text \<open>A prober that was just made.\<close>

definition fresh :: "Prober \<Rightarrow> bool" where
  "fresh p \<longleftrightarrow> pr_inFlight p = [] \<and> pr_sequence p = 0 \<and> pr_sent p = 0 \<and> pr_received p = 0 \<and>
     pr_resolveFailures p = 0 \<and> \<not> pr_resolving p \<and> 0 < pr_intervalUs p"

text \<open>
  Each prober is a previous one, taken once, or a new one whose key no previous prober had; uids are distinct.
\<close>

definition origin_inv :: "Prober list \<Rightarrow> u32 \<Rightarrow> rebuild \<Rightarrow> bool" where
  "origin_inv previous uid0 rb \<longleftrightarrow>
     (let ps = map strip (rb_probers rb)
      in length (rb_consumed rb) = length previous \<and>
         (\<forall>j < length previous. rb_consumed rb ! j \<longrightarrow> strip (previous ! j) \<in> set ps) \<and>
         (\<forall>p \<in> set ps. (\<exists>j < length previous. rb_consumed rb ! j \<and> p = strip (previous ! j)) \<or>
            (fresh p \<and> keyOf p \<notin> keyOf ` set previous \<and> uid0 \<le> pr_uid p \<and> pr_uid p < rb_nextUid rb)) \<and>
         distinct (map pr_uid ps) \<and> uid0 \<le> rb_nextUid rb \<and> unat (rb_nextUid rb) \<le> unat uid0 + length ps)"

definition previous_ok :: "Prober list \<Rightarrow> u32 \<Rightarrow> bool" where
  "previous_ok previous uid0 \<longleftrightarrow> distinct (map keyOf previous) \<and> distinct (map pr_uid previous) \<and>
     (\<forall>p \<in> set previous. pr_uid p < uid0)"

section \<open>Making a prober\<close>

lemma newProber_result:
  assumes "newProber E now client d rb = (p, rb')" and "0 < c_intervalUs client"
  shows "fresh p" and "keyOf p = destination_key client d" and "pr_uid p = rb_nextUid rb" and "pr_subscribers p = []"
    and "rb_nextUid rb' = rb_nextUid rb + 1" and "rb_probers rb' = rb_probers rb" and "rb_consumed rb' = rb_consumed rb"
    and "rb_byKey rb' = rb_byKey rb"
  using assms by (auto simp: newProber_def Let_def fresh_def keyOf_def destination_key_def Prober_default_def
      split: prod.splits if_splits)

text \<open>
  A prober for a key no new prober has: the previous prober of that key, which nobody took yet, or a new one.
\<close>

lemma takeProber_result:
  assumes "takeProber E now previous (indexByKey previous) client d rb = (p, rb')"
    and "origin_inv previous uid0 rb" and "destination_key client d \<notin> keyOf ` set (rb_probers rb)"
    and "0 < c_intervalUs client"
  obtains (recycled) j where "j < length previous" "\<not> rb_consumed rb ! j" "keyOf (previous ! j) = destination_key client d"
      "p = strip (previous ! j)" "rb' = rb\<lparr>rb_consumed := (rb_consumed rb)[j := True]\<rparr>"
  | (made) "destination_key client d \<notin> keyOf ` set previous" "newProber E now client d rb = (p, rb')"
proof (cases "indexByKey previous (destination_key client d)")
  case None
  then have "newProber E now client d rb = (p, rb')"
    using assms(1) by (simp add: takeProber_def Let_def destination_key_def)
  with None show ?thesis using made by (simp add: indexByKey_None)
next
  case (Some j)
  then have j: "j < length previous" "keyOf (previous ! j) = destination_key client d"
    using indexByKey_SomeD by blast+
  have "\<not> rb_consumed rb ! j"
  proof
    assume "rb_consumed rb ! j"
    then have "strip (previous ! j) \<in> strip ` set (rb_probers rb)"
      using assms(2) j(1) by (simp add: origin_inv_def Let_def)
    then have "keyOf (previous ! j) \<in> keyOf ` set (rb_probers rb)"
      by (metis (no_types, lifting) image_iff strip_simps(1))
    with assms(3) j(2) show False by simp
  qed
  moreover from this Some have "p = strip (previous ! j)" "rb' = rb\<lparr>rb_consumed := (rb_consumed rb)[j := True]\<rparr>"
    using assms(1) by (auto simp: takeProber_def Let_def destination_key_def strip_def)
  ultimately show ?thesis using j recycled by blast
qed

definition pushed :: "string \<Rightarrow> Prober \<Rightarrow> rebuild \<Rightarrow> rebuild" where
  "pushed key p rb = rb\<lparr>rb_probers := rb_probers rb @ [p], rb_byKey := (rb_byKey rb)(key \<mapsto> length (rb_probers rb))\<rparr>"

lemma pushed_share:
  assumes "share_inv K L rb" and "keyOf p = key" and "pr_subscribers p = []" and "key \<notin> set K"
    and "key \<notin> set (map snd L)"
  shows "share_inv (K @ [key]) L (pushed key p rb)"
proof -
  have K: "map keyOf (rb_probers rb) = K" and dist: "distinct K"
    and idx: "\<And>k i. rb_byKey rb k = Some i \<longleftrightarrow> i < length K \<and> K ! i = k"
    and subs: "\<And>i. i < length K \<Longrightarrow> pr_subscribers (rb_probers rb ! i) = map fst (filter (\<lambda>l. snd l = K ! i) L)"
    using assms(1) by (simp_all add: share_inv_def)
  have len: "length (rb_probers rb) = length K" using K by (metis length_map)
  have nokey: "K ! i \<noteq> key" if "i < length K" for i using assms(4) that nth_mem by blast
  have empty_links: "filter (\<lambda>l. snd l = key) L = []" using assms(5) by (auto simp: filter_empty_conv)
  show ?thesis
    unfolding share_inv_def
  proof (intro conjI allI impI)
    show "map keyOf (rb_probers (pushed key p rb)) = K @ [key]" using K assms(2) by (simp add: pushed_def)
    show "distinct (K @ [key])" using dist assms(4) by simp
    show "rb_byKey (pushed key p rb) k = Some i \<longleftrightarrow> i < length (K @ [key]) \<and> (K @ [key]) ! i = k" for k i
      using nokey by (cases "i < length K") (auto simp: pushed_def len idx nth_append less_Suc_eq)
    show "pr_subscribers (rb_probers (pushed key p rb) ! i) = map fst (filter (\<lambda>l. snd l = (K @ [key]) ! i) L)"
      if "i < length (K @ [key])" for i
      using that subs assms(3) empty_links by (cases "i < length K") (simp_all add: pushed_def len nth_append less_Suc_eq)
  qed
qed

lemma share_keys: "share_inv K L rb \<Longrightarrow> keyOf ` set (rb_probers rb) = set K"
  by (auto simp: share_inv_def)

text \<open>The parts of the invariant on where the probers come from.\<close>

lemma origin_invD:
  assumes "origin_inv previous uid0 rb"
  shows "length (rb_consumed rb) = length previous"
    and "j < length previous \<Longrightarrow> rb_consumed rb ! j \<Longrightarrow> strip (previous ! j) \<in> strip ` set (rb_probers rb)"
    and "p \<in> strip ` set (rb_probers rb) \<Longrightarrow> (\<exists>j < length previous. rb_consumed rb ! j \<and> p = strip (previous ! j)) \<or>
      (fresh p \<and> keyOf p \<notin> keyOf ` set previous \<and> uid0 \<le> pr_uid p \<and> pr_uid p < rb_nextUid rb)"
    and "distinct (map pr_uid (map strip (rb_probers rb)))" and "uid0 \<le> rb_nextUid rb"
    and "unat (rb_nextUid rb) \<le> unat uid0 + length (rb_probers rb)"
  using assms unfolding origin_inv_def Let_def by auto

lemma pushed_recycled:
  assumes inv: "origin_inv previous uid0 rb" and ok: "previous_ok previous uid0"
    and j: "j < length previous" "\<not> rb_consumed rb ! j"
  shows "origin_inv previous uid0 (pushed key (strip (previous ! j)) (rb\<lparr>rb_consumed := (rb_consumed rb)[j := True]\<rparr>))"
proof -
  note D = origin_invD [OF inv]
  have new: "pr_uid (previous ! j) \<noteq> pr_uid p" if "p \<in> strip ` set (rb_probers rb)" for p
  proof -
    from D(3) [OF that] show ?thesis
    proof
      assume "\<exists>i < length previous. rb_consumed rb ! i \<and> p = strip (previous ! i)"
      then obtain i where i: "i < length previous" "rb_consumed rb ! i" "p = strip (previous ! i)" by blast
      then have "i \<noteq> j" using j(2) by blast
      then show ?thesis using ok i j(1) by (simp add: previous_ok_def distinct_conv_nth)
    next
      assume "fresh p \<and> keyOf p \<notin> keyOf ` set previous \<and> uid0 \<le> pr_uid p \<and> pr_uid p < rb_nextUid rb"
      moreover have "pr_uid (previous ! j) < uid0" using ok j(1) by (simp add: previous_ok_def)
      ultimately show ?thesis by auto
    qed
  qed
  have "\<forall>p \<in> strip ` set (rb_probers rb). (\<exists>i < length previous. (rb_consumed rb)[j := True] ! i \<and> p = strip (previous ! i)) \<or>
      (fresh p \<and> keyOf p \<notin> keyOf ` set previous \<and> uid0 \<le> pr_uid p \<and> pr_uid p < rb_nextUid rb)"
    using D(3) j by (metis nth_list_update_neq)
  moreover have "(rb_consumed rb)[j := True] ! j" using D(1) j(1) by simp
  moreover have "\<forall>i < length previous. (rb_consumed rb)[j := True] ! i \<longrightarrow>
      i = j \<or> strip (previous ! i) \<in> strip ` set (rb_probers rb)"
    using D(2) by (metis nth_list_update_neq)
  moreover have "pr_uid (previous ! j) \<notin> pr_uid ` set (rb_probers rb)" using new by force
  ultimately show ?thesis
    using D(1,4-6) j(1) unfolding origin_inv_def Let_def pushed_def by auto
qed

lemma pushed_made:
  assumes inv: "origin_inv previous uid0 rb" and room: "unat uid0 + length (rb_probers rb) < 2 ^ 32 - 1"
    and p: "fresh (strip p)" "keyOf p \<notin> keyOf ` set previous" "pr_uid p = rb_nextUid rb" and ok: "previous_ok previous uid0"
    and rb': "rb_probers rb' = rb_probers rb" "rb_consumed rb' = rb_consumed rb" "rb_nextUid rb' = rb_nextUid rb + 1"
  shows "origin_inv previous uid0 (pushed key p rb')"
proof -
  note D = origin_invD [OF inv]
  have n: "unat (rb_nextUid rb + 1) = unat (rb_nextUid rb) + 1"
    using D(6) room by (simp add: unat_word_ariths)
  then have lt: "rb_nextUid rb < rb_nextUid rb + 1" by (simp add: word_less_nat_alt)
  have new: "rb_nextUid rb \<noteq> pr_uid q" if "q \<in> strip ` set (rb_probers rb)" for q
  proof -
    have "pr_uid (previous ! j) < rb_nextUid rb" if "j < length previous" for j
      by (rule less_le_trans [OF _ D(5)]) (use ok that in \<open>simp add: previous_ok_def\<close>)
    then show ?thesis using D(3) [OF that] by (metis less_irrefl strip_simps(2))
  qed
  have "\<forall>q \<in> strip ` set (rb_probers rb). (\<exists>i < length previous. rb_consumed rb ! i \<and> q = strip (previous ! i)) \<or>
      (fresh q \<and> keyOf q \<notin> keyOf ` set previous \<and> uid0 \<le> pr_uid q \<and> pr_uid q < rb_nextUid rb + 1)"
    using D(3) lt less_trans by blast
  moreover have "rb_nextUid rb \<notin> pr_uid ` set (rb_probers rb)" using new by force
  moreover have "uid0 \<le> rb_nextUid rb + 1" using D(5) lt by simp
  ultimately show ?thesis
    using D(1,2,4-6) lt p n unfolding origin_inv_def Let_def pushed_def rb' by (auto simp: rb')
qed

section \<open>One destination\<close>

definition rinv :: "Prober list \<Rightarrow> u32 \<Rightarrow> link list \<Rightarrow> rebuild \<Rightarrow> bool" where
  "rinv previous uid0 L rb \<longleftrightarrow> share_inv (firsts (map snd L)) L rb \<and> origin_inv previous uid0 rb"

lemma rinv_length: "rinv previous uid0 L rb \<Longrightarrow> length (rb_probers rb) \<le> length L"
proof -
  assume "rinv previous uid0 L rb"
  then have "map keyOf (rb_probers rb) = firsts (map snd L)" by (simp add: rinv_def share_inv_def)
  then have "length (rb_probers rb) = length (firsts (map snd L))" by (metis length_map)
  also have "\<dots> \<le> length L" unfolding firsts_def using length_remdups_leq [of "rev (map snd L)"] by simp
  finally show ?thesis .
qed

abbreviation with_key :: "string \<Rightarrow> string list \<Rightarrow> string list" where
  "with_key key K \<equiv> (if key \<in> set K then K else K @ [key])"

lemma ensureProber_result:
  fixes previous :: "Prober list" and uid0 :: u32 and L :: "link list" and rb :: rebuild and client :: Client
    and d :: Destination and E :: env and now :: u64
  assumes inv: "rinv previous uid0 L rb" and ok: "previous_ok previous uid0"
    and room: "unat uid0 + length L < 2 ^ 32 - 1" and pos: "0 < c_intervalUs client"
  defines "key \<equiv> destination_key client d"
  defines "rb1 \<equiv> ensureProber E now previous (indexByKey previous) client d rb"
  shows "share_inv (with_key key (firsts (map snd L))) L rb1 \<and> origin_inv previous uid0 rb1 \<and> rb_byKey rb \<subseteq>\<^sub>m rb_byKey rb1"
proof -
  let ?K = "firsts (map snd L)"
  have share: "share_inv ?K L rb" and origin: "origin_inv previous uid0 rb" using inv by (simp_all add: rinv_def)
  have idx: "\<And>k i. rb_byKey rb k = Some i \<longleftrightarrow> i < length ?K \<and> ?K ! i = k" using share by (simp add: share_inv_def)
  show ?thesis
  proof (cases "key \<in> set ?K")
    case True
    then obtain i where "rb_byKey rb key = Some i" using idx by (metis in_set_conv_nth)
    then have "rb1 = rb" by (simp add: rb1_def ensureProber_def key_def destination_key_def Let_def)
    with True share origin show ?thesis by simp
  next
    case False
    then have none: "rb_byKey rb key = None" using idx nth_mem by (metis not_None_eq)
    obtain p rb0 where t: "takeProber E now previous (indexByKey previous) client d rb = (p, rb0)" by force
    have rb1: "rb1 = pushed key p rb0"
      using none t by (simp add: rb1_def ensureProber_def pushed_def key_def destination_key_def Let_def)
    have notin: "destination_key client d \<notin> keyOf ` set (rb_probers rb)" using False share_keys [OF share] by (simp add: key_def)
    from t origin notin pos have "share_inv ?K L rb0 \<and> keyOf p = key \<and> pr_subscribers p = [] \<and> rb_byKey rb0 = rb_byKey rb \<and>
        origin_inv previous uid0 (pushed key p rb0)"
    proof (cases rule: takeProber_result)
      case (recycled j)
      then show ?thesis using pushed_recycled [OF origin ok] share by (simp add: share_inv_def key_def strip_def)
    next
      case made
      note N = newProber_result [OF made(2) pos]
      have "origin_inv previous uid0 (pushed key p rb0)"
        by (rule pushed_made [OF origin _ _ _ N(3) ok N(6,7,5)])
          (use N made room rinv_length [OF inv] in \<open>simp_all add: fresh_def strip_def\<close>)
      with N share show ?thesis by (simp add: share_inv_def key_def)
    qed
    moreover from this False have "share_inv (?K @ [key]) L rb1"
      unfolding rb1 by (intro pushed_share) simp_all
    moreover have "rb_byKey rb0 \<subseteq>\<^sub>m rb_byKey rb1" if "rb_byKey rb0 = rb_byKey rb"
      using none that by (auto simp: rb1 pushed_def map_le_def)
    ultimately show ?thesis using False by (simp add: rb1)
  qed
qed

lemma subscribe_result:
  assumes "share_inv K L rb" and "rb_byKey rb key = Some i" and "origin_inv previous uid0 rb"
  shows "share_inv K (L @ [(sub, key)]) (subscribe i sub rb) \<and> origin_inv previous uid0 (subscribe i sub rb) \<and>
    rb_byKey (subscribe i sub rb) = rb_byKey rb"
proof -
  have K: "map keyOf (rb_probers rb) = K" and dist: "distinct K"
    and idx: "\<And>k i. rb_byKey rb k = Some i \<longleftrightarrow> i < length K \<and> K ! i = k"
    and subs: "\<And>i. i < length K \<Longrightarrow> pr_subscribers (rb_probers rb ! i) = map fst (filter (\<lambda>l. snd l = K ! i) L)"
    using assms(1) by (simp_all add: share_inv_def)
  have len: "length (rb_probers rb) = length K" using K by (metis length_map)
  have i: "i < length K" "K ! i = key" using assms(2) idx by simp_all
  have same: "map f (rb_probers (subscribe i sub rb)) = map f (rb_probers rb)"
    if "\<And>p x. f (p\<lparr>pr_subscribers := x\<rparr>) = f p" for f :: "Prober \<Rightarrow> 'b"
    using i(1) by (simp add: subscribe_def Let_def map_update that len list_update_same_conv)
  have "share_inv K (L @ [(sub, key)]) (subscribe i sub rb)"
    unfolding share_inv_def
  proof (intro conjI allI impI)
    show "map keyOf (rb_probers (subscribe i sub rb)) = K" using K by (simp add: same)
    show "pr_subscribers (rb_probers (subscribe i sub rb) ! n) = map fst (filter (\<lambda>l. snd l = K ! n) (L @ [(sub, key)]))"
      if "n < length K" for n
      using that subs i dist by (auto simp: subscribe_def Let_def len nth_list_update nth_eq_iff_index_eq)
  qed (use dist idx in \<open>simp_all add: subscribe_def Let_def\<close>)
  moreover have "origin_inv previous uid0 (subscribe i sub rb)"
    using assms(3) same [of strip] by (simp add: origin_inv_def subscribe_def Let_def)
  ultimately show ?thesis by (simp add: subscribe_def Let_def)
qed

lemma rebuildDestination_result:
  assumes inv: "rinv previous uid0 L rb" and ok: "previous_ok previous uid0"
    and room: "unat uid0 + length L < 2 ^ 32 - 1" and pos: "0 < c_intervalUs client"
    and result: "rebuildDestination E now previous (indexByKey previous) c client k d rb = (d', rb')"
  shows "rinv previous uid0 (L @ dest_links c client k [d]) rb' \<and> rb_byKey rb \<subseteq>\<^sub>m rb_byKey rb' \<and>
    d' = assign (rb_byKey rb') client d \<and> (d_enabled d \<longrightarrow> destination_key client d \<in> dom (rb_byKey rb'))"
proof (cases "d_enabled d")
  case False
  then show ?thesis using inv result by (auto simp: rebuildDestination_def assign_def)
next
  case True
  let ?key = "destination_key client d" and ?K = "firsts (map snd L)"
  let ?rb1 = "ensureProber E now previous (indexByKey previous) client (d\<lparr>d_prober := - 1\<rparr>) rb"
  have key1: "destination_key client (d\<lparr>d_prober := - 1\<rparr>) = ?key" by (simp add: destination_key_def)
  have e: "share_inv (with_key ?key ?K) L ?rb1" "origin_inv previous uid0 ?rb1" "rb_byKey rb \<subseteq>\<^sub>m rb_byKey ?rb1"
    using ensureProber_result [OF inv ok room pos, of "d\<lparr>d_prober := - 1\<rparr>" E now] unfolding key1 by auto
  obtain i where i: "rb_byKey ?rb1 ?key = Some i"
  proof -
    have "?key \<in> set (with_key ?key ?K)" by simp
    then obtain i where "i < length (with_key ?key ?K)" "with_key ?key ?K ! i = ?key" by (metis in_set_conv_nth)
    then have "rb_byKey ?rb1 ?key = Some i" using e(1) by (simp add: share_inv_def)
    then show ?thesis by (rule that)
  qed
  have r: "d' = d\<lparr>d_prober := int i\<rparr>" "rb' = subscribe i \<lparr>sub_client = c, sub_destination = k\<rparr> ?rb1"
    using result True i by (simp_all add: rebuildDestination_def destination_key_def)
  have "with_key ?key ?K = firsts (map snd (L @ dest_links c client k [d]))" using True by auto
  with subscribe_result [OF e(1) i e(2), of "\<lparr>sub_client = c, sub_destination = k\<rparr>"] True i e(3)
  show ?thesis unfolding r by (auto simp: rinv_def assign_def)
qed

section \<open>The loops\<close>

lemma assign_mono:
  assumes "m \<subseteq>\<^sub>m m'" and "d_enabled d \<longrightarrow> destination_key client d \<in> dom m"
  shows "assign m' client d = assign m client d"
  using assms by (auto simp: assign_def map_le_def)

lemma dest_links_enabled: "d \<in> set ds \<Longrightarrow> d_enabled d \<Longrightarrow> destination_key client d \<in> snd ` set (dest_links c client k ds)"
  by (induction ds arbitrary: k) auto

lemma rinv_dom: "rinv previous uid0 L rb \<Longrightarrow> dom (rb_byKey rb) = snd ` set L"
proof -
  assume "rinv previous uid0 L rb"
  then have "rb_byKey rb k = Some i \<longleftrightarrow> i < length (firsts (map snd L)) \<and> firsts (map snd L) ! i = k" for k i
    by (simp add: rinv_def share_inv_def)
  then have "k \<in> dom (rb_byKey rb) \<longleftrightarrow> k \<in> set (firsts (map snd L))" for k
    by (simp only: domIff not_None_eq in_set_conv_nth)
  then show ?thesis by auto
qed

lemma rebuildDestinations_result:
  assumes "rinv previous uid0 L rb" and ok: "previous_ok previous uid0"
    and "unat uid0 + length (L @ dest_links c client k ds) < 2 ^ 32" and pos: "0 < c_intervalUs client"
    and "rebuildDestinations E now previous (indexByKey previous) c client k ds rb = (ds', rb')"
  shows "rinv previous uid0 (L @ dest_links c client k ds) rb' \<and> rb_byKey rb \<subseteq>\<^sub>m rb_byKey rb' \<and>
    ds' = map (assign (rb_byKey rb') client) ds"
  using assms(1,3,5)
proof (induction ds arbitrary: k L rb ds' rb')
  case (Cons d ds)
  obtain d1 rb1 where 1: "rebuildDestination E now previous (indexByKey previous) c client k d rb = (d1, rb1)" by force
  obtain ds1 where 2: "rebuildDestinations E now previous (indexByKey previous) c client (Suc k) ds rb1 = (ds1, rb')" and ds': "ds' = d1 # ds1"
    using Cons.prems(3) 1 by (auto split: prod.splits)
  show ?case
  proof (cases "d_enabled d")
    case False
    then have rb1: "rb1 = rb" "d1 = assign m client d" for m
      using 1 by (auto simp: rebuildDestination_def assign_def)
    then show ?thesis using Cons.IH [OF Cons.prems(1) _ 2 [unfolded rb1]] Cons.prems(2) False by (simp add: ds')
  next
    case True
    have "unat uid0 + length L < 2 ^ 32 - 1" using Cons.prems(2) True by simp
    note R = rebuildDestination_result [OF Cons.prems(1) ok this pos 1]
    have "rinv previous uid0 ((L @ dest_links c client k [d]) @ dest_links c client (Suc k) ds) rb' \<and>
        rb_byKey rb1 \<subseteq>\<^sub>m rb_byKey rb' \<and> ds1 = map (assign (rb_byKey rb') client) ds"
      using R Cons.prems(2) by (intro Cons.IH [OF _ _ 2]) auto
    moreover from this R True have "assign (rb_byKey rb') client d = assign (rb_byKey rb1) client d"
      by (intro assign_mono) simp_all
    ultimately show ?thesis using R True by (auto simp: ds' intro: map_le_trans)
  qed
qed simp

lemma rebuildClients_result:
  assumes "rinv previous uid0 L rb" and ok: "previous_ok previous uid0"
    and "unat uid0 + length (L @ links c cs) < 2 ^ 32" and "\<forall>client \<in> set cs. 0 < c_intervalUs client"
    and "rebuildClients E now previous (indexByKey previous) c cs rb = (cs', rb')"
  shows "rinv previous uid0 (L @ links c cs) rb' \<and> rb_byKey rb \<subseteq>\<^sub>m rb_byKey rb' \<and>
    cs' = map (\<lambda>client. client\<lparr>c_destinations := map (assign (rb_byKey rb') client) (c_destinations client)\<rparr>) cs"
  using assms(1,3-5)
proof (induction cs arbitrary: c L rb cs' rb')
  case (Cons client cs)
  obtain ds rb1 where 1: "rebuildDestinations E now previous (indexByKey previous) c client 0 (c_destinations client) rb = (ds, rb1)"
    by force
  obtain cs1 where 2: "rebuildClients E now previous (indexByKey previous) (Suc c) cs rb1 = (cs1, rb')"
    and cs': "cs' = client\<lparr>c_destinations := ds\<rparr> # cs1"
    using Cons.prems(4) 1 by (auto split: prod.splits)
  let ?L = "L @ dest_links c client 0 (c_destinations client)"
  have R: "rinv previous uid0 ?L rb1" "rb_byKey rb \<subseteq>\<^sub>m rb_byKey rb1"
      "ds = map (assign (rb_byKey rb1) client) (c_destinations client)"
    using rebuildDestinations_result [OF Cons.prems(1) ok _ _ 1] Cons.prems by auto
  have S: "rinv previous uid0 (?L @ links (Suc c) cs) rb'" "rb_byKey rb1 \<subseteq>\<^sub>m rb_byKey rb'"
      "cs1 = map (\<lambda>client. client\<lparr>c_destinations := map (assign (rb_byKey rb') client) (c_destinations client)\<rparr>) cs"
    using Cons.IH [OF R(1) _ _ 2] Cons.prems by auto
  have "map (assign (rb_byKey rb1) client) (c_destinations client) = map (assign (rb_byKey rb') client) (c_destinations client)"
  proof (rule map_cong [OF refl], rule assign_mono [OF S(2), symmetric])
    fix d assume "d \<in> set (c_destinations client)"
    then show "d_enabled d \<longrightarrow> destination_key client d \<in> dom (rb_byKey rb1)"
      unfolding rinv_dom [OF R(1)] using dest_links_enabled by fastforce
  qed
  then show ?case using R(2,3) S by (auto simp: cs' intro: map_le_trans)
qed simp

section \<open>Links and positions\<close>

lemma set_dest_links:
  "set (dest_links c client k ds) =
     {(\<lparr>sub_client = c, sub_destination = k + j\<rparr>, destination_key client (ds ! j)) | j. j < length ds \<and> d_enabled (ds ! j)}"
proof (induction ds arbitrary: k)
  case (Cons d ds)
  have "(x \<in> set (dest_links c client k (d # ds))) \<longleftrightarrow>
      (\<exists>j < Suc (length ds). x = (\<lparr>sub_client = c, sub_destination = k + j\<rparr>, destination_key client ((d # ds) ! j)) \<and>
         d_enabled ((d # ds) ! j))" for x
    unfolding Ex_less_Suc2 by (auto simp: Cons.IH)
  then show ?case by auto
qed simp

lemma set_links:
  "x \<in> set (links c cs) \<longleftrightarrow>
     (\<exists>i < length cs. \<exists>j. x = (\<lparr>sub_client = c + i, sub_destination = j\<rparr>, destination_key (cs ! i) (c_destinations (cs ! i) ! j)) \<and>
        j < length (c_destinations (cs ! i)) \<and> d_enabled (c_destinations (cs ! i) ! j))"
proof (induction cs arbitrary: c)
  case (Cons client cs)
  show ?case
    unfolding length_Cons Ex_less_Suc2 by (auto simp: Cons.IH set_dest_links)
qed simp

lemma links_at_iff:
  "(\<lparr>sub_client = c, sub_destination = k\<rparr>, key) \<in> set (links 0 cs) \<longleftrightarrow>
     c < length cs \<and> k < length (c_destinations (cs ! c)) \<and> d_enabled (c_destinations (cs ! c) ! k) \<and>
     key = destination_key (cs ! c) (c_destinations (cs ! c) ! k)"
  by (auto simp: set_links)

lemma distinct_dest_links: "distinct (map fst (dest_links c client k ds))"
proof (induction ds arbitrary: k)
  case (Cons d ds)
  then show ?case by (auto simp: set_dest_links)
qed simp

lemma distinct_links: "distinct (map fst (links c cs))"
proof (induction cs arbitrary: c)
  case (Cons client cs)
  then show ?case by (auto simp: distinct_dest_links set_dest_links set_links)
qed simp

section \<open>The rebuilt monitor\<close>

lemma windowFor_bounds: "1 \<le> windowFor t i \<and> windowFor t i \<le> 8"
proof -
  define w where "w = min (max ((t + i - 1) div i) 1) kMaxInFlight"
  have "1 \<le> w" "w \<le> 8" by (auto simp: w_def kMaxInFlight_def)
  then show ?thesis by (simp add: windowFor_def Let_def word_le_nat_alt flip: w_def)
qed

text \<open>The uid index that the final loop builds.\<close>

lemma uid_index:
  assumes "distinct (map pr_uid ps)" and "n \<le> length ps"
  shows "fold (\<lambda>i m. m(pr_uid (ps ! i) \<mapsto> i)) [0..<n] Map.empty u = Some i \<longleftrightarrow> i < n \<and> pr_uid (ps ! i) = u"
  using assms(2)
proof (induction n arbitrary: u)
  case (Suc n)
  then show ?case
    using assms(1) by (auto simp: less_Suc_eq distinct_conv_nth)
qed simp

text \<open>What a configured monitor satisfies between two reloads, besides being well-formed.\<close>

definition wf_config :: "Monitor \<Rightarrow> bool" where
  "wf_config s \<longleftrightarrow> wf_monitor s \<and> previous_ok (m_probers s) (m_nextUid s) \<and>
     (\<forall>p \<in> set (m_probers s). pr_maxInFlight p = windowFor (pr_timeoutUs p) (pr_intervalUs p))"

definition all_links :: "Monitor \<Rightarrow> link list" where
  "all_links s = links 0 (m_clients s)"

text \<open>The counter of uids must not be about to wrap: that takes four thousand million new probers.\<close>

definition destination_count :: "Client list \<Rightarrow> nat" where
  "destination_count cs = sum_list (map (\<lambda>client. length (c_destinations client)) cs)"

definition uids_left :: "Monitor \<Rightarrow> Client list \<Rightarrow> bool" where
  "uids_left s cs \<longleftrightarrow> unat (m_nextUid s) + destination_count cs < 2 ^ 32"

lemma length_dest_links: "length (dest_links c client k ds) \<le> length ds"
  by (induction ds arbitrary: k) (auto intro: le_SucI)

lemma length_links: "length (links c cs) \<le> destination_count cs"
proof (induction cs arbitrary: c)
  case (Cons client cs)
  then show ?case using add_mono [OF length_dest_links Cons.IH] by (simp add: destination_count_def)
qed (simp add: destination_count_def)

lemma rebuildProbers_loops:
  assumes ok: "previous_ok (m_probers s) (m_nextUid s)" and room: "uids_left s (m_clients s)"
    and pos: "\<forall>client \<in> set (m_clients s). 0 < c_intervalUs client"
  obtains cs rb where "rinv (m_probers s) (m_nextUid s) (all_links s) rb"
    and "cs = map (\<lambda>client. client\<lparr>c_destinations := map (assign (rb_byKey rb) client) (c_destinations client)\<rparr>) (m_clients s)"
    and "rebuildProbers E s = s\<lparr>m_clients := cs,
           m_probers := map (\<lambda>p. p\<lparr>pr_maxInFlight := windowFor (pr_timeoutUs p) (pr_intervalUs p)\<rparr>) (rb_probers rb),
           m_proberByUid := fold (\<lambda>i m. m(pr_uid (rb_probers rb ! i) \<mapsto> i)) [0..<length (rb_probers rb)] Map.empty,
           m_nextUid := rb_nextUid rb, m_minIntervalUs := minInterval (rb_probers rb), m_osCalls := rb_calls rb\<rparr>"
proof -
  define rb0 where "rb0 = \<lparr>rb_probers = [], rb_consumed = replicate (length (m_probers s)) False, rb_byKey = Map.empty,
                 rb_nextUid = m_nextUid s, rb_calls = Suc (m_osCalls s)\<rparr>"
  obtain cs rb where r: "rebuildClients E (e_monotonic E (m_osCalls s)) (m_probers s) (indexByKey (m_probers s)) 0 (m_clients s) rb0 = (cs, rb)"
    by force
  have "rinv (m_probers s) (m_nextUid s) [] rb0"
    by (simp add: rinv_def share_inv_def origin_inv_def rb0_def)
  moreover have "unat (m_nextUid s) + length (links 0 (m_clients s)) < 2 ^ 32"
    using room length_links [of 0 "m_clients s"] by (simp add: uids_left_def)
  ultimately have
    "rinv (m_probers s) (m_nextUid s) (all_links s) rb"
    "cs = map (\<lambda>client. client\<lparr>c_destinations := map (assign (rb_byKey rb) client) (c_destinations client)\<rparr>) (m_clients s)"
    using rebuildClients_result [OF _ ok _ pos r, of "[]"] by (simp_all add: all_links_def)
  then show ?thesis
    by (rule that) (use r in \<open>simp add: rebuildProbers_def Let_def rb0_def\<close>)
qed

text \<open>
  The specification of a rebuild from \<open>s\<close> to \<open>t\<close>, with the index of the keys it built.
\<close>

definition rebuilt :: "Monitor \<Rightarrow> Monitor \<Rightarrow> (string \<rightharpoonup> nat) \<Rightarrow> bool" where
  "rebuilt s t idx \<longleftrightarrow>
     (let L = all_links s; K = firsts (map snd L)
      in (\<forall>k i. idx k = Some i \<longleftrightarrow> i < length K \<and> K ! i = k) \<and>
         m_clients t = map (\<lambda>client. client\<lparr>c_destinations := map (assign idx client) (c_destinations client)\<rparr>) (m_clients s) \<and>
         map keyOf (m_probers t) = K \<and>
         (\<forall>i < length K. pr_subscribers (m_probers t ! i) = map fst (filter (\<lambda>l. snd l = K ! i) L)) \<and>
         (\<forall>p \<in> set (m_probers t). pr_maxInFlight p = windowFor (pr_timeoutUs p) (pr_intervalUs p)) \<and>
         distinct (map pr_uid (m_probers t)) \<and> wf_index t \<and> m_nextUid s \<le> m_nextUid t \<and>
         (\<forall>p \<in> set (m_probers t).
            (\<exists>j < length (m_probers s). strip p = (strip (m_probers s ! j))\<lparr>pr_maxInFlight := pr_maxInFlight p\<rparr>) \<or>
            (fresh p \<and> keyOf p \<notin> keyOf ` set (m_probers s) \<and> m_nextUid s \<le> pr_uid p \<and> pr_uid p < m_nextUid t)))"

lemma rebuiltD:
  assumes "rebuilt s t idx"
  shows "idx k = Some i \<longleftrightarrow> i < length (m_probers t) \<and> keyOf (m_probers t ! i) = k"
    and "m_clients t = map (\<lambda>client. client\<lparr>c_destinations := map (assign idx client) (c_destinations client)\<rparr>) (m_clients s)"
    and "map keyOf (m_probers t) = firsts (map snd (all_links s))"
    and "i < length (m_probers t) \<Longrightarrow>
      pr_subscribers (m_probers t ! i) = map fst (filter (\<lambda>l. snd l = keyOf (m_probers t ! i)) (all_links s))"
    and "p \<in> set (m_probers t) \<Longrightarrow> pr_maxInFlight p = windowFor (pr_timeoutUs p) (pr_intervalUs p)"
    and "distinct (map pr_uid (m_probers t))" and "wf_index t" and "m_nextUid s \<le> m_nextUid t"
    and "p \<in> set (m_probers t) \<Longrightarrow>
      (\<exists>j < length (m_probers s). strip p = (strip (m_probers s ! j))\<lparr>pr_maxInFlight := pr_maxInFlight p\<rparr>) \<or>
      (fresh p \<and> keyOf p \<notin> keyOf ` set (m_probers s) \<and> m_nextUid s \<le> pr_uid p \<and> pr_uid p < m_nextUid t)"
proof -
  let ?K = "firsts (map snd (all_links s))"
  have K: "map keyOf (m_probers t) = ?K" using assms by (simp add: rebuilt_def Let_def)
  then have len: "length ?K = length (m_probers t)" by (metis length_map)
  have at: "?K ! i = keyOf (m_probers t ! i)" if "i < length (m_probers t)" for i using K that by (metis nth_map)
  show "idx k = Some i \<longleftrightarrow> i < length (m_probers t) \<and> keyOf (m_probers t ! i) = k"
    using assms at len by (auto simp: rebuilt_def Let_def)
  show "i < length (m_probers t) \<Longrightarrow>
      pr_subscribers (m_probers t ! i) = map fst (filter (\<lambda>l. snd l = keyOf (m_probers t ! i)) (all_links s))"
    using assms at len by (auto simp: rebuilt_def Let_def)
qed ((use assms in \<open>unfold rebuilt_def Let_def, blast\<close>)+)

lemma rebuildProbers_rebuilt:
  fixes E :: env and s :: Monitor
  assumes ok: "previous_ok (m_probers s) (m_nextUid s)" and room: "uids_left s (m_clients s)"
    and pos: "\<forall>client \<in> set (m_clients s). 0 < c_intervalUs client"
  defines "t \<equiv> rebuildProbers E s" and "L \<equiv> all_links s" and "K \<equiv> firsts (map snd (all_links s))"
  shows "\<exists>idx. rebuilt s t idx"
proof -
  obtain cs rb where inv: "rinv (m_probers s) (m_nextUid s) (all_links s) rb"
    and cs: "cs = map (\<lambda>client. client\<lparr>c_destinations := map (assign (rb_byKey rb) client) (c_destinations client)\<rparr>) (m_clients s)"
    and t: "rebuildProbers E s = s\<lparr>m_clients := cs,
           m_probers := map (\<lambda>p. p\<lparr>pr_maxInFlight := windowFor (pr_timeoutUs p) (pr_intervalUs p)\<rparr>) (rb_probers rb),
           m_proberByUid := fold (\<lambda>i m. m(pr_uid (rb_probers rb ! i) \<mapsto> i)) [0..<length (rb_probers rb)] Map.empty,
           m_nextUid := rb_nextUid rb, m_minIntervalUs := minInterval (rb_probers rb), m_osCalls := rb_calls rb\<rparr>"
    by (rule rebuildProbers_loops [OF ok room pos])
  have share: "share_inv K L rb" and origin: "origin_inv (m_probers s) (m_nextUid s) rb"
    using inv by (simp_all add: rinv_def K_def L_def)
  have probers: "m_probers t = map (\<lambda>p. p\<lparr>pr_maxInFlight := windowFor (pr_timeoutUs p) (pr_intervalUs p)\<rparr>) (rb_probers rb)"
    by (simp add: t_def t)
  have keys: "map keyOf (m_probers t) = map keyOf (rb_probers rb)" by (simp add: probers keyOf_def)
  have dist: "distinct (map pr_uid (rb_probers rb))" using origin_invD(4) [OF origin] by (simp add: comp_def)
  have "\<forall>k i. rb_byKey rb k = Some i \<longleftrightarrow> i < length K \<and> K ! i = k" and K: "map keyOf (m_probers t) = K"
    using share by (simp_all add: share_inv_def keys)
  moreover have "\<forall>i < length K. pr_subscribers (m_probers t ! i) = map fst (filter (\<lambda>l. snd l = K ! i) L)"
    using share by (auto simp: probers share_inv_def)
  moreover have "\<forall>p \<in> set (m_probers t). pr_maxInFlight p = windowFor (pr_timeoutUs p) (pr_intervalUs p)"
    by (auto simp: probers)
  moreover have "wf_index t" "distinct (map pr_uid (m_probers t))"
    using uid_index [OF dist order_refl] dist by (auto simp: wf_index_def t_def t comp_def)
  moreover have n: "m_nextUid t = rb_nextUid rb" by (simp add: t_def t)
  moreover have "(\<exists>j < length (m_probers s). strip p = (strip (m_probers s ! j))\<lparr>pr_maxInFlight := pr_maxInFlight p\<rparr>) \<or>
      (fresh p \<and> keyOf p \<notin> keyOf ` set (m_probers s) \<and> m_nextUid s \<le> pr_uid p \<and> pr_uid p < m_nextUid t)"
    if p: "p \<in> set (m_probers t)" for p
  proof -
    obtain q where q: "q \<in> set (rb_probers rb)" "p = q\<lparr>pr_maxInFlight := pr_maxInFlight p\<rparr>" using p by (auto simp: probers)
    have "strip p = (strip q)\<lparr>pr_maxInFlight := pr_maxInFlight p\<rparr>" by (subst q(2)) (simp add: strip_def)
    moreover have "keyOf p = keyOf q" "pr_uid p = pr_uid q" "fresh (strip q) \<longrightarrow> fresh p"
      by (subst q(2), simp add: keyOf_def fresh_def strip_def)+
    ultimately show ?thesis using origin_invD(3) [OF origin, of "strip q"] q(1) unfolding n by auto
  qed
  moreover have "m_nextUid s \<le> m_nextUid t" using origin_invD(5) [OF origin] by (simp add: n)
  moreover have "m_clients t = cs" by (simp add: t_def t)
  ultimately have "rebuilt s t (rb_byKey rb)"
    using cs unfolding rebuilt_def Let_def unfolding K_def [symmetric] unfolding L_def [symmetric] by blast
  then show ?thesis by blast
qed

section \<open>The invariant is established\<close>

lemma wf_verdict_assign [simp]: "wf_verdict (assign m client d) = wf_verdict d"
  by (simp add: assign_def wf_verdict_def)

lemma assign_simps [simp]:
  "d_enabled (assign m client d) = d_enabled d" "d_address (assign m client d) = d_address d"
  "d_id (assign m client d) = d_id d"
  by (simp_all add: assign_def)

lemma keyOf_destination_key:
  "keyOf p = destination_key client d \<longleftrightarrow> serves p client d"
  by (auto simp: keyOf_def destination_key_def serves_def)

lemma serves_cong [simp]: "serves p (client\<lparr>c_destinations := ds\<rparr>) (assign m client' d) = serves p client d"
  by (simp add: serves_def)

definition client_ok :: "Client \<Rightarrow> bool" where
  "client_ok client \<longleftrightarrow> 0 < c_intervalUs client \<and> (\<forall>d \<in> set (c_destinations client). wf_verdict d)"

lemma rebuilt_dest:
  assumes "rebuilt s t idx" and "c < length (m_clients s)" and "k < length (c_destinations (m_clients s ! c))"
  shows "dest_at t c k = assign idx (m_clients s ! c) (dest_at s c k)"
  using rebuiltD(2) [OF assms(1)] assms(2,3) by simp

lemma rebuilt_lengths:
  assumes "rebuilt s t idx"
  shows "length (m_clients t) = length (m_clients s)"
    and "c < length (m_clients s) \<Longrightarrow> length (c_destinations (m_clients t ! c)) = length (c_destinations (m_clients s ! c))"
  using rebuiltD(2) [OF assms] by simp_all

text \<open>An enabled destination is served by the prober its index names, and is subscribed to it.\<close>

lemma rebuilt_link:
  assumes r: "rebuilt s t idx" and c: "c < length (m_clients s)" and k: "k < length (c_destinations (m_clients s ! c))"
    and e: "d_enabled (dest_at s c k)"
  obtains i where "idx (destination_key (m_clients s ! c) (dest_at s c k)) = Some i" and "i < length (m_probers t)"
    and "serves (m_probers t ! i) (m_clients s ! c) (dest_at s c k)"
    and "\<lparr>sub_client = c, sub_destination = k\<rparr> \<in> set (pr_subscribers (m_probers t ! i))"
proof -
  let ?key = "destination_key (m_clients s ! c) (dest_at s c k)"
  have l: "(\<lparr>sub_client = c, sub_destination = k\<rparr>, ?key) \<in> set (all_links s)"
    using c k e by (simp add: all_links_def links_at_iff)
  then have "?key \<in> set (map keyOf (m_probers t))" unfolding rebuiltD(3) [OF r] by force
  then obtain i where i: "i < length (m_probers t)" "keyOf (m_probers t ! i) = ?key"
    by (auto simp: in_set_conv_nth)
  have "\<lparr>sub_client = c, sub_destination = k\<rparr> \<in> set (pr_subscribers (m_probers t ! i))"
    unfolding rebuiltD(4) [OF r i(1)] i(2) set_map
    by (rule image_eqI [of _ _ "(\<lparr>sub_client = c, sub_destination = k\<rparr>, ?key)"]) (use l in simp_all)
  with i show ?thesis using that rebuiltD(1) [OF r] by (simp add: keyOf_destination_key)
qed

lemma rebuilt_destinations:
  assumes r: "rebuilt s t idx" and v: "\<forall>client \<in> set (m_clients s). client_ok client"
  shows "wf_destinations t"
  unfolding wf_destinations_def
proof (intro allI impI)
  fix c k assume "c < length (m_clients t)" and "k < length (c_destinations (m_clients t ! c))"
  then have c: "c < length (m_clients s)" and k: "k < length (c_destinations (m_clients s ! c))"
    using rebuilt_lengths [OF r] by simp_all
  have "client_ok (m_clients s ! c)" using v c by simp
  then have wv: "wf_verdict (dest_at s c k)" using k by (simp add: client_ok_def)
  have mc: "m_clients t ! c = (m_clients s ! c)\<lparr>c_destinations := c_destinations (m_clients t ! c)\<rparr>"
    using rebuiltD(2) [OF r] c by simp
  show "wf_destination t c k"
  proof (cases "d_enabled (dest_at s c k)")
    case True
    obtain i where i: "idx (destination_key (m_clients s ! c) (dest_at s c k)) = Some i" "i < length (m_probers t)"
      "serves (m_probers t ! i) (m_clients s ! c) (dest_at s c k)"
      "\<lparr>sub_client = c, sub_destination = k\<rparr> \<in> set (pr_subscribers (m_probers t ! i))"
      by (rule rebuilt_link [OF r c k True])
    have "serves (m_probers t ! i) (m_clients t ! c) (assign idx (m_clients s ! c) (dest_at s c k))"
      using i(3) by (subst mc) simp
    moreover have "d_prober (assign idx (m_clients s ! c) (dest_at s c k)) = int i"
      using True i(1) by (simp add: assign_def)
    ultimately show ?thesis using wv True i(2,4) by (simp add: wf_destination_def Let_def rebuilt_dest [OF r c k])
  next
    case False
    then show ?thesis using wv by (simp add: wf_destination_def Let_def rebuilt_dest [OF r c k]) (simp add: assign_def)
  qed
qed

lemma rebuilt_subscribers:
  assumes r: "rebuilt s t idx"
  shows "wf_subscribers t"
  unfolding wf_subscribers_def
proof (intro allI impI conjI ballI)
  fix i assume i: "i < length (m_probers t)"
  note subs = rebuiltD(4) [OF r i]
  have "distinct (map fst (all_links s))" by (simp add: all_links_def distinct_links)
  then show "distinct (pr_subscribers (m_probers t ! i))" unfolding subs by (rule distinct_map_filter)
  have "keyOf (m_probers t ! i) \<in> set (map keyOf (m_probers t))" using i by simp
  then obtain l where "l \<in> set (all_links s)" "snd l = keyOf (m_probers t ! i)" unfolding rebuiltD(3) [OF r] by auto
  then show "pr_subscribers (m_probers t ! i) \<noteq> []" unfolding subs by (auto simp: filter_empty_conv)
  fix sub assume "sub \<in> set (pr_subscribers (m_probers t ! i))"
  then have l: "(sub, keyOf (m_probers t ! i)) \<in> set (all_links s)" unfolding subs by auto
  obtain c k where sub: "sub = \<lparr>sub_client = c, sub_destination = k\<rparr>" by (cases sub) auto
  have ck: "c < length (m_clients s)" "k < length (c_destinations (m_clients s ! c))" "d_enabled (dest_at s c k)"
    "keyOf (m_probers t ! i) = destination_key (m_clients s ! c) (dest_at s c k)"
    using l unfolding sub all_links_def links_at_iff by simp_all
  have "idx (destination_key (m_clients s ! c) (dest_at s c k)) = Some i"
    using rebuiltD(1) [OF r] i ck(4) by simp
  then have "d_prober (dest_at t c k) = int i" "d_enabled (dest_at t c k)"
    using ck(3) by (simp_all add: rebuilt_dest [OF r ck(1,2)]) (simp add: assign_def)
  with ck show "wf_subscriber t i sub"
    by (simp add: wf_subscriber_def sub rebuilt_lengths [OF r] Let_def)
qed

lemma rebuilt_probers:
  assumes r: "rebuilt s t idx" and old: "\<forall>p \<in> set (m_probers s). wf_prober p \<and> pr_maxInFlight p = windowFor (pr_timeoutUs p) (pr_intervalUs p)"
    and p: "p \<in> set (m_probers t)"
  shows "wf_prober p"
  using rebuiltD(9) [OF r p]
proof
  assume "\<exists>j < length (m_probers s). strip p = (strip (m_probers s ! j))\<lparr>pr_maxInFlight := pr_maxInFlight p\<rparr>"
  then obtain q where q: "q \<in> set (m_probers s)" "strip p = (strip q)\<lparr>pr_maxInFlight := pr_maxInFlight p\<rparr>" using nth_mem by blast
  from q(2) have e: "pr_inFlight p = pr_inFlight q" "pr_sequence p = pr_sequence q" "pr_intervalUs p = pr_intervalUs q"
    "pr_timeoutUs p = pr_timeoutUs q" "pr_resolveFailures p = pr_resolveFailures q"
    by (cases p, cases q, simp add: strip_def)+
  moreover have "wf_prober q" "pr_maxInFlight q = windowFor (pr_timeoutUs q) (pr_intervalUs q)" using old q(1) by blast+
  ultimately show ?thesis using rebuiltD(5) [OF r p] by (auto simp: wf_prober_def)
next
  assume "fresh p \<and> keyOf p \<notin> keyOf ` set (m_probers s) \<and> m_nextUid s \<le> pr_uid p \<and> pr_uid p < m_nextUid t"
  then show ?thesis using windowFor_bounds rebuiltD(5) [OF r p] by (simp add: wf_prober_def fresh_def)
qed

lemma rebuilt_wf:
  assumes r: "rebuilt s t idx" and cfg: "previous_ok (m_probers s) (m_nextUid s)"
    and old: "\<forall>p \<in> set (m_probers s). wf_prober p \<and> pr_maxInFlight p = windowFor (pr_timeoutUs p) (pr_intervalUs p)"
    and clients: "\<forall>client \<in> set (m_clients s). client_ok client"
  shows "wf_config t"
proof -
  have "pr_uid p < m_nextUid t" if "p \<in> set (m_probers t)" for p
    using rebuiltD(9) [OF r that]
  proof
    assume "\<exists>j < length (m_probers s). strip p = (strip (m_probers s ! j))\<lparr>pr_maxInFlight := pr_maxInFlight p\<rparr>"
    then obtain q where q: "q \<in> set (m_probers s)" "strip p = (strip q)\<lparr>pr_maxInFlight := pr_maxInFlight p\<rparr>" using nth_mem by blast
    from q(2) have "pr_uid p = pr_uid q" by (cases p, cases q) (simp add: strip_def)
    then show ?thesis using cfg q(1) rebuiltD(8) [OF r] less_le_trans by (auto simp: previous_ok_def)
  qed simp
  moreover have "distinct (map keyOf (m_probers t))" unfolding rebuiltD(3) [OF r] by simp
  ultimately show ?thesis
    using rebuiltD(5-7) [OF r] rebuilt_destinations [OF r clients] rebuilt_subscribers [OF r] rebuilt_probers [OF r old]
    unfolding wf_config_def wf_monitor_def previous_ok_def by blast
qed

end
