(* ===== verification/Reload.thy ===== *)
theory Reload
  imports Sharing
begin

text \<open>
  Reloading the configuration as a whole: what is read, what is carried over, what is rebuilt.  Every reload leaves a
  well-formed monitor, destinations share a prober exactly when they ask for the same probes, a prober
  that is still wanted goes on undisturbed, and results survive an edit.
\<close>

section \<open>Reading the directory\<close>

lemma load_clients_limits:
  assumes "load_clients E maxDestinations dir names n loaded = (loaded', n')" and "list_all (client_limits maxDestinations) loaded"
  shows "list_all (client_limits maxDestinations) loaded'"
  using assms
proof (induction names arbitrary: n loaded)
  case (Cons name names)
  show ?case
  proof (cases "is_client_file name")
    case False
    with Cons show ?thesis by simp
  next
    case True
    obtain opened reads where r: "e_readfile E n (dir @ ''/'' @ name) = (opened, reads)" by force
    show ?thesis
    proof (cases "loadClientFile (e_wild E) maxDestinations (readWholeFile opened (2 ^ 20) reads) (dir @ ''/'' @ name)
        (take (length name - 5) name)")
      case None
      with Cons r True show ?thesis by simp
    next
      case (Some client)
      then have "client_limits maxDestinations client" using loadClientFile_limits by blast
      with Cons r True Some show ?thesis by simp
    qed
  qed
qed simp

lemma readClients_frame:
  assumes "readClients E s = (loaded, s1)"
  shows "m_clients s1 = m_clients s \<and> m_probers s1 = m_probers s \<and> m_nextUid s1 = m_nextUid s \<and>
    m_configDirty s1 = m_configDirty s \<and> list_all (client_limits (o_maxDestinations (m_options s))) loaded"
  using assms
  by (auto simp: readClients_def recreateClientsDir_def Let_def split: dir_result.splits prod.splits if_splits
      dest: load_clients_limits)

lemma unat_pos_word: "0 < unat w \<Longrightarrow> 0 < (w :: u64)"
  by (simp add: word_less_nat_alt)

lemma client_limits_ok: "client_limits n client \<Longrightarrow> client_ok client"
  by (auto simp: client_limits_def client_ok_def list_all_iff loaded_destination_def intro: unat_pos_word)

section \<open>Carrying results over\<close>

lemma wf_verdict_carry:
  assumes "wf_verdict d" and "\<forall>old \<in> set previous. wf_verdict old"
  shows "wf_verdict (carryDestination previous d)"
proof (cases "find (\<lambda>old. d_id old = d_id d \<and> d_address old = d_address d) previous")
  case (Some old)
  then have "wf_verdict old" using assms(2) by (auto simp: find_Some_iff)
  with assms(1) Some show ?thesis by (auto simp: carryDestination_def wf_verdict_def)
qed (simp add: carryDestination_def assms(1))

lemma client_ok_carry:
  assumes "client_ok client" and "\<forall>old \<in> set previous. \<forall>d \<in> set (c_destinations old). wf_verdict d"
  shows "client_ok (carryOver previous client)"
proof (cases "find (\<lambda>c. c_id c = c_id client) previous")
  case (Some old)
  then have "\<forall>d \<in> set (c_destinations old). wf_verdict d" using assms(2) by (auto simp: find_Some_iff)
  with assms(1) Some show ?thesis by (simp add: carryOver_def client_ok_def wf_verdict_carry)
qed (simp add: carryOver_def assms(1))

lemma wf_monitor_verdicts:
  assumes "wf_monitor s"
  shows "\<forall>client \<in> set (m_clients s). \<forall>d \<in> set (c_destinations client). wf_verdict d"
proof (intro ballI)
  fix client d assume "client \<in> set (m_clients s)" and "d \<in> set (c_destinations client)"
  then obtain c k where "c < length (m_clients s)" "k < length (c_destinations (m_clients s ! c))" "d = dest_at s c k"
    by (metis in_set_conv_nth)
  then show "wf_verdict d"
    using assms by (auto simp: wf_monitor_def wf_destinations_def wf_destination_def Let_def)
qed

section \<open>The reload\<close>

text \<open>The clients a reload hands to the rebuild.\<close>

lemma reload_parts:
  obtains loaded s1 where "readClients E (s\<lparr>m_configDirty := False\<rparr>) = (loaded, s1)"
    and "reloadClients E s =
      (rebuildProbers E (s1\<lparr>m_clients := map (carryOver (m_clients s)) (sort_key c_id loaded)\<rparr>))\<lparr>m_stateDirty := True\<rparr>"
    and "m_clients s1 = m_clients s" and "m_probers s1 = m_probers s" and "m_nextUid s1 = m_nextUid s"
    and "\<not> m_configDirty s1" and "\<forall>client \<in> set loaded. client_limits (o_maxDestinations (m_options s)) client"
proof -
  obtain loaded s1 where r: "readClients E (s\<lparr>m_configDirty := False\<rparr>) = (loaded, s1)" by force
  note F = readClients_frame [OF r]
  have m: "m_clients s1 = m_clients s" using F by simp
  have e: "reloadClients E s =
      (rebuildProbers E (s1\<lparr>m_clients := map (carryOver (m_clients s)) (sort_key c_id loaded)\<rparr>))\<lparr>m_stateDirty := True\<rparr>"
    by (simp add: reloadClients_def r m)
  show ?thesis by (rule that [OF r e]) (use F in \<open>simp_all add: list_all_iff\<close>)
qed

lemma rebuildDestinations_length:
  "length (fst (rebuildDestinations E now previous idx c client k ds rb)) = length ds"
  by (induction ds arbitrary: k rb) (simp_all add: case_prod_beta)

lemma rebuildClients_count:
  "destination_count (fst (rebuildClients E now previous idx c cs rb)) = destination_count cs"
  by (induction cs arbitrary: c rb)
    (simp_all add: destination_count_def case_prod_beta rebuildDestinations_length)

lemma rebuildProbers_count: "destination_count (m_clients (rebuildProbers E s)) = destination_count (m_clients s)"
  by (simp add: rebuildProbers_def Let_def case_prod_beta rebuildClients_count)

lemma wf_config_same:
  "m_clients t = m_clients s \<Longrightarrow> m_probers t = m_probers s \<Longrightarrow> m_proberByUid t = m_proberByUid s \<Longrightarrow>
   m_nextUid t = m_nextUid s \<Longrightarrow> wf_config s \<Longrightarrow> wf_config t"
  unfolding wf_config_def using wf_monitor_same [of t s] by simp

text \<open>The rebuild that a reload performs, as an instance of the specification.\<close>

lemma reload_rebuilt:
  assumes cfg: "wf_config s" and room: "uids_left s (m_clients (reloadClients E s))"
  obtains u t idx loaded where "rebuilt u t idx" and "reloadClients E s = t\<lparr>m_stateDirty := True\<rparr>"
    and "m_clients u = map (carryOver (m_clients s)) (sort_key c_id loaded)" and "m_probers u = m_probers s"
    and "m_nextUid u = m_nextUid s" and "\<forall>client \<in> set (m_clients u). client_ok client"
    and "\<forall>client \<in> set loaded. client_limits (o_maxDestinations (m_options s)) client"
proof -
  obtain loaded s1 where e: "reloadClients E s =
      (rebuildProbers E (s1\<lparr>m_clients := map (carryOver (m_clients s)) (sort_key c_id loaded)\<rparr>))\<lparr>m_stateDirty := True\<rparr>"
    and s1: "m_probers s1 = m_probers s" "m_nextUid s1 = m_nextUid s"
    and lim: "\<forall>client \<in> set loaded. client_limits (o_maxDestinations (m_options s)) client"
    by (rule reload_parts)
  let ?u = "s1\<lparr>m_clients := map (carryOver (m_clients s)) (sort_key c_id loaded)\<rparr>"
  have wm: "wf_monitor s" and ok: "previous_ok (m_probers s) (m_nextUid s)" using cfg by (simp_all add: wf_config_def)
  have clients: "\<forall>client \<in> set (m_clients ?u). client_ok client"
    using lim client_limits_ok client_ok_carry [OF _ wf_monitor_verdicts [OF wm]] by auto
  have "uids_left ?u (m_clients ?u)"
    using room rebuildProbers_count [of E ?u] by (simp add: uids_left_def e s1)
  moreover have "\<forall>client \<in> set (m_clients ?u). 0 < c_intervalUs client" using clients by (simp add: client_ok_def)
  ultimately obtain idx where "rebuilt ?u (rebuildProbers E ?u) idx"
    using rebuildProbers_rebuilt [of ?u E] ok s1 by auto
  then show ?thesis by (rule that [OF _ e]) (use s1 lim clients in simp_all)
qed

lemma reloadClients_wf:
  assumes cfg: "wf_config s" and room: "uids_left s (m_clients (reloadClients E s))"
  shows "wf_config (reloadClients E s)"
proof -
  obtain u t idx where r: "rebuilt u t idx" and e: "reloadClients E s = t\<lparr>m_stateDirty := True\<rparr>"
    and u: "m_probers u = m_probers s" "m_nextUid u = m_nextUid s" and ok: "\<forall>client \<in> set (m_clients u). client_ok client"
    by (rule reload_rebuilt [OF assms])
  have "wf_config t"
    by (rule rebuilt_wf [OF r _ _ ok]) (use cfg u in \<open>simp_all add: wf_config_def wf_monitor_def\<close>)
  then show ?thesis unfolding e by (rule wf_config_same [rotated 4]) simp_all
qed

section \<open>A concrete reload\<close>

text \<open>
  The directory now holds two files, which ask for the address that the two widgets of the example shared, and
  one that is no configuration.
\<close>

definition reload_document :: Json where
  "reload_document = JObject [(''destinations'', JArray [JObject [(''address'', JString ''192.0.2.1'')]])]"

definition reload_env :: env where
  "reload_env = example_env\<lparr>e_readdir := (\<lambda>n. DirEntries [''b.json'', ''notes.txt'', ''a.json'']),
     e_readfile := (\<lambda>n path. (True, [ReadData (dump (- 1) False reload_document)]))\<rparr>"

definition reload_client :: "string \<Rightarrow> Client" where
  "reload_client name = Client_default\<lparr>c_id := name, c_path := ''/clients/'' @ name @ ''.json'', c_intervalUs := 1000000, c_timeoutUs := 3000000,
     c_destinations := [Destination_default\<lparr>d_id := ''d0'', d_name := ''192.0.2.1'', d_address := ''192.0.2.1'',
       d_order := 0, d_thresholdUs := 1000, d_sensitivity := 3\<rparr>]\<rparr>"

lemma reload_document_loaded:
  "loadClientFile wild 128 (Some (dump (- 1) False reload_document)) (''/clients/'' @ name @ ''.json'') name = Some (reload_client name)"
proof -
  have "writable False reload_document" "reread reload_document = reload_document"
    by (simp_all add: reload_document_def string_ok_def)
  moreover have "well_formed (Suc (Suc (Suc (Suc 0)))) reload_document" by (simp add: reload_document_def built_def)
  then have "well_formed 64 reload_document" by (rule well_formed_mono [rotated]) simp
  ultimately have p: "fst (Json_parse (dump (- 1) False reload_document)) = reload_document"
    by (simp add: Json_parse_def parse_document_written)
  have "trimmed ''192.0.2.1'' = ''192.0.2.1''" "char_of (48 :: nat) = CHR ''0''" by (simp add: trimmed_def isspace_def) code_simp
  then have d: "loadDestination wild 0 (JObject [(''address'', JString ''192.0.2.1'')]) = Some
      (Destination_default\<lparr>d_id := ''d0'', d_name := ''192.0.2.1'', d_address := ''192.0.2.1'', d_order := 0,
       d_thresholdUs := 1000, d_sensitivity := 3\<rparr>)"
    by (simp add: loadDestination_def isObject_def Json_get_def toString_def toInt_def isNull_def toBool_def clampValue_def
        cast_int_def to_string_nat.simps digit_char_def Destination_default_def Let_def)
  have g: "Json_get reload_document ''interval_ms'' = JNull" "Json_get reload_document ''timeout_ms'' = JNull"
    "Json_get reload_document ''destinations'' = JArray [JObject [(''address'', JString ''192.0.2.1'')]]"
    "isObject reload_document"
    by (simp_all add: reload_document_def Json_get_def isObject_def)
  show ?thesis
    unfolding loadClientFile_def
    by (simp add: p g d Json_items_array isArray_def clampValue_def reload_client_def Client_default_def toInt_def)
qed

lemma reload_file_read: "readWholeFile True (2 ^ 20) [ReadData (dump (- 1) False reload_document)] = Some (dump (- 1) False reload_document)"
proof -
  have "length (dump (- 1) False reload_document) \<le> 8192 \<and> dump (- 1) False reload_document \<noteq> []" by code_simp
  then show ?thesis by (simp add: readWholeFile_def)
qed

lemma reload_example_clients:
  assumes "m_options s = MonitorOptions_default"
  shows "fst (readClients reload_env (s\<lparr>m_configDirty := False\<rparr>)) = [reload_client ''b'', reload_client ''a'']"
proof -
  have "is_client_file ''a.json''" "is_client_file ''b.json''" "\<not> is_client_file ''notes.txt''"
    by (simp_all add: is_client_file_def hasSuffix_def)
  moreover have "clientsDirPath (s\<lparr>m_configDirty := False\<rparr>) = ''/clients''"
    by (simp add: assms MonitorOptions_default_def clientsDirPath_def)
  moreover have "o_maxDestinations MonitorOptions_default = 128" by (simp add: MonitorOptions_default_def)
  ultimately show ?thesis
    using reload_document_loaded [of _ "''a''"] reload_document_loaded [of _ "''b''"] reload_file_read
    by (simp add: readClients_def reload_env_def Let_def clientsDirPath_def assms)
qed

lemma example_options [simp]: "m_options example_monitor = MonitorOptions_default"
  by (simp add: example_monitor_def Monitor_new_def)

lemma carryOver_simps [simp]:
  "c_id (carryOver previous client) = c_id client" "c_intervalUs (carryOver previous client) = c_intervalUs client"
  "c_timeoutUs (carryOver previous client) = c_timeoutUs client"
  "length (c_destinations (carryOver previous client)) = length (c_destinations client)"
  by (simp_all add: carryOver_def split: option.splits)

lemma reload_example_sorted: "sort_key c_id [reload_client ''b'', reload_client ''a''] = [reload_client ''a'', reload_client ''b'']"
  by (simp add: reload_client_def)

lemma example_wf_config: "wf_config example_monitor"
  using example_wf
  by (simp add: wf_config_def previous_ok_def example_defs windowFor_def Let_def kMaxInFlight_def)

lemma reload_room:
  assumes "m_options s = MonitorOptions_default" and "m_nextUid s = 8"
  shows "uids_left s (m_clients (reloadClients reload_env s))"
proof -
  obtain loaded s1 where r: "readClients reload_env (s\<lparr>m_configDirty := False\<rparr>) = (loaded, s1)"
    and e: "reloadClients reload_env s =
      (rebuildProbers reload_env (s1\<lparr>m_clients := map (carryOver (m_clients s)) (sort_key c_id loaded)\<rparr>))\<lparr>m_stateDirty := True\<rparr>"
    by (rule reload_parts)
  have "loaded = [reload_client ''b'', reload_client ''a'']" using reload_example_clients [OF assms(1)] r by simp
  then have "destination_count (m_clients (reloadClients reload_env s)) =
      destination_count (map (carryOver (m_clients s)) [reload_client ''a'', reload_client ''b''])"
    unfolding e using rebuildProbers_count by (simp add: reload_example_sorted del: sort_key_simps)
  also have "\<dots> = 2" by (simp add: reload_client_def destination_count_def)
  finally show ?thesis by (simp add: uids_left_def assms(2))
qed

lemma reload_example_room: "uids_left example_monitor (m_clients (reloadClients reload_env example_monitor))"
  by (rule reload_room) (simp_all add: example_defs)

section \<open>Properties\<close>

text \<open>
  C23: Every reload leaves a well-formed monitor, whatever the files hold: from a configured monitor, for any directory
  content, the uid index, the subscriptions, the windows and the verdicts are consistent again, no two probers have the
  same address, interval and timeout, and every client keeps the limits.  The only condition is that the uid counter has
  room for the new probers.
\<close>

theorem reload_keeps_invariant:
  assumes "wf_config s" and "uids_left s (m_clients (reloadClients E s))"
  shows "wf_monitor (reloadClients E s) \<and> wf_config (reloadClients E s) \<and> distinct (map keyOf (m_probers (reloadClients E s))) \<and>
    \<not> m_configDirty (reloadClients E s) \<and> m_stateDirty (reloadClients E s)"
proof -
  have "wf_config (reloadClients E s)" by (rule reloadClients_wf [OF assms])
  moreover have "m_stateDirty (reloadClients E s)"
    by (rule reload_rebuilt [OF assms]) simp
  moreover have cd: "m_configDirty (rebuildProbers E u) = m_configDirty u" for u
    by (simp add: rebuildProbers_def Let_def case_prod_beta)
  have "\<not> m_configDirty (reloadClients E s)" by (rule reload_parts [of E s]) (simp add: cd)
  ultimately show ?thesis by (simp add: wf_config_def previous_ok_def)
qed

theorem reload_keeps_invariant_witness:
  "wf_monitor (reloadClients reload_env example_monitor) \<and> m_stateDirty (reloadClients reload_env example_monitor)"
  using reload_keeps_invariant [OF example_wf_config reload_example_room] by blast

text \<open>The specification of the grouping: one group per key, in the order the keys appear, with its subscribers in order.\<close>

definition group_links :: "link list \<Rightarrow> (string \<times> Subscriber list) list" where
  "group_links L = map (\<lambda>k. (k, map fst (filter (\<lambda>l. snd l = k) L))) (firsts (map snd L))"

lemma rebuilt_groups:
  assumes r: "rebuilt s t idx"
  shows "map (\<lambda>p. (keyOf p, pr_subscribers p)) (m_probers t) = group_links (all_links s)"
proof (rule nth_equalityI)
  have len: "length (firsts (map snd (all_links s))) = length (m_probers t)" using rebuiltD(3) [OF r] by (metis length_map)
  then show "length (map (\<lambda>p. (keyOf p, pr_subscribers p)) (m_probers t)) = length (group_links (all_links s))"
    by (simp add: group_links_def)
  fix i assume "i < length (map (\<lambda>p. (keyOf p, pr_subscribers p)) (m_probers t))"
  then have i: "i < length (m_probers t)" by simp
  then have "firsts (map snd (all_links s)) ! i = keyOf (m_probers t ! i)"
    unfolding rebuiltD(3) [OF r, symmetric] by simp
  then show "map (\<lambda>p. (keyOf p, pr_subscribers p)) (m_probers t) ! i = group_links (all_links s) ! i"
    using i len rebuiltD(4) [OF r i] by (simp add: group_links_def)
qed

text \<open>
  C24: Rebuilding the probers refines a plain grouping: the probers with their subscribers are the enabled
  destinations grouped by address, interval and timeout, in the order in which these first appear, each group listing its
  destinations in order.  The hash maps, the recycling of previous probers and the consumed flags do not show in the result.
\<close>

theorem rebuild_refines_grouping:
  assumes "previous_ok (m_probers s) (m_nextUid s)" and "uids_left s (m_clients s)"
    and "list_all (\<lambda>client. 0 < c_intervalUs client) (m_clients s)"
  shows "map (\<lambda>p. (keyOf p, pr_subscribers p)) (m_probers (rebuildProbers E s)) = group_links (links 0 (m_clients s))"
proof -
  obtain idx where "rebuilt s (rebuildProbers E s) idx"
    using rebuildProbers_rebuilt [of s E] assms by (auto simp: list_all_iff)
  then show ?thesis using rebuilt_groups by (simp add: all_links_def)
qed

theorem rebuild_refines_grouping_witness:
  "map pr_subscribers (m_probers (rebuildProbers example_env example_monitor)) =
     [[\<lparr>sub_client = 0, sub_destination = 0\<rparr>, \<lparr>sub_client = 1, sub_destination = 0\<rparr>]]"
proof -
  have "previous_ok (m_probers example_monitor) (m_nextUid example_monitor)"
    using example_wf_config by (simp add: wf_config_def)
  moreover have "uids_left example_monitor (m_clients example_monitor)"
    "list_all (\<lambda>client. 0 < c_intervalUs client) (m_clients example_monitor)"
    by (simp_all add: uids_left_def destination_count_def example_defs)
  ultimately have "map (\<lambda>p. (keyOf p, pr_subscribers p)) (m_probers (rebuildProbers example_env example_monitor)) =
      group_links (links 0 (m_clients example_monitor))"
    by (rule rebuild_refines_grouping)
  from arg_cong [OF this, of "map snd"] show ?thesis
    by (simp add: comp_def group_links_def firsts_def example_defs destination_key_def)
qed

text \<open>
  C26: After a reload two enabled destinations share a prober exactly when they ask for the same probes: the same
  address, interval and timeout.  No destination is probed twice for two widgets, and none is served by a prober
  with other settings.
\<close>

theorem reload_shares_exactly:
  assumes "wf_config s" and "uids_left s (m_clients (reloadClients E s))"
    and "t = reloadClients E s"
    and "c < length (m_clients t)" and "k < length (c_destinations (m_clients t ! c))" and "d_enabled (dest_at t c k)"
    and "c' < length (m_clients t)" and "k' < length (c_destinations (m_clients t ! c'))" and "d_enabled (dest_at t c' k')"
  shows "d_prober (dest_at t c k) = d_prober (dest_at t c' k') \<longleftrightarrow>
    d_address (dest_at t c k) = d_address (dest_at t c' k') \<and> c_intervalUs (m_clients t ! c) = c_intervalUs (m_clients t ! c') \<and>
    c_timeoutUs (m_clients t ! c) = c_timeoutUs (m_clients t ! c')"
proof -
  have cfg: "wf_config t" unfolding assms(3) by (rule reloadClients_wf [OF assms(1,2)])
  then have d: "distinct (map keyOf (m_probers t))" and w: "wf_destinations t"
    by (simp_all add: wf_config_def wf_monitor_def previous_ok_def)
  obtain i where i: "d_prober (dest_at t c k) = int i" "i < length (m_probers t)" "serves (m_probers t ! i) (m_clients t ! c) (dest_at t c k)"
    using w assms(4-6) by (force simp: wf_destinations_def wf_destination_def Let_def dest: nonneg_int_cases)
  obtain j where j: "d_prober (dest_at t c' k') = int j" "j < length (m_probers t)" "serves (m_probers t ! j) (m_clients t ! c') (dest_at t c' k')"
    using w assms(7-9) by (force simp: wf_destinations_def wf_destination_def Let_def dest: nonneg_int_cases)
  have "i = j \<longleftrightarrow> keyOf (m_probers t ! i) = keyOf (m_probers t ! j)"
    using d i(2) j(2) by (auto simp: distinct_conv_nth)
  then show ?thesis using i j by (auto simp: keyOf_eq_iff serves_def)
qed

text \<open>The two clients after the concrete reload.\<close>

lemma reload_example:
  assumes cfg: "wf_config s" and o: "m_options s = MonitorOptions_default" "m_nextUid s = 8"
  obtains idx where "m_clients (reloadClients reload_env s) =
    map (\<lambda>client. client\<lparr>c_destinations := map (assign idx client) (c_destinations client)\<rparr>)
      (map (carryOver (m_clients s)) [reload_client ''a'', reload_client ''b''])"
proof -
  obtain loaded s1 where r: "readClients reload_env (s\<lparr>m_configDirty := False\<rparr>) = (loaded, s1)"
    and e: "reloadClients reload_env s =
      (rebuildProbers reload_env (s1\<lparr>m_clients := map (carryOver (m_clients s)) (sort_key c_id loaded)\<rparr>))\<lparr>m_stateDirty := True\<rparr>"
      (is "_ = (rebuildProbers _ ?u)\<lparr>m_stateDirty := True\<rparr>")
    and s1: "m_probers s1 = m_probers s" "m_nextUid s1 = m_nextUid s"
    by (rule reload_parts)
  have l: "sort_key c_id loaded = [reload_client ''a'', reload_client ''b'']"
    using reload_example_clients [OF o(1)] r reload_example_sorted by simp
  have "previous_ok (m_probers ?u) (m_nextUid ?u)" using cfg s1 by (simp add: wf_config_def)
  moreover have "uids_left ?u (m_clients ?u)"
    using reload_room [OF o] rebuildProbers_count [of reload_env ?u] unfolding e by (simp add: uids_left_def s1)
  moreover have "\<forall>client \<in> set (m_clients ?u). 0 < c_intervalUs client"
    unfolding l by (simp add: reload_client_def)
  ultimately obtain idx where "rebuilt ?u (rebuildProbers reload_env ?u) idx" using rebuildProbers_rebuilt by blast
  from rebuiltD(2) [OF this] show ?thesis by (intro that [of idx]) (simp add: e l)
qed

lemma reload_example_facts:
  fixes t :: Monitor
  defines "t \<equiv> reloadClients reload_env example_monitor"
  shows "length (m_clients t) = 2" and "length (c_destinations (m_clients t ! 0)) = 1" and "length (c_destinations (m_clients t ! 1)) = 1"
    and "d_enabled (dest_at t 0 0)" and "d_enabled (dest_at t 1 0)" and "d_address (dest_at t 0 0) = ''192.0.2.1''"
    and "d_address (dest_at t 1 0) = ''192.0.2.1''" and "c_intervalUs (m_clients t ! 0) = 1000000" and "c_timeoutUs (m_clients t ! 0) = 3000000"
    and "c_intervalUs (m_clients t ! 1) = 1000000" and "c_timeoutUs (m_clients t ! 1) = 3000000"
proof -
  obtain idx where "m_clients t =
    map (\<lambda>client. client\<lparr>c_destinations := map (assign idx client) (c_destinations client)\<rparr>)
      (map (carryOver (m_clients example_monitor)) [reload_client ''a'', reload_client ''b''])"
    unfolding t_def by (rule reload_example [OF example_wf_config]) (simp_all add: example_defs)
  then show "length (m_clients t) = 2" and "length (c_destinations (m_clients t ! 0)) = 1" and "length (c_destinations (m_clients t ! 1)) = 1"
    and "d_enabled (dest_at t 0 0)" and "d_enabled (dest_at t 1 0)" and "d_address (dest_at t 0 0) = ''192.0.2.1''"
    and "d_address (dest_at t 1 0) = ''192.0.2.1''" and "c_intervalUs (m_clients t ! 0) = 1000000" and "c_timeoutUs (m_clients t ! 0) = 3000000"
    and "c_intervalUs (m_clients t ! 1) = 1000000" and "c_timeoutUs (m_clients t ! 1) = 3000000"
    by (simp_all add: reload_client_def carryOver_def carryDestination_def example_defs)
qed

theorem reload_shares_exactly_witness:
  "let t = reloadClients reload_env example_monitor
   in d_prober (dest_at t 0 0) = d_prober (dest_at t 1 0)"
  unfolding Let_def
  using reload_shares_exactly [OF example_wf_config reload_example_room refl, of 0 0 1 0] reload_example_facts by fastforce

text \<open>
  C25: A prober that is still wanted after an edit goes on undisturbed: if some destination has its address, interval
  and timeout, the new prober is the old one - the same uid, the same outstanding probes, schedule,
  resolved address, counters and error - with only the list of subscribers replaced.  No probe that is under way is
  lost or misattributed by a reload.
\<close>

theorem reload_keeps_probes:
  assumes "wf_config s" and "uids_left s (m_clients (reloadClients E s))"
    and "p \<in> set (m_probers s)" and "q \<in> set (m_probers (reloadClients E s))"
    and "pr_host q = pr_host p" and "pr_intervalUs q = pr_intervalUs p" and "pr_timeoutUs q = pr_timeoutUs p"
  shows "q = p\<lparr>pr_subscribers := pr_subscribers q\<rparr>"
proof -
  obtain u t idx where r: "rebuilt u t idx" and e: "reloadClients E s = t\<lparr>m_stateDirty := True\<rparr>"
    and u: "m_probers u = m_probers s"
    by (rule reload_rebuilt [OF assms(1,2)])
  have q: "q \<in> set (m_probers t)" using assms(4) by (simp add: e)
  have key: "keyOf q = keyOf p" using assms(5-7) by (simp add: keyOf_eq_iff)
  from rebuiltD(9) [OF r q] key assms(3) obtain p' where
    p': "p' \<in> set (m_probers s)" "strip q = (strip p')\<lparr>pr_maxInFlight := pr_maxInFlight q\<rparr>"
    unfolding u using nth_mem by blast
  have "keyOf q = keyOf p'" using arg_cong [OF p'(2), of keyOf] by (simp add: keyOf_def strip_def)
  then have "p' = p"
    using assms(1,3) p'(1) key by (metis previous_ok_def wf_config_def distinct_map inj_onD)
  moreover have "pr_maxInFlight q = pr_maxInFlight p"
    using rebuiltD(5) [OF r q] assms(1,3,6,7) by (simp add: wf_config_def)
  ultimately have "strip q = strip p" using p'(2) by (simp add: strip_def)
  then show ?thesis by (cases p, cases q) (simp add: strip_def)
qed

theorem reload_keeps_probes_witness:
  "let t = reloadClients reload_env example_monitor; q = m_probers t ! nat (d_prober (dest_at t 0 0))
   in pr_uid q = 7 \<and> pr_inFlight q = [\<lparr>f_seq = 5, f_sentUs = 5000000, f_deadlineUs = 8000000\<rparr>]"
proof -
  define t where "t = reloadClients reload_env example_monitor"
  define q where "q = m_probers t ! nat (d_prober (dest_at t 0 0))"
  note F = reload_example_facts [folded t_def]
  have "wf_config t" unfolding t_def by (rule reloadClients_wf [OF example_wf_config reload_example_room])
  then have "wf_destination t 0 0" using F(1,2) by (simp add: wf_config_def wf_monitor_def wf_destinations_def)
  then have q: "q \<in> set (m_probers t)" "serves q (m_clients t ! 0) (dest_at t 0 0)"
    using F(4) by (auto simp: wf_destination_def Let_def q_def)
  have p: "example_prober \<in> set (m_probers example_monitor)" by (simp add: example_monitor_def)
  have "pr_host q = pr_host example_prober" "pr_intervalUs q = pr_intervalUs example_prober" "pr_timeoutUs q = pr_timeoutUs example_prober"
    using q(2) F by (simp_all add: serves_def example_prober_def Prober_default_def)
  note k = reload_keeps_probes [OF example_wf_config reload_example_room p, folded t_def, OF q(1) this]
  have "pr_uid q = 7" "pr_inFlight q = [\<lparr>f_seq = 5, f_sentUs = 5000000, f_deadlineUs = 8000000\<rparr>]"
    by (subst k, simp add: example_prober_def)+
  then show ?thesis unfolding Let_def q_def t_def by simp
qed

subsection \<open>Results\<close>

text \<open>The destination of the previous configuration whose results a destination inherits.\<close>

definition find_previous :: "Monitor \<Rightarrow> Client \<Rightarrow> Destination \<Rightarrow> Destination option" where
  "find_previous s client d =
     (case find (\<lambda>c. c_id c = c_id client) (m_clients s) of
        None \<Rightarrow> None
      | Some old \<Rightarrow> find (\<lambda>x. d_id x = d_id d \<and> d_address x = d_address d) (c_destinations old))"

definition results :: "Destination \<Rightarrow> Destination" where
  "results d = Destination_default\<lparr>d_state := d_state d, d_candidate := d_candidate d, d_candidateStreak := d_candidateStreak d,
     d_haveRtt := d_haveRtt d, d_rttUs := d_rttUs d, d_sent := d_sent d, d_received := d_received d,
     d_lastReplyRealUs := d_lastReplyRealUs d, d_lastChangeRealUs := d_lastChangeRealUs d\<rparr>"

lemma carryDestination_simps [simp]:
  "d_id (carryDestination previous d) = d_id d" "d_address (carryDestination previous d) = d_address d"
  by (simp_all add: carryDestination_def split: option.splits)

lemma carryDestination_results:
  "results (carryDestination previous d) =
     (case find (\<lambda>x. d_id x = d_id d \<and> d_address x = d_address d) previous of None \<Rightarrow> results d | Some old \<Rightarrow> results old)"
  by (simp add: carryDestination_def results_def split: option.splits)

lemma carryOver_results:
  assumes "k < length (c_destinations client)"
  shows "results (c_destinations (carryOver (m_clients s) client) ! k) =
    (case find_previous s client (c_destinations client ! k) of None \<Rightarrow> results (c_destinations client ! k) | Some old \<Rightarrow> results old)"
    and "d_id (c_destinations (carryOver (m_clients s) client) ! k) = d_id (c_destinations client ! k)"
    and "d_address (c_destinations (carryOver (m_clients s) client) ! k) = d_address (c_destinations client ! k)"
  using assms by (simp_all add: carryOver_def find_previous_def carryDestination_results split: option.splits)

lemma loaded_results: "loaded_destination d \<Longrightarrow> results d = results Destination_default"
  by (auto simp: loaded_destination_def wf_verdict_def results_def Destination_default_def)

lemma find_previous_cong:
  "c_id client = c_id client' \<Longrightarrow> d_id d = d_id d' \<Longrightarrow> d_address d = d_address d' \<Longrightarrow>
   find_previous s client d = find_previous s client' d'"
  by (simp add: find_previous_def split: option.splits)

lemma results_assign [simp]: "results (assign idx client d) = results d"
  by (simp add: assign_def results_def)

text \<open>
  C27: Results survive an edit: a destination whose widget, id and address are as before keeps its shown
  state, pending verdict, round-trip time, counters and time stamps - a renamed destination or a new threshold does not
  blink the LED back to grey - and every other destination starts unknown with all counters at zero.
\<close>

theorem reload_keeps_results:
  assumes "wf_config s" and "uids_left s (m_clients (reloadClients E s))" and "t = reloadClients E s"
    and "c < length (m_clients t)" and "k < length (c_destinations (m_clients t ! c))"
  shows "results (dest_at t c k) =
    (case find_previous s (m_clients t ! c) (dest_at t c k) of
       Some old \<Rightarrow> results old | None \<Rightarrow> results Destination_default)"
proof -
  obtain u v idx loaded where r: "rebuilt u v idx" and e: "reloadClients E s = v\<lparr>m_stateDirty := True\<rparr>"
    and u: "m_clients u = map (carryOver (m_clients s)) (sort_key c_id loaded)"
    and lim: "\<forall>client \<in> set loaded. client_limits (o_maxDestinations (m_options s)) client"
    by (rule reload_rebuilt [OF assms(1,2)])
  have t: "m_clients t = m_clients v" by (simp add: assms(3) e)
  have c: "c < length (m_clients u)" and k: "k < length (c_destinations (m_clients u ! c))"
    using assms(4,5) rebuilt_lengths [OF r] by (simp_all add: t)
  define client where "client = sort_key c_id loaded ! c"
  have cl: "client \<in> set loaded" using c unfolding client_def u by (metis length_map nth_mem set_sort)
  have uc: "m_clients u ! c = carryOver (m_clients s) client" using c by (simp add: u client_def)
  have k': "k < length (c_destinations client)" using k by (simp add: uc)
  have d: "dest_at t c k = assign idx (m_clients u ! c) (c_destinations (carryOver (m_clients s) client) ! k)"
    using rebuilt_dest [OF r c k] by (simp add: t uc)
  have "loaded_destination (c_destinations client ! k)"
    using lim cl k' by (simp add: client_limits_def list_all_length)
  moreover have "c_id (m_clients t ! c) = c_id client"
    using rebuiltD(2) [OF r] c by (simp add: t uc)
  then have "find_previous s (m_clients t ! c) (dest_at t c k) = find_previous s client (c_destinations client ! k)"
    by (rule find_previous_cong) (simp_all add: d carryOver_results [OF k'])
  ultimately show ?thesis by (simp add: d carryOver_results(1) [OF k'] loaded_results split: option.splits)
qed

definition good_monitor :: Monitor where
  "good_monitor = example_monitor\<lparr>m_clients := map (\<lambda>client. client\<lparr>c_destinations :=
     map (\<lambda>d. d\<lparr>d_state := Good, d_candidate := Good, d_sent := 5, d_received := 5\<rparr>) (c_destinations client)\<rparr>)
     (m_clients example_monitor)\<rparr>"

lemma good_monitor_evolves: "evolves example_monitor good_monitor"
  by (simp add: evolves_def good_monitor_def example_defs client_evolves_def destination_evolves_def sameConfig_def wf_verdict_def)

lemma good_monitor_config: "wf_config good_monitor"
proof -
  have p: "m_probers good_monitor = m_probers example_monitor" "m_nextUid good_monitor = m_nextUid example_monitor"
    by (simp_all add: good_monitor_def)
  then have "wf_monitor good_monitor"
    using wf_monitor_evolves [OF good_monitor_evolves example_wf] example_wf by (simp add: wf_monitor_def)
  then show ?thesis using example_wf_config p by (simp add: wf_config_def)
qed

lemma good_monitor_room: "uids_left good_monitor (m_clients (reloadClients reload_env good_monitor))"
  by (rule reload_room) (simp_all add: good_monitor_def example_defs)

theorem reload_keeps_results_witness:
  "let t = reloadClients reload_env good_monitor in d_state (dest_at t 0 0) = Good \<and> d_sent (dest_at t 0 0) = 5"
proof -
  define t where "t = reloadClients reload_env good_monitor"
  obtain idx where m: "m_clients t =
    map (\<lambda>client. client\<lparr>c_destinations := map (assign idx client) (c_destinations client)\<rparr>)
      (map (carryOver (m_clients good_monitor)) [reload_client ''a'', reload_client ''b''])"
    unfolding t_def by (rule reload_example [OF good_monitor_config]) (simp_all add: good_monitor_def example_defs)
  define a where "a = carryOver (m_clients good_monitor) (reload_client ''a'')"
  have a: "length (c_destinations a) = 1" "c_id a = ''a''" "d_id (c_destinations a ! 0) = ''d0''"
    "d_address (c_destinations a ! 0) = ''192.0.2.1''"
    by (simp_all add: a_def reload_client_def carryOver_results)
  have l: "length (m_clients t) = 2" "length (c_destinations (m_clients t ! 0)) = 1" and
    i: "c_id (m_clients t ! 0) = ''a''" "d_id (dest_at t 0 0) = ''d0''" "d_address (dest_at t 0 0) = ''192.0.2.1''"
    using a by (simp_all add: m flip: a_def)
  have "find_previous good_monitor (m_clients t ! 0) (dest_at t 0 0) =
      Some (example_destination\<lparr>d_state := Good, d_candidate := Good, d_sent := 5, d_received := 5\<rparr>)"
    unfolding find_previous_def i by (simp add: good_monitor_def example_defs)
  with reload_keeps_results [OF good_monitor_config good_monitor_room t_def, of 0 0] l
  have "results (dest_at t 0 0) = results (example_destination\<lparr>d_state := Good, d_candidate := Good, d_sent := 5, d_received := 5\<rparr>)"
    by simp
  then show ?thesis unfolding Let_def t_def [symmetric] by (simp add: results_def Destination_default_def)
qed

end
