(* ===== verification/Publish.thy ===== *)
theory Publish
  imports Config
begin

text \<open>
  Publishing the state (\<^verbatim>\<open>monitor.cpp\<close>): the document the widget and people read, how often it is
  written, and the two files.  The file system is the list of states it passed through, the current one last.
\<close>

section \<open>The document\<close>

text \<open>A chain of \<^verbatim>\<open>set\<close> calls.\<close>

definition set_all :: "(string \<times> Json) list \<Rightarrow> Json \<Rightarrow> Json" where
  "set_all ms j = fold (\<lambda>m. Json_set (fst m) (snd m)) ms j"

definition json_u64 :: "u64 \<Rightarrow> Json" where
  "json_u64 w = JNumber (double_of_u64 w)"

definition json_size :: "nat \<Rightarrow> Json" where
  "json_size n = JNumber (double_of_size n)"

definition json_signed :: "int \<Rightarrow> Json" where
  "json_signed i = JNumber (double_of_int i)"

definition socketJson :: "IcmpSocket \<Rightarrow> string \<Rightarrow> Json" where
  "socketJson sock err =
     set_all [(''available'', JBool (isOpen sock)), (''raw'', JBool (isRaw sock)), (''error'', JString err)] (JObject [])"

definition engineJson :: "Monitor \<Rightarrow> Json" where
  "engineJson s = set_all [(''ipv4'', socketJson (m_socket4 s) (m_error4 s)), (''ipv6'', socketJson (m_socket6 s) (m_error6 s))] (JObject [])"

text \<open>The prober a destination points at, if it points at one.\<close>

definition proberOf :: "Monitor \<Rightarrow> Destination \<Rightarrow> Prober option" where
  "proberOf s d =
     (if d_prober d \<ge> 0 \<and> nat (d_prober d) < length (m_probers s) then Some (m_probers s ! nat (d_prober d)) else None)"

record state_counts =
  n_good :: nat
  n_warn :: nat
  n_bad :: nat
  n_offline :: nat
  n_unknown :: nat
  n_enabled :: nat

definition counts_zero :: state_counts where
  "counts_zero = \<lparr>n_good = 0, n_warn = 0, n_bad = 0, n_offline = 0, n_unknown = 0, n_enabled = 0\<rparr>"

definition countState :: "Destination \<Rightarrow> state_counts \<Rightarrow> state_counts" where
  "countState d n =
     (if d_enabled d
      then let n1 = n\<lparr>n_enabled := n_enabled n + 1\<rparr>
           in case reportedState (d_state d) (d_partTime d) of
                Good \<Rightarrow> n1\<lparr>n_good := n_good n1 + 1\<rparr>
              | Warn \<Rightarrow> n1\<lparr>n_warn := n_warn n1 + 1\<rparr>
              | Bad \<Rightarrow> n1\<lparr>n_bad := n_bad n1 + 1\<rparr>
              | Offline \<Rightarrow> n1\<lparr>n_offline := n_offline n1 + 1\<rparr>
              | Unknown \<Rightarrow> n1\<lparr>n_unknown := n_unknown n1 + 1\<rparr>
      else n)"

definition clientCounts :: "Client \<Rightarrow> state_counts" where
  "clientCounts client = fold countState (c_destinations client) counts_zero"

definition lossPercent :: "Destination \<Rightarrow> double" where
  "lossPercent d =
     (if d_sent d > 0
      then double_op (/) (double_op (*) (Finite 100) (double_of_u64 (d_sent d - d_received d))) (double_of_u64 (d_sent d))
      else Finite 0)"

definition resolvedText :: "Prober option \<Rightarrow> string" where
  "resolvedText prober = (case prober of Some p \<Rightarrow> if endpoint_valid (pr_endpoint p) then ep_text (pr_endpoint p) else '''' | None \<Rightarrow> '''')"

definition resolvedFamily :: "Prober option \<Rightarrow> int" where
  "resolvedFamily prober =
     (case prober of
        Some p \<Rightarrow> if endpoint_valid (pr_endpoint p) then (if ep_family (pr_endpoint p) = AF_INET6 then 6 else 4) else 0
      | None \<Rightarrow> 0)"

definition destinationJson :: "Monitor \<Rightarrow> bool \<Rightarrow> Destination \<Rightarrow> Json" where
  "destinationJson s verbose d =
     (let prober = proberOf s d;
          entry = set_all
            [(''id'', JString (d_id d)),
             (''state'', JString (healthStateName (reportedState (d_state d) (d_partTime d)))),
             (''resolved'', JString (resolvedText prober)),
             (''have_rtt'', JBool (d_haveRtt d)),
             (''rtt_us'', json_u64 (d_rttUs d)),
             (''sent'', json_u64 (d_sent d)),
             (''received'', json_u64 (d_received d)),
             (''loss_percent'', JNumber (lossPercent d)),
             (''error'', JString (case prober of Some p \<Rightarrow> pr_lastError p | None \<Rightarrow> ''''))] (JObject [])
      in if verbose
         then set_all
            [(''name'', JString (d_name d)),
             (''address'', JString (d_address d)),
             (''family'', json_signed (resolvedFamily prober)),
             (''enabled'', JBool (d_enabled d)),
             (''part_time'', JBool (d_partTime d)),
             (''order'', json_signed (d_order d)),
             (''threshold_us'', json_u64 (d_thresholdUs d)),
             (''sensitivity'', json_signed (d_sensitivity d)),
             (''candidate'', JString (healthStateName (reportedState (d_candidate d) (d_partTime d)))),
             (''candidate_streak'', json_signed (d_candidateStreak d)),
             (''in_flight'', json_size (case prober of Some p \<Rightarrow> length (pr_inFlight p) | None \<Rightarrow> 0)),
             (''last_reply_us'', json_u64 (d_lastReplyRealUs d)),
             (''last_change_us'', json_u64 (d_lastChangeRealUs d))] entry
         else entry)"

definition overallState :: "state_counts \<Rightarrow> string" where
  "overallState n =
     (if n_enabled n = n_offline n then ''idle''
      else if n_bad n > 0 then ''bad''
      else if n_warn n > 0 then ''warn''
      else if n_unknown n = 0 then ''good''
      else ''unknown'')"

definition countsJson :: "state_counts \<Rightarrow> nat \<Rightarrow> Json" where
  "countsJson n destinations = set_all
     [(''enabled'', json_size (n_enabled n)), (''good'', json_size (n_good n)), (''warn'', json_size (n_warn n)),
      (''bad'', json_size (n_bad n)), (''offline'', json_size (n_offline n)), (''unknown'', json_size (n_unknown n)),
      (''total'', json_size destinations)] (JObject [])"

definition clientJson :: "Monitor \<Rightarrow> bool \<Rightarrow> Client \<Rightarrow> Json" where
  "clientJson s verbose client =
     (let destinations = fold (\<lambda>d j. Json_push (destinationJson s verbose d) j) (c_destinations client) (JArray []);
          n = clientCounts client;
          entry = set_all [(''overall'', JString (overallState n)), (''counts'', countsJson n (length (c_destinations client)))] (JObject []);
          entry1 = (if verbose
                    then set_all [(''interval_ms'', json_u64 (c_intervalUs client div 1000)),
                           (''timeout_ms'', json_u64 (c_timeoutUs client div 1000))] entry
                    else entry)
      in Json_set ''destinations'' destinations entry1)"

definition buildStateJson :: "env \<Rightarrow> u64 \<Rightarrow> bool \<Rightarrow> Monitor \<Rightarrow> Json" where
  "buildStateJson E now verbose s =
     (let clients = fold (\<lambda>client. Json_set (c_id client) (clientJson s verbose client)) (m_clients s) (JObject []);
          document = set_all
            [(''version'', json_signed 1),
             (''generation'', json_u64 (m_generation s)),
             (''pid'', json_size (e_pid E)),
             (''timestamp_us'', json_u64 (e_realtime E (m_osCalls s))),
             (''probers'', json_size (length (m_probers s))),
             (''engine'', engineJson s)] (JObject []);
          document1 = (if verbose
                       then set_all [(''started_us'', json_u64 (m_startedRealUs s)), (''uptime_us'', json_u64 now)] document
                       else document)
      in Json_set ''clients'' clients document1)"

section \<open>Publishing\<close>

definition publishIntervalUs :: "Monitor \<Rightarrow> u64" where
  "publishIntervalUs s = max (o_publishIntervalUs (m_options s)) (m_minIntervalUs s)"

text \<open>
  One of the two writes, with mode 0644.  A failed write is only logged.  Building the document reads the clock once,
  writing the file is one more step of the environment.
\<close>

definition writeState :: "env \<Rightarrow> string \<Rightarrow> string \<Rightarrow> Monitor \<times> filesystem list \<Rightarrow> Monitor \<times> filesystem list" where
  "writeState E path data sf =
     (let (s, states) = sf;
          (ok, passed) = writeFileAtomically (e_write E (m_osCalls s)) path data 420 (last states)
      in (os_tick s, states @ passed))"

definition stateIni :: "u64 \<Rightarrow> Json \<Rightarrow> string" where
  "stateIni generation document =
     ''[State]'' @ [CHR 0x0A] @
     ''generation='' @ to_string_u64 generation @ [CHR 0x0A] @
     ''payload='' @ base64Encode (dump (- 1) True document) @ [CHR 0x0A]"

definition publishDue :: "u64 \<Rightarrow> bool \<Rightarrow> Monitor \<Rightarrow> bool" where
  "publishDue now force s \<longleftrightarrow>
     \<not> (\<not> force \<and> \<not> m_stateDirty s \<and> (\<not> m_dataDirty s \<or> now - m_lastPublishUs s < publishIntervalUs s))"

definition publishReadable :: "env \<Rightarrow> u64 \<Rightarrow> Monitor \<times> filesystem list \<Rightarrow> Monitor \<times> filesystem list" where
  "publishReadable E now sf =
     (let (s, states) = sf
      in if m_stateDirty s \<or> m_lastReadablePublishUs s = 0 \<or> now - m_lastReadablePublishUs s \<ge> kReadablePublishIntervalUs
         then (let (s1, states1) = writeState E (stateFilePath s) (dump 2 False (buildStateJson E now True s)) (os_tick s, states)
               in (s1\<lparr>m_lastReadablePublishUs := now\<rparr>, states1))
         else (s, states))"

definition publish :: "env \<Rightarrow> u64 \<Rightarrow> bool \<Rightarrow> Monitor \<times> filesystem list \<Rightarrow> Monitor \<times> filesystem list" where
  "publish E now force sf =
     (let (s, states) = sf
      in if \<not> publishDue now force s then (s, states)
         else
           (let s1 = s\<lparr>m_generation := m_generation s + 1\<rparr>;
                ini = stateIni (m_generation s1) (buildStateJson E now False s1);
                (s2, states2) = publishReadable E now (writeState E (stateIniPath s1) ini (os_tick s1, states))
            in (s2\<lparr>m_lastPublishUs := now, m_dataDirty := False, m_stateDirty := False\<rparr>, states2)))"

end
