(* ===== verification/Rounding.thy ===== *)
theory Rounding
  imports Floating
begin

text \<open>
  Bounds on rounded results: rounding to binary64 never crosses a power of two, nor an integer that is a
  \<^verbatim>\<open>double\<close> itself.  This is what keeps published numbers finite and percentages within 0 to 100.
\<close>

lemma round_half_even_mono:
  shows round_half_even_le: "x \<le> of_int m \<Longrightarrow> round_half_even x \<le> m"
    and round_half_even_ge: "of_int m \<le> x \<Longrightarrow> m \<le> round_half_even x"
proof -
  show "m \<le> round_half_even x" if "of_int m \<le> x"
  proof -
    have "m \<le> \<lfloor>x\<rfloor>" using that by (simp add: le_floor_iff)
    then show ?thesis by (simp add: round_half_even_def Let_def)
  qed
  show "round_half_even x \<le> m" if x: "x \<le> of_int m"
  proof (cases "\<lfloor>x\<rfloor> = m")
    case True
    then have "x = of_int m" using x of_int_floor_le [of x] by simp
    then show ?thesis by simp
  next
    case False
    have "\<lfloor>x\<rfloor> \<le> m" using x floor_mono [OF x] by simp
    with False show ?thesis by (auto simp: round_half_even_def Let_def)
  qed
qed

lemma powi_int_exact:
  fixes k e :: int
  assumes "e \<le> k"
  shows "(2 powi k :: rat) = of_int (2 ^ nat (k - e)) * 2 powi e"
proof -
  have "(2 powi k :: rat) = 2 powi (k - e + e)" by simp
  also have "\<dots> = 2 powi (k - e) * 2 powi e" by (rule power_int_add) simp
  also have "(2 powi (k - e) :: rat) = 2 ^ nat (k - e)" using assms by (simp add: power_int_def)
  finally show ?thesis by simp
qed

text \<open>The rounding of a positive number: a multiple of its quantum.\<close>

lemma double_of_rat_pos:
  assumes "0 < x" and "of_int (round_half_even (x / quantum x)) * quantum x < 2 ^ 1024"
  shows "double_of_rat x = Finite (of_int (round_half_even (x / quantum x)) * quantum x)"
  using assms by (simp add: double_of_rat_def Let_def)

lemma quantum_pos: "0 < quantum x"
  by (simp add: quantum_def)

lemma ilog_le_iff:
  assumes "0 < x" and "x \<le> 2 powi m"
  shows "ilog 2 x \<le> m"
proof -
  have "(2 powi m :: rat) < 2 powi (m + 1)" by (simp add: power_int_strict_increasing)
  then have "x < of_nat 2 powi (m + 1)" using assms(2) by simp
  then have "ilog 2 x < m + 1" using assms(1) by (intro ilog_less) simp_all
  then show ?thesis by simp
qed

lemma double_between:
  assumes "2 powi k \<le> x" and "x \<le> 2 powi m" and "- 1022 \<le> k" and "m \<le> 1023"
  obtains y where "double_of_rat x = Finite y" and "2 powi k \<le> y" and "y \<le> 2 powi m"
proof -
  define e where "e = max (ilog 2 x - 52) (- 1074)"
  have pos: "0 < x" using assms(1) by (rule less_le_trans [rotated]) simp
  have q: "quantum x = 2 powi e" by (simp add: quantum_def e_def)
  let ?n = "round_half_even (x / quantum x)"
  have km: "k \<le> m"
  proof (rule ccontr)
    assume "\<not> k \<le> m"
    then have "(2 powi m :: rat) < 2 powi k" by (intro power_int_strict_increasing) simp_all
    then show False using assms(1,2) by simp
  qed
  have "e \<le> m" using ilog_le_iff [OF pos assms(2)] assms(3) km by (simp add: e_def)
  note M = powi_int_exact [OF this]
  have "x / quantum x \<le> of_int (2 ^ nat (m - e))"
    using assms(2) unfolding q M by (simp add: pos_divide_le_eq)
  then have up: "?n \<le> 2 ^ nat (m - e)" by (rule round_half_even_le)
  have "of_int ?n * quantum x \<le> of_int (2 ^ nat (m - e)) * quantum x"
    using up quantum_pos [of x] by (intro mult_right_mono) (simp_all only: of_int_le_iff less_imp_le)
  then have upper: "of_int ?n * quantum x \<le> 2 powi m" unfolding M q .
  have lower: "2 powi k \<le> of_int ?n * quantum x"
  proof (cases "e \<le> k")
    case True
    note K = powi_int_exact [OF True]
    have "of_int (2 ^ nat (k - e)) \<le> x / quantum x"
      using assms(1) unfolding q K by (simp add: pos_le_divide_eq)
    then have "2 ^ nat (k - e) \<le> ?n" by (rule round_half_even_ge)
    then have "of_int (2 ^ nat (k - e)) * quantum x \<le> of_int ?n * quantum x"
      using quantum_pos [of x] by (intro mult_right_mono) (simp_all only: of_int_le_iff less_imp_le)
    then show ?thesis unfolding K q .
  next
    case False
    then have e: "e = ilog 2 x - 52" using assms(3) by (simp add: e_def max_def split: if_splits)
    then have le: "e \<le> ilog 2 x" by simp
    have "(2 powi ilog 2 x :: rat) \<le> x" using ilog_le [of 2 x] pos by simp
    then have "of_int (2 ^ nat (ilog 2 x - e)) \<le> x / quantum x"
      unfolding q powi_int_exact [OF le] by (simp add: pos_le_divide_eq)
    then have "2 ^ nat (ilog 2 x - e) \<le> ?n" by (rule round_half_even_ge)
    moreover have "(1 :: int) \<le> 2 ^ nat (ilog 2 x - e)" by simp
    ultimately have "1 \<le> ?n" by linarith
    then have a: "1 * quantum x \<le> of_int ?n * quantum x"
      using quantum_pos [of x] by (intro mult_right_mono) (simp_all only: of_int_1_le_iff less_imp_le)
    have "2 powi k \<le> 1 * quantum x" unfolding q using False by (simp add: power_int_increasing)
    then show ?thesis using a by (rule order_trans)
  qed
  have "(2 powi m :: rat) \<le> 2 powi 1023" using assms(4) by (intro power_int_increasing) simp_all
  also have "\<dots> < 2 powi 1024" by (rule power_int_strict_increasing) simp_all
  also have "\<dots> = 2 ^ 1024" by (simp only: power_int_numeral)
  finally have "of_int ?n * quantum x < 2 ^ 1024" using upper by linarith
  then show ?thesis using that double_of_rat_pos [OF pos] lower upper by blast
qed

text \<open>Between zero and an integer of at most 53 bits.\<close>

lemma double_below_int:
  assumes "0 \<le> x" and "x \<le> of_int n" and "n < 2 ^ 53"
  obtains y where "double_of_rat x = Finite y" and "0 \<le> y" and "y \<le> of_int n"
proof (cases "x = 0")
  case True
  then show ?thesis using that [of 0] assms(2) by (simp add: double_of_rat_def)
next
  case False
  then have pos: "0 < x" using assms(1) by simp
  define e where "e = max (ilog 2 x - 52) (- 1074)"
  have q: "quantum x = 2 powi e" by (simp add: quantum_def e_def)
  let ?n = "round_half_even (x / quantum x)"
  have "(of_int n :: rat) < of_int (2 ^ 53)" using assms(3) by (simp only: of_int_less_iff)
  then have "x < of_nat 2 powi 53" using assms(2) by simp
  then have "ilog 2 x < 53" using pos by (intro ilog_less) simp_all
  then have e: "e \<le> 0" by (simp add: e_def)
  have n: "(of_int n :: rat) = of_int (n * 2 ^ nat (- e)) * quantum x"
    using powi_int_exact [OF e] unfolding q by simp
  have "x / quantum x \<le> of_int (n * 2 ^ nat (- e))"
    using assms(2) quantum_pos [of x] unfolding n by (simp add: pos_divide_le_eq)
  then have "?n \<le> n * 2 ^ nat (- e)" by (rule round_half_even_le)
  then have "of_int ?n * quantum x \<le> of_int (n * 2 ^ nat (- e)) * quantum x"
    using quantum_pos [of x] by (intro mult_right_mono) (simp_all only: of_int_le_iff less_imp_le)
  then have upper: "of_int ?n * quantum x \<le> of_int n" unfolding n .
  have "of_int 0 \<le> x / quantum x" using pos quantum_pos [of x] by simp
  then have "0 \<le> ?n" by (rule round_half_even_ge)
  then have lower: "0 \<le> of_int ?n * quantum x" using quantum_pos [of x] by simp
  have "(2 :: rat) ^ 53 \<le> 2 ^ 1024" by (rule power_increasing) simp_all
  then have "of_int ?n * quantum x < 2 ^ 1024" using upper \<open>(of_int n :: rat) < of_int (2 ^ 53)\<close> by simp
  then show ?thesis using that double_of_rat_pos [OF pos] lower upper by blast
qed

text \<open>The numbers the daemon publishes: counts, times and identifiers.\<close>

lemma double_of_nat_between:
  assumes "0 < n" and "n \<le> 2 ^ 64"
  obtains y where "double_of_rat (of_nat n) = Finite y" and "1 \<le> y" and "y \<le> 2 powi 64"
proof (rule double_between [of 0 "of_nat n" 64])
  have "(1 :: rat) \<le> of_nat n" using assms(1) by (metis One_nat_def Suc_leI of_nat_1 of_nat_le_iff)
  then show "(2 :: rat) powi 0 \<le> of_nat n" by simp
  have "(of_nat n :: rat) \<le> of_nat (2 ^ 64)" using assms(2) by (simp only: of_nat_le_iff)
  then show "(of_nat n :: rat) \<le> 2 powi 64" by simp
qed (use that in simp_all)

end
