(* ===== verification/Publish_Properties.thy ===== *)
theory Publish_Properties
  imports Publish Reload Rounding
begin

text \<open>
  What the published state says: counts and overall state against their specification, the loss percentage, the
  documents that can be written, and what a reader of the file finds in it at any moment.
\<close>

section \<open>Counts and the overall state\<close>

definition shown :: "Destination \<Rightarrow> HealthState" where
  "shown d = reportedState (d_state d) (d_partTime d)"

definition shown_by :: "Destination list \<Rightarrow> HealthState \<Rightarrow> nat" where
  "shown_by ds x = length (filter (\<lambda>d. d_enabled d \<and> shown d = x) ds)"

lemma fold_countState:
  "fold countState ds n =
     \<lparr>n_good = n_good n + shown_by ds Good, n_warn = n_warn n + shown_by ds Warn, n_bad = n_bad n + shown_by ds Bad,
      n_offline = n_offline n + shown_by ds Offline, n_unknown = n_unknown n + shown_by ds Unknown,
      n_enabled = n_enabled n + length (filter d_enabled ds)\<rparr>"
proof (induction ds arbitrary: n)
  case Nil
  show ?case by (cases n) (simp add: shown_by_def)
next
  case (Cons d ds)
  show ?case
    unfolding fold.simps comp_apply Cons.IH
    by (cases "reportedState (d_state d) (d_partTime d)") (auto simp: countState_def shown_by_def shown_def)
qed

lemma shown_by_sum:
  "shown_by ds Good + shown_by ds Warn + shown_by ds Bad + shown_by ds Offline + shown_by ds Unknown =
     length (filter d_enabled ds)"
proof (induction ds)
  case (Cons d ds)
  then show ?case by (cases "shown d") (auto simp: shown_by_def)
qed (simp add: shown_by_def)

text \<open>The states a widget's enabled destinations show, and what the widget as a whole reports for them.\<close>

definition shown_states :: "Client \<Rightarrow> HealthState set" where
  "shown_states client = shown ` {d \<in> set (c_destinations client). d_enabled d}"

definition overall_spec :: "HealthState set \<Rightarrow> string" where
  "overall_spec S =
     (if S \<subseteq> {Offline} then ''idle'' else if Bad \<in> S then ''bad'' else if Warn \<in> S then ''warn''
      else if Unknown \<notin> S then ''good'' else ''unknown'')"

lemma shown_by_pos: "0 < shown_by (c_destinations client) x \<longleftrightarrow> x \<in> shown_states client"
  by (auto simp: shown_by_def shown_states_def filter_empty_conv)

lemma all_offline:
  "length (filter d_enabled (c_destinations client)) = shown_by (c_destinations client) Offline \<longleftrightarrow>
     shown_states client \<subseteq> {Offline}"
proof -
  let ?n = "shown_by (c_destinations client)"
  have "length (filter d_enabled (c_destinations client)) = ?n Offline \<longleftrightarrow>
      ?n Good = 0 \<and> ?n Warn = 0 \<and> ?n Bad = 0 \<and> ?n Unknown = 0"
    using shown_by_sum [of "c_destinations client"] by linarith
  also have "\<dots> \<longleftrightarrow> (\<forall>x. x \<noteq> Offline \<longrightarrow> ?n x = 0)"
    by (metis HealthState.distinct HealthState.exhaust)
  also have "\<dots> \<longleftrightarrow> shown_states client \<subseteq> {Offline}"
    using shown_by_pos [of client] by (metis gr0I insertCI singletonD subsetD subsetI neq0_conv)
  finally show ?thesis .
qed

lemma overall_is_spec: "overallState (clientCounts client) = overall_spec (shown_states client)"
proof -
  let ?n = "shown_by (c_destinations client)"
  have c: "clientCounts client = \<lparr>n_good = ?n Good, n_warn = ?n Warn, n_bad = ?n Bad, n_offline = ?n Offline,
      n_unknown = ?n Unknown, n_enabled = length (filter d_enabled (c_destinations client))\<rparr>"
    by (simp add: clientCounts_def fold_countState counts_zero_def)
  show ?thesis
    unfolding overallState_def c using all_offline [of client] shown_by_pos [of client]
    by (simp add: overall_spec_def) (metis neq0_conv)
qed

text \<open>
  C33: The overall state is the worst one shown: the counters a widget's summary is derived from give the same answer as
  looking at the set of states its enabled destinations show - idle when all of them are part-time hosts that are off
  or there are none, otherwise bad before warn, and good only if none is unknown - and the five counts add up to the
  number of enabled destinations.
\<close>

theorem overall_is_worst_shown:
  "overallState (clientCounts client) = overall_spec (shown_states client) \<and>
   n_good (clientCounts client) + n_warn (clientCounts client) + n_bad (clientCounts client) + n_offline (clientCounts client) +
     n_unknown (clientCounts client) = n_enabled (clientCounts client) \<and>
   n_enabled (clientCounts client) = length (filter d_enabled (c_destinations client))"
  by (rule conjI [OF overall_is_spec]) (simp add: clientCounts_def fold_countState counts_zero_def shown_by_sum)

section \<open>Loss\<close>

lemma double_of_u64_between:
  assumes "0 < w"
  obtains y where "double_of_u64 w = Finite y" and "1 \<le> y" and "y \<le> 2 powi 64"
proof -
  have "0 < unat w" "unat w \<le> 2 ^ 64" using assms unat_less_pow [of w] by (simp_all add: word_less_nat_alt less_imp_le)
  then show ?thesis using double_of_nat_between that unfolding double_of_u64_def by blast
qed

lemma powi_bounds: "(2 :: rat) powi 6 = 64" "(2 :: rat) powi 71 = 128 * 2 powi 64" "(2 :: rat) powi (- 58) = 64 / 2 powi 64"
  by simp_all

lemma loss_range:
  assumes "0 < d_sent d" and "d_received d \<noteq> d_sent d"
  obtains y where "lossPercent d = Finite y" and "2 powi (- 58) \<le> y" and "y \<le> 2 powi 71"
proof -
  have "0 < d_sent d - d_received d" using assms(2) by (simp add: word_neq_0_conv [symmetric])
  then obtain a where a: "double_of_u64 (d_sent d - d_received d) = Finite a" "1 \<le> a" "a \<le> 2 powi 64"
    by (rule double_of_u64_between)
  obtain b where b: "double_of_u64 (d_sent d) = Finite b" "1 \<le> b" "b \<le> 2 powi 64"
    using assms(1) by (rule double_of_u64_between)
  have "2 powi 6 \<le> 100 * a" "100 * a \<le> 2 powi 71" using a(2,3) unfolding powi_bounds by linarith+
  then obtain c where c: "double_of_rat (100 * a) = Finite c" "2 powi 6 \<le> c" "c \<le> 2 powi 71"
    by (rule double_between) simp_all
  have "2 powi (- 58) \<le> c / b"
    using b c(2) frac_le [of 64 c b "2 powi 64"] unfolding powi_bounds by simp
  moreover have "c / b \<le> 2 powi 71"
  proof -
    have "c / b \<le> c / 1" using b(2) c(2) by (intro divide_left_mono) (simp_all add: powi_bounds)
    then show ?thesis using c(3) by simp
  qed
  ultimately obtain y where "double_of_rat (c / b) = Finite y" "2 powi (- 58) \<le> y" "y \<le> 2 powi 71"
    by (rule double_between) simp_all
  then show ?thesis using that assms(1) by (simp add: lossPercent_def a b c double_op_def)
qed

lemma double_of_nat_exact: "n < 2 ^ 53 \<Longrightarrow> double_of_rat (of_nat n) = Finite (of_nat n)"
  using double_of_int_exact [of "int n"] by simp

text \<open>
  C34: The loss percentage is right to the last bit: as long as fewer than \<open>2 ^ 46\<close> probes were counted, which takes
  longer than two hundred thousand years, it is the \<^verbatim>\<open>double\<close> nearest to the true share of unanswered probes; it lies
  between 0 and 100, and is 0 before the first probe.
\<close>

theorem loss_percent_correct:
  assumes "d_received d \<le> d_sent d" and "unat (d_sent d) < 2 ^ 46"
  shows "lossPercent d =
      double_of_rat (100 * of_nat (unat (d_sent d) - unat (d_received d)) / of_nat (unat (d_sent d))) \<and>
    (\<exists>y. lossPercent d = Finite y \<and> 0 \<le> y \<and> y \<le> 100)"
proof -
  let ?s = "unat (d_sent d)" and ?l = "unat (d_sent d) - unat (d_received d)"
  have l: "unat (d_sent d - d_received d) = ?l" using assms(1) by (simp add: unat_sub)
  have "100 * ?l < 2 ^ 53" using assms(2) by simp
  then have m: "double_of_rat (100 * of_nat ?l) = Finite (100 * of_nat ?l)"
    using double_of_nat_exact [of "100 * ?l"] by (simp del: of_nat_diff)
  have ex: "double_of_rat (of_nat ?l) = Finite (of_nat ?l)" "double_of_rat (of_nat ?s) = Finite (of_nat ?s)"
    by (rule double_of_nat_exact, use assms(2) in simp)+
  have value_eq: "lossPercent d = double_of_rat (100 * of_nat ?l / of_nat ?s)"
  proof (cases "d_sent d > 0")
    case True
    then show ?thesis
      unfolding lossPercent_def double_of_u64_def l ex by (simp add: m double_op_def del: of_nat_diff)
  next
    case False
    then have "?s = 0" by (simp add: word_less_nat_alt)
    with False show ?thesis by (simp add: lossPercent_def double_of_rat_def)
  qed
  have "(of_nat ?l :: rat) \<le> of_nat ?s" by (simp only: of_nat_le_iff)
  then have up: "100 * of_nat ?l / of_nat ?s \<le> (of_int 100 :: rat)"
    by (cases "?s = 0") (simp_all add: divide_le_eq del: of_nat_diff)
  have low: "(0 :: rat) \<le> 100 * of_nat ?l / of_nat ?s" by (intro divide_nonneg_nonneg mult_nonneg_nonneg of_nat_0_le_iff) simp
  obtain y where "double_of_rat (100 * of_nat ?l / of_nat ?s) = Finite y" "0 \<le> y" "y \<le> of_int 100"
    by (rule double_below_int [OF low up]) simp_all
  then show ?thesis using value_eq by simp
qed

theorem loss_percent_correct_witness:
  "lossPercent (Destination_default\<lparr>d_sent := 4, d_received := 1\<rparr>) = Finite 75"
proof -
  let ?d = "Destination_default\<lparr>d_sent := 4, d_received := 1\<rparr>"
  have "lossPercent ?d = double_of_rat (100 * of_nat (unat (d_sent ?d) - unat (d_received ?d)) / of_nat (unat (d_sent ?d)))"
    by (rule loss_percent_correct [THEN conjunct1]) (simp_all add: Destination_default_def)
  also have "\<dots> = double_of_rat (of_int 75)" by (simp add: Destination_default_def)
  also have "\<dots> = Finite 75" using double_of_int_exact [of 75] by simp
  finally show ?thesis .
qed

end
