(* ===== verification/Widget_View.thy ===== *)
theory Widget_View
  imports Publish_Properties
begin

text \<open>
  The published file as its reader sees it.  A reader takes the value of \<^verbatim>\<open>payload\<close> from the INI file,
  decodes the base64 text and parses the JSON document, as the widget does with \<^verbatim>\<open>QSettings\<close>, \<^verbatim>\<open>Qt.atob\<close> and
  \<^verbatim>\<open>JSON.parse\<close>; here the decoder and the parser are those of this development.
\<close>

section \<open>Reading the file\<close>

primrec split_lines :: "string \<Rightarrow> string list" where
  "split_lines [] = [[]]"
| "split_lines (c # cs) =
     (if c = CHR 0x0A then [] # split_lines cs
      else (case split_lines cs of [] \<Rightarrow> [[c]] | l # ls \<Rightarrow> (c # l) # ls))"

lemma split_lines_line: "CHR 0x0A \<notin> set xs \<Longrightarrow> split_lines (xs @ CHR 0x0A # ys) = xs # split_lines ys"
  by (induction xs) auto

definition ini_value :: "string \<Rightarrow> string \<Rightarrow> string option" where
  "ini_value key ini =
     (case find (\<lambda>l. take (Suc (length key)) l = key @ ''='') (split_lines ini) of
        None \<Rightarrow> None | Some l \<Rightarrow> Some (drop (Suc (length key)) l))"

definition read_state :: "string \<Rightarrow> Json option" where
  "read_state ini =
     (case ini_value ''payload'' ini of
        None \<Rightarrow> None
      | Some payload \<Rightarrow>
          (case base64Decode payload of
             None \<Rightarrow> None
           | Some t \<Rightarrow> (case parse_document t of POk v _ _ \<Rightarrow> Some v | _ \<Rightarrow> None)))"

lemma alphabet_no_newline: "CHR 0x0A \<notin> set alphabet"
  by code_simp

lemma base64_no_newline: "CHR 0x0A \<notin> set (base64Encode data)"
  using base64_chars [of data] alphabet_no_newline by auto

lemma to_string_no_newline: "CHR 0x0A \<notin> set (to_string_u64 w)"
  using to_string_nat_digits [of "unat w"] by (auto simp: to_string_u64_def is_digit_def)

lemma stateIni_payload: "ini_value ''payload'' (stateIni gen j) = Some (base64Encode (dump (- 1) True j))"
proof -
  have "split_lines (stateIni gen j) =
      [''[State]'', ''generation='' @ to_string_u64 gen, ''payload='' @ base64Encode (dump (- 1) True j), []]"
    using split_lines_line [of "''generation='' @ to_string_u64 gen"] split_lines_line [of "''payload='' @ base64Encode (dump (- 1) True j)" "[]"]
    by (simp add: stateIni_def to_string_no_newline base64_no_newline)
  then show ?thesis by (simp add: ini_value_def)
qed

lemma read_state_written:
  assumes "well_formed 64 j" and "writable True j"
  shows "read_state (stateIni gen j) = Some (reread j)"
  by (simp add: read_state_def stateIni_payload base64.decode_encode parse_document_written [OF assms])

interpretation payload: codec "stateIni gen" read_state "\<lambda>j. well_formed 64 j \<and> writable True j \<and> reread j = j" for gen
  by unfold_locales (simp add: read_state_written)

section \<open>Documents that can be published\<close>

text \<open>A value that may stand \<open>n\<close> levels deep in a payload.\<close>

definition payload_ok :: "nat \<Rightarrow> Json \<Rightarrow> bool" where
  "payload_ok n j \<longleftrightarrow> well_formed n j \<and> writable True j"

lemma payload_ok_mono: "n \<le> m \<Longrightarrow> payload_ok n j \<Longrightarrow> payload_ok m j"
  by (auto simp: payload_ok_def dest: well_formed_mono)

lemma payload_ok_scalar [simp]:
  "payload_ok (Suc n) (JBool b)" "payload_ok (Suc n) (JString t) \<longleftrightarrow> utf8 t" "payload_ok (Suc n) (JNumber x) \<longleftrightarrow> number_ok x"
  by (auto simp: payload_ok_def built_def string_ok_def)

lemma payload_ok_array [simp]: "payload_ok (Suc n) (JArray xs) \<longleftrightarrow> (\<forall>x \<in> set xs. payload_ok n x)"
  by (auto simp: payload_ok_def built_def)

lemma payload_ok_object [simp]:
  "payload_ok (Suc n) (JObject ms) \<longleftrightarrow> distinct (map fst ms) \<and> (\<forall>m \<in> set ms. utf8 (fst m) \<and> payload_ok n (snd m))"
  by (auto simp: payload_ok_def built_def string_ok_def)

lemma payload_ok_set:
  assumes "isObject j" and "payload_ok (Suc n) j" and "utf8 k" and "payload_ok n v"
  shows "isObject (Json_set k v j)" and "payload_ok (Suc n) (Json_set k v j)"
proof -
  obtain ms where j: "j = JObject ms" using assms(1) by (cases j) (simp_all add: isObject_def)
  show "isObject (Json_set k v j)" by (simp add: j Json_set_def isObject_def)
  have "\<forall>m \<in> set (set_member k v ms). utf8 (fst m) \<and> payload_ok n (snd m)"
    using assms(2-4) set_member_subset [of k v ms] unfolding j by fastforce
  then show "payload_ok (Suc n) (Json_set k v j)"
    using assms(2) by (simp add: j Json_set_def distinct_set_member)
qed

lemma payload_ok_set_all:
  assumes "isObject j" and "payload_ok (Suc n) j" and "\<forall>m \<in> set ms. utf8 (fst m) \<and> payload_ok n (snd m)"
  shows "isObject (set_all ms j) \<and> payload_ok (Suc n) (set_all ms j)"
  using assms unfolding set_all_def
proof (induction ms arbitrary: j)
  case (Cons m ms)
  then show ?case using payload_ok_set [of j n "fst m" "snd m"] by simp
qed simp

lemma empty_object_ok: "isObject (JObject [])" "payload_ok (Suc n) (JObject [])"
  by (simp_all add: isObject_def)

lemmas payload_ok_members = payload_ok_set_all [OF empty_object_ok]

lemma fold_push: "fold (\<lambda>d j. Json_push (f d) j) ds (JArray xs) = JArray (xs @ map f ds)"
  by (induction ds arbitrary: xs) (simp_all add: Json_push_def)

text \<open>Numbers.\<close>

lemma number_ok_range:
  assumes "2 powi (- 999) \<le> y" and "y \<le> 2 powi 1000"
  shows "number_ok (Finite y)"
proof -
  have "0 < y" using assms(1) by (rule less_le_trans [rotated]) simp
  then show ?thesis using assms by (simp add: number_ok_def)
qed

lemma number_ok_between:
  assumes "2 powi k \<le> y" and "y \<le> 2 powi m" and "- 999 \<le> k" and "m \<le> 1000"
  shows "number_ok (Finite y)"
proof (rule number_ok_range)
  have "(2 :: rat) powi (- 999) \<le> 2 powi k" using assms(3) by (rule power_int_increasing) simp
  then show "2 powi (- 999) \<le> y" using assms(1) by (rule order_trans)
  have "(2 :: rat) powi m \<le> 2 powi 1000" using assms(4) by (rule power_int_increasing) simp
  then show "y \<le> 2 powi 1000" using assms(2) by (rule order_trans [rotated])
qed

lemma number_ok_zero [simp]: "number_ok (Finite 0)"
  by (simp add: number_ok_def integral_def)

lemma number_ok_nat:
  assumes "n \<le> 2 ^ 64"
  shows "number_ok (double_of_rat (of_nat n))"
proof (cases "n = 0")
  case True
  then show ?thesis by (simp add: double_of_rat_def)
next
  case False
  then obtain y where y: "double_of_rat (of_nat n) = Finite y" "1 \<le> y" "y \<le> 2 powi 64"
    using double_of_nat_between assms by blast
  then show ?thesis using number_ok_between [of 0 y 64] by simp
qed

lemma number_ok_u64 [simp]: "number_ok (double_of_u64 w)"
  unfolding double_of_u64_def by (rule number_ok_nat) (use unat_less_pow [of w] in simp)

lemma number_ok_size: "n \<le> 2 ^ 64 \<Longrightarrow> number_ok (double_of_size n)"
  unfolding double_of_size_def by (rule number_ok_nat)

lemma number_ok_loss [simp]: "number_ok (lossPercent d)"
proof (cases "0 < d_sent d \<and> d_received d \<noteq> d_sent d")
  case True
  then obtain y where y: "lossPercent d = Finite y" "2 powi (- 58) \<le> y" "y \<le> 2 powi 71" using loss_range by blast
  have "number_ok (Finite y)" by (rule number_ok_between [OF y(2,3)]) simp_all
  then show ?thesis by (simp only: y(1))
next
  case False
  have zero: "double_of_rat 0 = Finite 0" "double_of_u64 0 = Finite 0" by (simp_all add: double_of_rat_def double_of_u64_def)
  have "lossPercent d = Finite 0"
  proof (cases "0 < d_sent d")
    case True
    then obtain b where "double_of_u64 (d_sent d) = Finite b" by (rule double_of_u64_between)
    with False True show ?thesis by (simp add: lossPercent_def double_op_def zero)
  qed (simp add: lossPercent_def)
  then show ?thesis by simp
qed

text \<open>What a monitor must satisfy for its payload to be readable: text in UTF-8 and sizes that fit \<^verbatim>\<open>size_t\<close>.\<close>

definition publishable :: "env \<Rightarrow> Monitor \<Rightarrow> bool" where
  "publishable E s \<longleftrightarrow>
     list_all (\<lambda>client. utf8 (c_id client) \<and> length (c_destinations client) < 2 ^ 64 \<and>
       list_all (\<lambda>d. utf8 (d_id d)) (c_destinations client)) (m_clients s) \<and>
     list_all (\<lambda>p. utf8 (ep_text (pr_endpoint p)) \<and> utf8 (pr_lastError p)) (m_probers s) \<and>
     utf8 (m_error4 s) \<and> utf8 (m_error6 s) \<and> length (m_probers s) < 2 ^ 64 \<and> e_pid E < 2 ^ 64"

lemma utf8_names [simp]:
  "utf8 []" "utf8 (healthStateName x)" "utf8 (overallState n)"
  by (simp_all add: utf8_ascii healthStateName_def overallState_def split: HealthState.splits)

lemma proberOf_ok:
  assumes "publishable E s"
  shows "utf8 (resolvedText (proberOf s d))" and "utf8 (case proberOf s d of Some p \<Rightarrow> pr_lastError p | None \<Rightarrow> [])"
  using assms by (auto simp: publishable_def list_all_length proberOf_def resolvedText_def)

lemma destinationJson_ok:
  assumes "publishable E s" and "utf8 (d_id d)"
  shows "payload_ok (Suc (Suc 0)) (destinationJson s False d)"
proof -
  have "utf8 ''id''" "utf8 ''state''" "utf8 ''resolved''" "utf8 ''have_rtt''" "utf8 ''rtt_us''" "utf8 ''sent''"
    "utf8 ''received''" "utf8 ''loss_percent''" "utf8 ''error''"
    by (simp_all add: utf8_ascii)
  then show ?thesis
    unfolding destinationJson_def Let_def
    using payload_ok_members [of "[(''id'', JString (d_id d)),
             (''state'', JString (healthStateName (reportedState (d_state d) (d_partTime d)))),
             (''resolved'', JString (resolvedText (proberOf s d))), (''have_rtt'', JBool (d_haveRtt d)),
             (''rtt_us'', json_u64 (d_rttUs d)), (''sent'', json_u64 (d_sent d)), (''received'', json_u64 (d_received d)),
             (''loss_percent'', JNumber (lossPercent d)),
             (''error'', JString (case proberOf s d of Some p \<Rightarrow> pr_lastError p | None \<Rightarrow> ''''))]" "Suc 0"]
      proberOf_ok [OF assms(1), of d] assms(2)
    by (simp add: json_u64_def)
qed

lemma countsJson_ok:
  assumes "length ds < 2 ^ 64"
  shows "payload_ok (Suc (Suc 0)) (countsJson (fold countState ds counts_zero) (length ds))"
proof -
  have "utf8 ''enabled''" "utf8 ''good''" "utf8 ''warn''" "utf8 ''bad''" "utf8 ''offline''" "utf8 ''unknown''" "utf8 ''total''"
    by (simp_all add: utf8_ascii)
  moreover have "number_ok (double_of_size (shown_by ds x))" for x
  proof (rule number_ok_size)
    have "shown_by ds x \<le> length ds" unfolding shown_by_def by (rule length_filter_le)
    then show "shown_by ds x \<le> 2 ^ 64" using assms by simp
  qed
  moreover have "number_ok (double_of_size (length (filter d_enabled ds)))" "number_ok (double_of_size (length ds))"
    by (rule number_ok_size, use assms length_filter_le [of d_enabled ds] in linarith)+
  ultimately show ?thesis
    unfolding countsJson_def by (intro conjunct2 [OF payload_ok_members]) (simp add: json_size_def fold_countState counts_zero_def)
qed

lemma clientJson_ok:
  assumes "publishable E s" and "client \<in> set (m_clients s)"
  shows "payload_ok (Suc (Suc (Suc (Suc 0)))) (clientJson s False client)"
proof -
  let ?n = "Suc (Suc (Suc 0))"
  have cl: "length (c_destinations client) < 2 ^ 64" "\<forall>d \<in> set (c_destinations client). utf8 (d_id d)"
    using assms by (auto simp: publishable_def list_all_iff)
  have k: "utf8 ''overall''" "utf8 ''counts''" "utf8 ''destinations''" by (simp_all add: utf8_ascii)
  have ds: "payload_ok ?n (JArray (map (destinationJson s False) (c_destinations client)))"
    using destinationJson_ok [OF assms(1)] cl(2) by (simp del: payload_ok_object)
  have c: "payload_ok ?n (countsJson (clientCounts client) (length (c_destinations client)))"
    using payload_ok_mono [OF _ countsJson_ok [OF cl(1)], of ?n] by (simp add: clientCounts_def)
  have "isObject (set_all [(''overall'', JString (overallState (clientCounts client))),
      (''counts'', countsJson (clientCounts client) (length (c_destinations client)))] (JObject [])) \<and>
    payload_ok (Suc ?n) (set_all [(''overall'', JString (overallState (clientCounts client))),
      (''counts'', countsJson (clientCounts client) (length (c_destinations client)))] (JObject []))"
    by (rule payload_ok_members) (use k c in simp)
  then show ?thesis
    using payload_ok_set(2) [OF _ _ k(3) ds]
    unfolding clientJson_def Let_def fold_push by simp
qed

definition clients_json :: "Monitor \<Rightarrow> Json" where
  "clients_json s = fold (\<lambda>client. Json_set (c_id client) (clientJson s False client)) (m_clients s) (JObject [])"

lemma clients_json_set_all: "clients_json s = set_all (map (\<lambda>client. (c_id client, clientJson s False client)) (m_clients s)) (JObject [])"
proof -
  have "fold (\<lambda>client. Json_set (c_id client) (clientJson s False client)) cs j =
      set_all (map (\<lambda>client. (c_id client, clientJson s False client)) cs) j" for cs j
    unfolding set_all_def by (induction cs arbitrary: j) simp_all
  then show ?thesis by (simp add: clients_json_def)
qed

lemma clients_json_ok:
  assumes "publishable E s"
  shows "payload_ok (Suc (Suc (Suc (Suc (Suc 0))))) (clients_json s)"
  unfolding clients_json_set_all
  using assms by (intro conjunct2 [OF payload_ok_members]) (auto simp: clientJson_ok publishable_def list_all_iff)

lemma engineJson_ok:
  assumes "publishable E s"
  shows "payload_ok (Suc (Suc (Suc 0))) (engineJson s)"
proof -
  have k: "utf8 ''available''" "utf8 ''raw''" "utf8 ''error''" "utf8 ''ipv4''" "utf8 ''ipv6''" by (simp_all add: utf8_ascii)
  have "payload_ok (Suc (Suc 0)) (socketJson sock err)" if "utf8 err" for sock err
    unfolding socketJson_def using k that by (intro conjunct2 [OF payload_ok_members]) simp
  then show ?thesis
    unfolding engineJson_def using assms k by (intro conjunct2 [OF payload_ok_members]) (simp add: publishable_def)
qed

lemma buildStateJson_ok:
  assumes "publishable E s"
  shows "payload_ok (Suc (Suc (Suc (Suc (Suc (Suc 0)))))) (buildStateJson E now False s)"
proof -
  let ?ms = "[(''version'', json_signed 1), (''generation'', json_u64 (m_generation s)), (''pid'', json_size (e_pid E)),
    (''timestamp_us'', json_u64 (e_realtime E (m_osCalls s))), (''probers'', json_size (length (m_probers s))), (''engine'', engineJson s)]"
  have k: "utf8 ''version''" "utf8 ''generation''" "utf8 ''pid''" "utf8 ''timestamp_us''" "utf8 ''probers''" "utf8 ''engine''" "utf8 ''clients''"
    by (simp_all add: utf8_ascii)
  have n: "number_ok (double_of_int 1)" using number_ok_nat [of 1] by (simp add: double_of_int_def)
  have s: "number_ok (double_of_size (e_pid E))" "number_ok (double_of_size (length (m_probers s)))"
    using assms by (auto simp: publishable_def intro: number_ok_size)
  have e: "payload_ok (Suc (Suc (Suc (Suc (Suc 0))))) (engineJson s)"
    by (rule payload_ok_mono [OF _ engineJson_ok [OF assms]]) simp
  have "isObject (set_all ?ms (JObject [])) \<and> payload_ok (Suc (Suc (Suc (Suc (Suc (Suc 0)))))) (set_all ?ms (JObject []))"
    by (rule payload_ok_members) (use k n s e in \<open>simp add: json_signed_def json_u64_def json_size_def\<close>)
  then show ?thesis
    unfolding buildStateJson_def Let_def clients_json_def [symmetric]
    using payload_ok_set(2) [OF _ _ k(7) clients_json_ok [OF assms]] by simp
qed

lemma payload_readable:
  assumes "publishable E s"
  shows "read_state (stateIni gen (buildStateJson E now False s)) = Some (reread (buildStateJson E now False s))"
proof -
  have "payload_ok 64 (buildStateJson E now False s)"
    by (rule payload_ok_mono [OF _ buildStateJson_ok [OF assms]]) simp
  then show ?thesis by (simp add: payload_ok_def read_state_written)
qed

section \<open>What the reader finds\<close>

lemma Json_get_reread: "Json_get (reread j) k = reread (Json_get j k)"
proof (cases j)
  case (JObject ms)
  have "find (\<lambda>m. fst m = k) (map (\<lambda>m. (fst m, reread (snd m))) ms) = map_option (\<lambda>m. (fst m, reread (snd m))) (find (\<lambda>m. fst m = k) ms)"
    by (induction ms) simp_all
  then show ?thesis by (simp add: JObject Json_get_def split: option.splits)
next
  case (JNumber v)
  then show ?thesis by (cases v) (simp_all add: Json_get_def reads_as_def)
qed (simp_all add: Json_get_def)

lemma Json_get_set_all:
  "Json_get (set_all ms j) k = (case map_of (rev ms) k of Some v \<Rightarrow> v | None \<Rightarrow> Json_get j k)"
  unfolding set_all_def using json_map.get_chain [of ms j k] by (simp add: case_prod_beta')

lemma clients_json_get:
  assumes "distinct (map c_id (m_clients s))" and "client \<in> set (m_clients s)"
  shows "Json_get (clients_json s) (c_id client) = clientJson s False client"
proof -
  let ?ms = "map (\<lambda>client. (c_id client, clientJson s False client)) (m_clients s)"
  have "distinct (map fst (rev ?ms))" using assms(1) by (simp add: rev_map [symmetric] comp_def)
  moreover have "(c_id client, clientJson s False client) \<in> set (rev ?ms)" using assms(2) by simp
  ultimately have "map_of (rev ?ms) (c_id client) = Some (clientJson s False client)" by (rule map_of_is_SomeI)
  then show ?thesis by (simp add: clients_json_set_all Json_get_set_all)
qed

lemma reread_exact:
  assumes "n < 9000000000000000"
  shows "reread (JNumber (double_of_rat (of_nat n))) = JNumber (Finite (of_nat n))"
proof -
  have d: "double_of_rat (of_nat n) = Finite (of_nat n)" by (rule double_of_nat_exact) (use assms in simp)
  have "(of_nat n :: rat) < of_nat 9000000000000000" using assms by (simp only: of_nat_less_iff)
  then have "integral (Finite (of_nat n))" unfolding integral_def by simp
  then show ?thesis unfolding d by (simp add: reads_as_def)
qed

lemma reread_u64: "unat w < 9000000000000000 \<Longrightarrow> reread (json_u64 w) = JNumber (Finite (of_nat (unat w)))"
  unfolding json_u64_def double_of_u64_def by (rule reread_exact)

lemma reread_size: "n < 9000000000000000 \<Longrightarrow> reread (json_size n) = JNumber (Finite (of_nat n))"
  unfolding json_size_def double_of_size_def by (rule reread_exact)

lemma reread_version: "reread (json_signed 1) = JNumber (Finite (of_nat 1))"
  using reread_exact [of 1] by (simp add: json_signed_def double_of_int_def)

text \<open>The members of each object of the document.\<close>

lemma destinationJson_members:
  "Json_get (destinationJson s False d) ''id'' = JString (d_id d)"
  "Json_get (destinationJson s False d) ''state'' = JString (healthStateName (shown d))"
  "Json_get (destinationJson s False d) ''resolved'' = JString (resolvedText (proberOf s d))"
  "Json_get (destinationJson s False d) ''have_rtt'' = JBool (d_haveRtt d)"
  "Json_get (destinationJson s False d) ''rtt_us'' = json_u64 (d_rttUs d)"
  "Json_get (destinationJson s False d) ''sent'' = json_u64 (d_sent d)"
  "Json_get (destinationJson s False d) ''received'' = json_u64 (d_received d)"
  "Json_get (destinationJson s False d) ''loss_percent'' = JNumber (lossPercent d)"
  "Json_get (destinationJson s False d) ''error'' = JString (case proberOf s d of Some p \<Rightarrow> pr_lastError p | None \<Rightarrow> '''')"
  by (simp_all add: destinationJson_def Let_def Json_get_set_all shown_def)

lemma countsJson_members:
  "Json_get (countsJson n k) ''enabled'' = json_size (n_enabled n)" "Json_get (countsJson n k) ''good'' = json_size (n_good n)"
  "Json_get (countsJson n k) ''warn'' = json_size (n_warn n)" "Json_get (countsJson n k) ''bad'' = json_size (n_bad n)"
  "Json_get (countsJson n k) ''offline'' = json_size (n_offline n)" "Json_get (countsJson n k) ''unknown'' = json_size (n_unknown n)"
  "Json_get (countsJson n k) ''total'' = json_size k"
  by (simp_all add: countsJson_def Json_get_set_all)

lemma clientJson_members:
  "Json_get (clientJson s False client) ''overall'' = JString (overallState (clientCounts client))"
  "Json_get (clientJson s False client) ''counts'' = countsJson (clientCounts client) (length (c_destinations client))"
  "Json_get (clientJson s False client) ''destinations'' = JArray (map (destinationJson s False) (c_destinations client))"
  by (simp_all add: clientJson_def Let_def json_map.get_put Json_get_set_all fold_push)

lemma socketJson_members:
  "Json_get (socketJson sock err) ''available'' = JBool (isOpen sock)" "Json_get (socketJson sock err) ''raw'' = JBool (isRaw sock)"
  "Json_get (socketJson sock err) ''error'' = JString err"
  by (simp_all add: socketJson_def Json_get_set_all)

lemma engineJson_members:
  "Json_get (engineJson s) ''ipv4'' = socketJson (m_socket4 s) (m_error4 s)"
  "Json_get (engineJson s) ''ipv6'' = socketJson (m_socket6 s) (m_error6 s)"
  by (simp_all add: engineJson_def Json_get_set_all)

lemma buildStateJson_members:
  "Json_get (buildStateJson E now False s) ''version'' = json_signed 1"
  "Json_get (buildStateJson E now False s) ''generation'' = json_u64 (m_generation s)"
  "Json_get (buildStateJson E now False s) ''pid'' = json_size (e_pid E)"
  "Json_get (buildStateJson E now False s) ''timestamp_us'' = json_u64 (e_realtime E (m_osCalls s))"
  "Json_get (buildStateJson E now False s) ''probers'' = json_size (length (m_probers s))"
  "Json_get (buildStateJson E now False s) ''engine'' = engineJson s"
  "Json_get (buildStateJson E now False s) ''clients'' = clients_json s"
  by (simp_all add: buildStateJson_def Let_def json_map.get_put Json_get_set_all clients_json_def)

text \<open>The entry of a widget in the document a reader has parsed.\<close>

definition view_client :: "Json \<Rightarrow> string \<Rightarrow> Json" where
  "view_client doc ident = Json_get (Json_get doc ''clients'') ident"

lemma document_view:
  assumes "distinct (map c_id (m_clients s))" and "client \<in> set (m_clients s)"
  shows "view_client (reread (buildStateJson E now False s)) (c_id client) = reread (clientJson s False client)"
  by (simp add: view_client_def Json_get_reread buildStateJson_members clients_json_get [OF assms])

text \<open>What the members of a payload must say, read off the monitor.\<close>

abbreviation exact_number :: "nat \<Rightarrow> Json" where
  "exact_number n \<equiv> JNumber (Finite (of_nat n))"

definition shows_destination :: "Monitor \<Rightarrow> Destination \<Rightarrow> Json \<Rightarrow> bool" where
  "shows_destination s d j \<longleftrightarrow>
     Json_get j ''id'' = JString (d_id d) \<and>
     Json_get j ''state'' = JString (healthStateName (reportedState (d_state d) (d_partTime d))) \<and>
     Json_get j ''resolved'' = JString (resolvedText (proberOf s d)) \<and>
     Json_get j ''have_rtt'' = JBool (d_haveRtt d) \<and>
     Json_get j ''rtt_us'' = exact_number (unat (d_rttUs d)) \<and>
     Json_get j ''sent'' = exact_number (unat (d_sent d)) \<and>
     Json_get j ''received'' = exact_number (unat (d_received d)) \<and>
     Json_get j ''loss_percent'' = reads_as (lossPercent d) \<and>
     Json_get j ''error'' = JString (case proberOf s d of None \<Rightarrow> '''' | Some p \<Rightarrow> pr_lastError p)"

definition shows_counts :: "Destination list \<Rightarrow> Json \<Rightarrow> bool" where
  "shows_counts ds j \<longleftrightarrow>
     Json_get j ''enabled'' = exact_number (length (filter d_enabled ds)) \<and>
     Json_get j ''good'' = exact_number (shown_by ds Good) \<and>
     Json_get j ''warn'' = exact_number (shown_by ds Warn) \<and>
     Json_get j ''bad'' = exact_number (shown_by ds Bad) \<and>
     Json_get j ''offline'' = exact_number (shown_by ds Offline) \<and>
     Json_get j ''unknown'' = exact_number (shown_by ds Unknown) \<and>
     Json_get j ''total'' = exact_number (length ds)"

definition shows_client :: "Monitor \<Rightarrow> Client \<Rightarrow> Json \<Rightarrow> bool" where
  "shows_client s client j \<longleftrightarrow>
     Json_get j ''overall'' = JString (overall_spec (shown_states client)) \<and>
     shows_counts (c_destinations client) (Json_get j ''counts'') \<and>
     Json_size (Json_get j ''destinations'') = length (c_destinations client) \<and>
     list_all (\<lambda>k. shows_destination s (c_destinations client ! k) (Json_at (Json_get j ''destinations'') k))
       [0..<length (c_destinations client)]"

definition shows_socket :: "IcmpSocket \<Rightarrow> string \<Rightarrow> Json \<Rightarrow> bool" where
  "shows_socket sock err j \<longleftrightarrow>
     Json_get j ''available'' = JBool (isOpen sock) \<and> Json_get j ''raw'' = JBool (isRaw sock) \<and> Json_get j ''error'' = JString err"

definition shows_monitor :: "env \<Rightarrow> Monitor \<Rightarrow> Json \<Rightarrow> bool" where
  "shows_monitor E s doc \<longleftrightarrow>
     Json_get doc ''version'' = exact_number 1 \<and>
     Json_get doc ''generation'' = exact_number (unat (m_generation s)) \<and>
     Json_get doc ''pid'' = exact_number (e_pid E) \<and>
     Json_get doc ''timestamp_us'' = exact_number (unat (e_realtime E (m_osCalls s))) \<and>
     Json_get doc ''probers'' = exact_number (length (m_probers s)) \<and>
     shows_socket (m_socket4 s) (m_error4 s) (Json_get (Json_get doc ''engine'') ''ipv4'') \<and>
     shows_socket (m_socket6 s) (m_error6 s) (Json_get (Json_get doc ''engine'') ''ipv6'') \<and>
     list_all (\<lambda>client. shows_client s client (view_client doc (c_id client))) (m_clients s)"

text \<open>Numbers that are written as integers: below \<open>9 * 10 ^ 15\<close>.\<close>

abbreviation small :: "nat \<Rightarrow> bool" where
  "small n \<equiv> n < 9000000000000000"

definition exact_range :: "env \<Rightarrow> Monitor \<Rightarrow> bool" where
  "exact_range E s \<longleftrightarrow> small (unat (m_generation s)) \<and> small (e_pid E) \<and> small (unat (e_realtime E (m_osCalls s))) \<and>
     small (length (m_probers s)) \<and>
     list_all (\<lambda>client. small (length (c_destinations client)) \<and>
       list_all (\<lambda>d. small (unat (d_rttUs d)) \<and> small (unat (d_sent d)) \<and> small (unat (d_received d))) (c_destinations client)) (m_clients s)"

lemma destination_shown:
  assumes "small (unat (d_rttUs d))" and "small (unat (d_sent d))" and "small (unat (d_received d))"
  shows "shows_destination s d (reread (destinationJson s False d))"
  unfolding shows_destination_def
  by (cases "proberOf s d") (simp_all add: Json_get_reread destinationJson_members reread_u64 assms shown_def del: of_nat_unat)

lemma counts_shown:
  assumes "small (length (c_destinations client))"
  shows "shows_counts (c_destinations client) (reread (countsJson (clientCounts client) (length (c_destinations client))))"
proof -
  have "small (shown_by (c_destinations client) x)" for x
    unfolding shown_by_def by (rule le_less_trans [OF length_filter_le assms])
  moreover have "small (length (filter d_enabled (c_destinations client)))"
    by (rule le_less_trans [OF length_filter_le assms])
  ultimately show ?thesis
    by (simp add: shows_counts_def Json_get_reread countsJson_members clientCounts_def fold_countState counts_zero_def reread_size assms)
qed

lemma client_shown:
  assumes "small (length (c_destinations client))"
    and "\<forall>d \<in> set (c_destinations client). small (unat (d_rttUs d)) \<and> small (unat (d_sent d)) \<and> small (unat (d_received d))"
  shows "shows_client s client (reread (clientJson s False client))"
proof -
  have "shows_destination s (c_destinations client ! k) (reread (destinationJson s False (c_destinations client ! k)))"
    if "k < length (c_destinations client)" for k
    by (rule destination_shown) (use assms(2) that in simp_all)
  then show ?thesis
    using counts_shown [OF assms(1)]
    by (simp add: shows_client_def Json_get_reread clientJson_members overall_is_spec Json_size_def Json_at_def list_all_iff)
qed

lemma socket_shown: "shows_socket sock err (reread (socketJson sock err))"
  by (simp add: shows_socket_def Json_get_reread socketJson_members)

lemma monitor_shown:
  assumes "distinct (map c_id (m_clients s))" and "exact_range E s"
  shows "shows_monitor E s (reread (buildStateJson E now False s))"
proof -
  have r: "small (unat (m_generation s))" "small (e_pid E)" "small (unat (e_realtime E (m_osCalls s)))" "small (length (m_probers s))"
    using assms(2) by (simp_all add: exact_range_def)
  have "shows_client s client (view_client (reread (buildStateJson E now False s)) (c_id client))" if "client \<in> set (m_clients s)" for client
    unfolding document_view [OF assms(1) that]
    by (rule client_shown) (use assms(2) that in \<open>auto simp: exact_range_def list_all_iff\<close>)
  then show ?thesis
    unfolding shows_monitor_def
    by (simp add: Json_get_reread buildStateJson_members engineJson_members socket_shown reread_version reread_u64 reread_size r list_all_iff
        del: of_nat_unat of_nat_1)
qed

section \<open>Writing\<close>

lemma writeState_trace:
  assumes "writeState E path data (s, states) = (s', states')"
  shows "s' = os_tick s" and "\<exists>passed. states' = states @ passed \<and> passed \<noteq> [] \<and>
    (\<forall>f \<in> set passed. f path = last states path \<or> f path = Some (data, 420)) \<and>
    (\<forall>q. q \<noteq> path \<and> (\<forall>suffix. q \<noteq> path @ ''.tmp'' @ suffix) \<longrightarrow> (\<forall>f \<in> set passed. f q = last states q))"
proof -
  obtain ok passed where w: "writeFileAtomically (e_write E (m_osCalls s)) path data 420 (last states) = (ok, passed)" by force
  show "s' = os_tick s" using assms w by (simp add: writeState_def)
  have r: "states' = states @ passed" using assms w by (simp add: writeState_def)
  show "\<exists>passed. states' = states @ passed \<and> passed \<noteq> [] \<and>
    (\<forall>f \<in> set passed. f path = last states path \<or> f path = Some (data, 420)) \<and>
    (\<forall>q. q \<noteq> path \<and> (\<forall>suffix. q \<noteq> path @ ''.tmp'' @ suffix) \<longrightarrow> (\<forall>f \<in> set passed. f q = last states q))"
  proof (cases "we_mkstemp (e_write E (m_osCalls s))")
    case None
    then have "passed = [last states]" using w by (simp add: writeFileAtomically_def)
    with r show ?thesis by auto
  next
    case (Some suffix)
    have "passed \<noteq> []" using w Some by (auto simp: writeFileAtomically_def Let_def split: prod.splits)
    moreover note A = writeFileAtomically_atomic [OF w Some]
    have "\<forall>f \<in> set passed. f path = last states path \<or> f path = Some (data, 420)" using A by (rule conjunct1)
    moreover have "\<forall>f \<in> set passed. f q = last states q" if "q \<noteq> path" "q \<noteq> path @ ''.tmp'' @ suffix" for q
      using A that by simp
    ultimately show ?thesis using r by (intro exI [of _ passed]) simp
  qed
qed

lemma readable_path_apart:
  "stateIniPath s \<noteq> stateFilePath t" "stateIniPath s \<noteq> stateFilePath t @ ''.tmp'' @ suffix"
  if "m_options s = m_options t"
  using that by (simp_all add: stateIniPath_def stateFilePath_def)

text \<open>The file the widget reads, over all states the file system passes through while publishing.\<close>

lemma publish_trace:
  assumes p: "publish E now force (s, states) = (t, states')" and ne: "states \<noteq> []" and due: "publishDue now force s"
  defines "ini \<equiv> stateIni (m_generation s + 1) (buildStateJson E now False (s\<lparr>m_generation := m_generation s + 1\<rparr>))"
  shows "\<exists>passed. states' = states @ passed \<and> passed \<noteq> [] \<and>
    (\<forall>f \<in> set passed. f (stateIniPath s) = last states (stateIniPath s) \<or> f (stateIniPath s) = Some (ini, 420))"
    and "m_generation t = m_generation s + 1 \<and> m_lastPublishUs t = now \<and> \<not> m_dataDirty t \<and> \<not> m_stateDirty t \<and>
      m_clients t = m_clients s \<and> m_probers t = m_probers s"
proof -
  let ?s1 = "s\<lparr>m_generation := m_generation s + 1\<rparr>"
  obtain s2 states2 where w: "writeState E (stateIniPath ?s1) ini (os_tick ?s1, states) = (s2, states2)" by force
  obtain s3 where r: "publishReadable E now (s2, states2) = (s3, states')"
    and t: "t = s3\<lparr>m_lastPublishUs := now, m_dataDirty := False, m_stateDirty := False\<rparr>"
    using p due w by (auto simp: publish_def ini_def split: prod.splits)
  have s2: "s2 = os_tick (os_tick ?s1)" by (rule writeState_trace(1) [OF w])
  have ip: "stateIniPath ?s1 = stateIniPath s" by (simp add: stateIniPath_def)
  obtain one where one: "states2 = states @ one" "one \<noteq> []"
    "\<forall>f \<in> set one. f (stateIniPath s) = last states (stateIniPath s) \<or> f (stateIniPath s) = Some (ini, 420)"
    using writeState_trace(2) [OF w] unfolding ip by blast
  have "m_generation s3 = m_generation s + 1 \<and> m_clients s3 = m_clients s \<and> m_probers s3 = m_probers s \<and>
      (\<exists>two. states' = states2 @ two \<and> (\<forall>f \<in> set two. f (stateIniPath s) = last states2 (stateIniPath s)))"
  proof (cases "m_stateDirty s2 \<or> m_lastReadablePublishUs s2 = 0 \<or> now - m_lastReadablePublishUs s2 \<ge> kReadablePublishIntervalUs")
    case True
    obtain s4 where w2: "writeState E (stateFilePath s2) (dump 2 False (buildStateJson E now True s2)) (os_tick s2, states2) = (s4, states')"
      and s3: "s3 = s4\<lparr>m_lastReadablePublishUs := now\<rparr>"
      using r True by (auto simp: publishReadable_def Let_def split: prod.splits)
    have "m_options s = m_options s2" by (simp add: s2)
    from writeState_trace(2) [OF w2] readable_path_apart [OF this] writeState_trace(1) [OF w2]
    show ?thesis by (auto simp: s3 s2)
  next
    case False
    then have "s3 = s2" "states' = states2" using r by (auto simp: publishReadable_def)
    then show ?thesis by (simp add: s2)
  qed
  then obtain two where two: "states' = states2 @ two" "\<forall>f \<in> set two. f (stateIniPath s) = last states2 (stateIniPath s)"
    and s3: "m_generation s3 = m_generation s + 1 \<and> m_clients s3 = m_clients s \<and> m_probers s3 = m_probers s" by blast
  have "last one (stateIniPath s) = last states (stateIniPath s) \<or> last one (stateIniPath s) = Some (ini, 420)"
    using one(2,3) last_in_set by blast
  moreover have "last states2 = last one" using one(1,2) by simp
  ultimately have "\<forall>f \<in> set two. f (stateIniPath s) = last states (stateIniPath s) \<or> f (stateIniPath s) = Some (ini, 420)"
    using two(2) by metis
  then have "states' = states @ (one @ two) \<and> one @ two \<noteq> [] \<and>
      (\<forall>f \<in> set (one @ two). f (stateIniPath s) = last states (stateIniPath s) \<or> f (stateIniPath s) = Some (ini, 420))"
    using one two(1) by auto
  then show "\<exists>passed. states' = states @ passed \<and> passed \<noteq> [] \<and>
    (\<forall>f \<in> set passed. f (stateIniPath s) = last states (stateIniPath s) \<or> f (stateIniPath s) = Some (ini, 420))" by blast
  show "m_generation t = m_generation s + 1 \<and> m_lastPublishUs t = now \<and> \<not> m_dataDirty t \<and> \<not> m_stateDirty t \<and>
      m_clients t = m_clients s \<and> m_probers t = m_probers s"
    using s3 by (simp add: t)
qed

section \<open>Properties\<close>

lemma publishable_generation [simp]: "publishable E (s\<lparr>m_generation := g\<rparr>) = publishable E s"
  by (simp add: publishable_def)

text \<open>
  C32: What the widget reads is what the monitor knows.  At every moment while the state is being published, the file is
  either untouched or a complete new one, and then decoding its payload gives a document that shows the monitor in every member it has:
  version, generation, pid, time, the number of probers, both sockets with their errors, and for every widget the overall
  state - the worst one shown -, the seven counts and its destinations in order, each with its id, shown state, address, last round-trip time,
  counters, loss (as the decimal it is printed as) and error.  Strings must be UTF-8, client ids distinct, and numbers below
  \<open>9 * 10 ^ 15\<close>.
\<close>

theorem widget_sees_state:
  assumes "publish E now force (s, [fs]) = (t, states)" and "publishDue now force s" and "publishable E s"
    and "distinct (map c_id (m_clients s))" and "exact_range E (s\<lparr>m_generation := m_generation s + 1\<rparr>)"
    and "f \<in> set states" and "f (stateIniPath s) = Some (content, mode)" and "f (stateIniPath s) \<noteq> fs (stateIniPath s)"
  shows "\<exists>doc. read_state content = Some doc \<and> shows_monitor E (s\<lparr>m_generation := m_generation s + 1\<rparr>) doc"
proof -
  let ?s = "s\<lparr>m_generation := m_generation s + 1\<rparr>"
  obtain passed where "states = [fs] @ passed" "\<forall>f \<in> set passed. f (stateIniPath s) = last [fs] (stateIniPath s) \<or>
      f (stateIniPath s) = Some (stateIni (m_generation s + 1) (buildStateJson E now False ?s), 420)"
    using publish_trace(1) [OF assms(1) _ assms(2)] by auto
  then have "content = stateIni (m_generation s + 1) (buildStateJson E now False ?s)"
    using assms(6-8) by auto
  then have "read_state content = Some (reread (buildStateJson E now False ?s))"
    using payload_readable [of E ?s] assms(3) by simp
  moreover have "shows_monitor E ?s (reread (buildStateJson E now False ?s))"
    by (rule monitor_shown) (use assms(4,5) in simp_all)
  ultimately show ?thesis by blast
qed

definition quiet_monitor :: Monitor where
  "quiet_monitor = example_monitor\<lparr>m_stateDirty := False, m_lastReadablePublishUs := 5000000\<rparr>"

lemma quiet_publishable: "publishable example_env quiet_monitor"
  by (simp add: publishable_def quiet_monitor_def example_defs example_env_def example_endpoint_def utf8_ascii)

lemma quiet_published:
  obtains t content states where "publish example_env 6000000 True (quiet_monitor, [Map.empty]) = (t, states)"
    and "states \<noteq> []" and "last states (stateIniPath quiet_monitor) = Some (content, 420)"
proof -
  let ?s = "quiet_monitor\<lparr>m_generation := m_generation quiet_monitor + 1\<rparr>"
  define ini where "ini = stateIni (m_generation quiet_monitor + 1) (buildStateJson example_env 6000000 False ?s)"
  have path: "stateIniPath quiet_monitor = ''/state.ini''"
    by (simp add: stateIniPath_def quiet_monitor_def example_defs MonitorOptions_default_def)
  obtain ok passed where w: "writeFileAtomically (e_write example_env (Suc (m_osCalls ?s))) ''/state.ini'' ini 420 Map.empty = (ok, passed)"
    by force
  have e: "e_write example_env n = \<lparr>we_mkstemp = Some ''abc'', we_writes = [], we_fchmod = True, we_rename = True\<rparr>" for n
    by (simp add: example_env_def)
  have ok: ok using w unfolding e by (simp add: writeFileAtomically_def Let_def)
  have ne: "passed \<noteq> []" using w unfolding e by (auto simp: writeFileAtomically_def Let_def)
  have lst: "last passed ''/state.ini'' = Some (ini, 420)" using writeFileAtomically_atomic [OF w, of "''abc''"] ok by (simp add: e)
  have readable: "publishReadable example_env 6000000 (os_tick (os_tick ?s), x) = (os_tick (os_tick ?s), x)" for x
    by (simp add: publishReadable_def quiet_monitor_def kReadablePublishIntervalUs_def example_defs)
  have ws: "writeState example_env (stateIniPath ?s) ini (os_tick ?s, [Map.empty]) = (os_tick (os_tick ?s), Map.empty # passed)"
    using w path by (simp add: writeState_def stateIniPath_def)
  have "publish example_env 6000000 True (quiet_monitor, [Map.empty]) =
      ((os_tick (os_tick ?s))\<lparr>m_lastPublishUs := 6000000, m_dataDirty := False, m_stateDirty := False\<rparr>, Map.empty # passed)"
    using ws readable by (simp add: publish_def publishDue_def ini_def)
  then show ?thesis by (rule that) (use ne lst path in simp_all)
qed

theorem widget_sees_state_witness:
  "let (t, states) = publish example_env 6000000 True (quiet_monitor, [Map.empty]);
       doc = the (read_state (fst (the (last states ''/state.ini''))));
       entry = Json_at (Json_get (view_client doc ''b'') ''destinations'') 0
   in Json_get (view_client doc ''b'') ''overall'' = JString ''unknown'' \<and>
      Json_get (Json_get (view_client doc ''b'') ''counts'') ''unknown'' = exact_number 1 \<and>
      Json_get entry ''state'' = JString ''unknown'' \<and> Json_get entry ''sent'' = exact_number 0 \<and>
      Json_get doc ''generation'' = exact_number 1"
proof -
  let ?s = "quiet_monitor\<lparr>m_generation := m_generation quiet_monitor + 1\<rparr>"
  let ?c = "example_client ''b''"
  obtain t content states where p: "publish example_env 6000000 True (quiet_monitor, [Map.empty]) = (t, states)"
    and st: "states \<noteq> []" "last states (stateIniPath quiet_monitor) = Some (content, 420)"
    by (rule quiet_published)
  have path: "stateIniPath quiet_monitor = ''/state.ini''"
    by (simp add: stateIniPath_def quiet_monitor_def example_defs MonitorOptions_default_def)
  have m: "m_clients quiet_monitor = [example_client ''a'', ?c]" by (simp add: quiet_monitor_def example_monitor_def)
  have facts: "publishDue 6000000 True quiet_monitor" "distinct (map c_id (m_clients quiet_monitor))" "?c \<in> set (m_clients quiet_monitor)"
    "c_id ?c = ''b''"
    by (simp_all add: publishDue_def m example_client_def Client_default_def)
  have range: "exact_range example_env ?s"
    by (simp add: exact_range_def m) (simp add: quiet_monitor_def example_defs example_env_def)
  have ed: "c_destinations ?c = [example_destination]" "d_enabled example_destination" "d_state example_destination = Unknown"
    "d_sent example_destination = 0" "m_generation quiet_monitor = 0"
    by (simp_all add: quiet_monitor_def example_defs)
  then have "{d \<in> set (c_destinations ?c). d_enabled d} = {example_destination}" by auto
  then have shown: "shown_states ?c = {Unknown}" "shown_by [example_destination] Unknown = 1"
    "healthStateName (reportedState (d_state example_destination) (d_partTime example_destination)) = ''unknown''"
    by (simp_all add: shown_states_def shown_by_def shown_def ed reportedState_def healthStateName_def)
  have "\<exists>doc. read_state content = Some doc \<and> shows_monitor example_env ?s doc"
    by (rule widget_sees_state [OF p facts(1) quiet_publishable facts(2) range last_in_set [OF st(1)] st(2)]) (use st(2) in simp)
  then obtain doc where doc: "read_state content = Some doc" "shows_monitor example_env ?s doc" by blast
  then have "shows_client ?s ?c (view_client doc ''b'')" "Json_get doc ''generation'' = exact_number 1"
    using facts(3,4) by (auto simp: shows_monitor_def list_all_iff ed)
  then show ?thesis
    using st(2) doc(1) shown by (simp add: p path shows_client_def shows_counts_def shows_destination_def ed overall_spec_def)
qed

end
