(* ===== verification/Event_Loop.thy ===== *)
theory Event_Loop
  imports Publish
begin

text \<open>
  The life of the monitor (\<^verbatim>\<open>monitor.cpp\<close>): opening the sockets, starting, the next deadline, one
  iteration of the event loop, the loop itself and the end.  The state of the daemon is the monitor together with
  the states the file system passed through, the current one last.
\<close>

type_synonym world = "Monitor \<times> filesystem list"

section \<open>Starting\<close>

text \<open>The answers of the system calls that only \<^verbatim>\<open>start\<close> makes; a descriptor comes with the error number.\<close>

record boot =
  b_random :: u32
  b_dgram4 :: socket_result
  b_raw4 :: socket_result
  b_dgram6 :: socket_result
  b_raw6 :: socket_result
  b_epoll :: "int \<times> errno"
  b_sigmask :: bool
  b_signalfd :: "int \<times> errno"
  b_inotify :: "int \<times> errno"

definition openSockets :: "env \<Rightarrow> boot \<Rightarrow> Monitor \<Rightarrow> bool \<times> Monitor" where
  "openSockets E B s =
     (let (ok4, err4, sock4) = IcmpSocket_open (e_strerror E) (b_dgram4 B) (b_raw4 B) AF_INET (m_socket4 s);
          (ok6, err6, sock6) = IcmpSocket_open (e_strerror E) (b_dgram6 B) (b_raw6 B) AF_INET6 (m_socket6 s)
      in (ok4 \<or> ok6, s\<lparr>m_socket4 := sock4, m_error4 := err4, m_socket6 := sock6, m_error6 := err6\<rparr>))"

text \<open>The descriptors that \<^verbatim>\<open>addFd\<close> registers with epoll.\<close>

definition epollFds :: "Monitor \<Rightarrow> int list" where
  "epollFds s = filter (\<lambda>fd. fd \<ge> 0)
     [m_signalFd s, m_inotifyFd s, rs_eventFd (m_resolver s), s_fd (m_socket4 s), s_fd (m_socket6 s)]"

definition startDirectories :: "env \<Rightarrow> Monitor \<Rightarrow> bool \<times> Monitor" where
  "startDirectories E s =
     (let (ok1, n1) = makeDirectories (os_mkdir E) (o_runtimeDir (m_options s)) (m_osCalls s)
      in if \<not> ok1 then (False, s\<lparr>m_osCalls := n1\<rparr>)
         else let (ok2, n2) = makeDirectories (os_mkdir E) (clientsDirPath s) n1
              in (ok2, s\<lparr>m_osCalls := n2\<rparr>))"

text \<open>\<^verbatim>\<open>start\<close>: the error message on failure, \<open>None\<close> on success, and the state reached.\<close>

definition startDescriptors :: "env \<Rightarrow> boot \<Rightarrow> Monitor \<Rightarrow> string option \<times> Monitor" where
  "startDescriptors E B s =
     (let s1 = s\<lparr>m_epollFd := fst (b_epoll B)\<rparr>
      in if m_epollFd s1 < 0 then (Some (''epoll_create1: '' @ e_strerror E (snd (b_epoll B))), s1)
         else if \<not> b_sigmask B then (Some ''pthread_sigmask failed'', s1)
         else
           (let s2 = s1\<lparr>m_signalFd := fst (b_signalfd B)\<rparr>
            in if m_signalFd s2 < 0 then (Some (''signalfd: '' @ e_strerror E (snd (b_signalfd B))), s2)
               else
                 (let s3 = s2\<lparr>m_inotifyFd := fst (b_inotify B)\<rparr>
                  in if m_inotifyFd s3 < 0 then (Some (''inotify_init1: '' @ e_strerror E (snd (b_inotify B))), s3)
                     else (None, (os_tick s3)\<lparr>m_inotifyWatch := e_addwatch E (m_osCalls s3)\<rparr>))))"

definition Monitor_start :: "env \<Rightarrow> boot \<Rightarrow> world \<Rightarrow> string option \<times> world" where
  "Monitor_start E B w =
     (let (s, states) = w;
          s0 = (os_tick s)\<lparr>m_startedRealUs := e_realtime E (m_osCalls s)\<rparr>;
          (made, s1) = startDirectories E s0
      in if \<not> made then (Some (''cannot create runtime directory '' @ o_runtimeDir (m_options s1)), (s1, states))
         else
           (let s2 = s1\<lparr>m_cookie := b_random B OR 1\<rparr>;
                (_, s3) = openSockets E B s2;
                (err, s4) = startDescriptors E B s3
            in case err of
                 Some e \<Rightarrow> (Some e, (s4, states))
               | None \<Rightarrow>
                   (let s5 = reloadClients E s4;
                        now = e_monotonic E (m_osCalls s5)
                    in (None, publish E now True (os_tick s5, states)))))"

text \<open>The destructor: the descriptors are closed and both files removed, if they can be.\<close>

definition Monitor_close :: "env \<Rightarrow> world \<Rightarrow> world" where
  "Monitor_close E w =
     (let (s, states) = w;
          fs1 = os_unlink E (m_osCalls s) (stateFilePath s) (last states);
          fs2 = os_unlink E (Suc (m_osCalls s)) (stateIniPath s) fs1
      in (s\<lparr>m_signalFd := - 1, m_inotifyFd := - 1, m_epollFd := - 1, m_osCalls := Suc (Suc (m_osCalls s))\<rparr>, states @ [fs1, fs2]))"

section \<open>Deadlines\<close>

definition proberDeadline :: "Prober \<Rightarrow> u64 \<Rightarrow> u64" where
  "proberDeadline p deadline =
     (let d1 = (if pr_inFlight p \<noteq> [] then min deadline (f_deadlineUs (hd (pr_inFlight p))) else deadline);
          d2 = min d1 (pr_nextSendUs p)
      in if \<not> pr_numeric p \<and> \<not> pr_resolving p then min d2 (pr_nextResolveUs p) else d2)"

definition nextDeadline :: "Monitor \<Rightarrow> u64" where
  "nextDeadline s =
     (let d0 = fold proberDeadline (m_probers s) kNeverUs;
          d1 = (if m_dataDirty s \<or> m_stateDirty s then min d0 (m_lastPublishUs s + publishIntervalUs s) else d0);
          d2 = (if o_clientTimeoutUs (m_options s) \<noteq> 0 \<and> m_clients s \<noteq> []
                then min d1 (m_lastClientCheckUs s + clientCheckIntervalUs s) else d1)
      in if o_idleExitUs (m_options s) \<noteq> 0 \<and> m_idleSinceUs s \<noteq> 0
         then min d2 (m_idleSinceUs s + o_idleExitUs (m_options s)) else d2)"

text \<open>The timeout handed to \<^verbatim>\<open>epoll_wait\<close>, in milliseconds rounded up.\<close>

definition timeoutMs :: "u64 \<Rightarrow> u64 \<Rightarrow> int" where
  "timeoutMs now deadline =
     (if deadline \<noteq> kNeverUs
      then if deadline \<le> now then 0 else uint (min ((deadline - now + 999) div 1000) 3600000)
      else - 1)"

section \<open>One iteration\<close>

definition SIGHUP :: nat where "SIGHUP = 1"

definition handleSignal :: "nat \<Rightarrow> Monitor \<Rightarrow> Monitor" where
  "handleSignal signo s = (if signo = SIGHUP then s\<lparr>m_configDirty := True\<rparr> else s\<lparr>m_running := False\<rparr>)"

text \<open>One ready descriptor; the flag is \<^verbatim>\<open>socketReadable\<close>.\<close>

definition handleEvent :: "env \<Rightarrow> u64 \<Rightarrow> int \<Rightarrow> Monitor \<times> bool \<Rightarrow> Monitor \<times> bool" where
  "handleEvent E after fd sr =
     (let (s, socketReadable) = sr
      in if fd = m_signalFd s then (fold handleSignal (e_signals E (m_osCalls s)) (os_tick s), socketReadable)
         else if fd = m_inotifyFd s then (handleInotify E s, socketReadable)
         else if fd = rs_eventFd (m_resolver s) then (handleResolutions after s, socketReadable)
         else if fd = s_fd (m_socket4 s) \<or> fd = s_fd (m_socket6 s) then (s, True)
         else (s, socketReadable))"

definition checkIdle :: "u64 \<Rightarrow> Monitor \<Rightarrow> Monitor" where
  "checkIdle after s =
     (if m_probers s = []
      then let s1 = (if m_idleSinceUs s = 0 then s\<lparr>m_idleSinceUs := after\<rparr> else s)
           in if o_idleExitUs (m_options s1) \<noteq> 0 \<and> after - m_idleSinceUs s1 \<ge> o_idleExitUs (m_options s1)
              then s1\<lparr>m_running := False\<rparr> else s1
      else s\<lparr>m_idleSinceUs := 0\<rparr>)"

text \<open>The work of an iteration after the events, while the monitor is running.\<close>

definition serviceClients :: "env \<Rightarrow> u64 \<Rightarrow> bool \<Rightarrow> Monitor \<Rightarrow> Monitor" where
  "serviceClients E after socketReadable s =
     (let s1 = (if socketReadable then handleReplies E after s else s);
          s2 = (if m_configDirty s1 then reloadClients E s1 else s1)
      in tick E (e_monotonic E (m_osCalls s2)) (os_tick s2))"

definition iteration_work :: "env \<Rightarrow> u64 \<Rightarrow> bool \<Rightarrow> world \<Rightarrow> world" where
  "iteration_work E after socketReadable w =
     (let (s, states) = w;
          s1 = serviceClients E after socketReadable s;
          (s2, fs) = dropExpiredClients E after (s1, last states);
          s3 = checkIdle after s2
      in publish E (e_monotonic E (m_osCalls s3)) False (os_tick s3, states @ [fs]))"

datatype loop_result = Continue | Returned int

definition iteration :: "env \<Rightarrow> world \<Rightarrow> loop_result \<times> world" where
  "iteration E w =
     (let (s, states) = w;
          now = e_monotonic E (m_osCalls s);
          s1 = os_tick s
      in case e_epoll E (m_osCalls s1) (timeoutMs now (nextDeadline s1)) of
           EpollInterrupted \<Rightarrow> (Continue, (os_tick s1, states))
         | EpollFailed \<Rightarrow> (Returned 1, (os_tick s1, states))
         | EpollReady fds \<Rightarrow>
             (let s2 = os_tick s1;
                  after = e_monotonic E (m_osCalls s2);
                  (s3, socketReadable) = fold (handleEvent E after) (take 8 fds) (os_tick s2, False)
              in if \<not> m_running s3 then (Continue, (s3, states))
                 else (Continue, iteration_work E after socketReadable (s3, states))))"

section \<open>The loop\<close>

text \<open>The \<^verbatim>\<open>while\<close> loop with a bound on the number of iterations; \<open>None\<close> means that it is still running.\<close>

fun runLoop :: "nat \<Rightarrow> env \<Rightarrow> world \<Rightarrow> (int \<times> world) option" where
  "runLoop 0 E w = None"
| "runLoop (Suc fuel) E w =
     (if \<not> m_running (fst w)
      then Some (0, publish E (e_monotonic E (m_osCalls (fst w))) True (os_tick (fst w), snd w))
      else (case iteration E w of
              (Returned code, w1) \<Rightarrow> Some (code, w1)
            | (Continue, w1) \<Rightarrow> runLoop fuel E w1))"

definition run_start :: "env \<Rightarrow> Monitor \<Rightarrow> Monitor" where
  "run_start E s = (os_tick s)\<lparr>m_running := True, m_idleSinceUs := e_monotonic E (m_osCalls s)\<rparr>"

definition Monitor_run :: "nat \<Rightarrow> env \<Rightarrow> world \<Rightarrow> (int \<times> world) option" where
  "Monitor_run fuel E w = runLoop fuel E (run_start E (fst w), snd w)"

end
