(* ===== verification/Loop_Invariant.thy ===== *)
theory Loop_Invariant
  imports Event_Loop Reload
begin

text \<open>
  The invariant over the whole life of the daemon: every state the event loop can reach, in any environment, is
  well-formed.  The steps of the daemon are those of the main thread, one iteration at a time, and those of the
  resolver's thread in between.
\<close>

section \<open>Steps that keep the configuration\<close>

text \<open>Nothing of the configuration changes, no uid is used up and no sequence number moves.\<close>

definition quiet :: "Monitor \<Rightarrow> Monitor \<Rightarrow> bool" where
  "quiet s t \<longleftrightarrow> evolves s t \<and> m_nextUid t = m_nextUid s \<and> m_options t = m_options s \<and>
     map pr_sequence (m_probers t) = map pr_sequence (m_probers s)"

lemma quiet_refl [simp]: "quiet s s"
  by (simp add: quiet_def)

lemma quiet_trans: "quiet s t \<Longrightarrow> quiet t u \<Longrightarrow> quiet s u"
  by (auto simp: quiet_def intro: evolves_trans)

lemma quiet_same:
  "m_clients t = m_clients s \<Longrightarrow> m_probers t = m_probers s \<Longrightarrow> m_proberByUid t = m_proberByUid s \<Longrightarrow>
   m_nextUid t = m_nextUid s \<Longrightarrow> m_options t = m_options s \<Longrightarrow> quiet s t"
  by (simp add: quiet_def evolves_def)

lemma quiet_fold:
  assumes "\<And>x u. quiet u (f x u)"
  shows "quiet s (fold f xs s)"
  by (induction xs arbitrary: s) (auto intro: quiet_trans assms)

lemma quiet_may_send:
  assumes "quiet s t" and "\<forall>p \<in> set (m_probers s). may_send p"
  shows "\<forall>p \<in> set (m_probers t). may_send p"
proof -
  have "pr_sequence ` set (m_probers t) = pr_sequence ` set (m_probers s)"
    using assms(1) by (metis list.set_map quiet_def)
  then show ?thesis using assms(2) unfolding may_send_def by (metis (no_types, lifting) image_iff)
qed

text \<open>What evolves keeps its configuration.\<close>

lemma wf_config_evolves:
  assumes "wf_config s" and "evolves s t" and "m_nextUid t = m_nextUid s" and "wf_monitor t"
  shows "wf_config t"
proof -
  have st: "map prober_static (m_probers t) = map prober_static (m_probers s)" using assms(2) by (simp add: evolves_def)
  have keep: "map g (m_probers t) = map g (m_probers s)" if "\<And>p q. prober_static p = prober_static q \<Longrightarrow> g p = g q" for g :: "Prober \<Rightarrow> 'b"
  proof (rule nth_equalityI)
    have len: "length (m_probers t) = length (m_probers s)" using map_eq_imp_length_eq [OF st] .
    then show "length (map g (m_probers t)) = length (map g (m_probers s))" by simp
    fix i assume "i < length (map g (m_probers t))"
    then have "prober_static (m_probers t ! i) = prober_static (m_probers s ! i)" and i: "i < length (m_probers t)"
      using len arg_cong [OF st, of "\<lambda>l. l ! i"] by simp_all
    then have "g (m_probers t ! i) = g (m_probers s ! i)" by (intro that)
    with i len show "map g (m_probers t) ! i = map g (m_probers s) ! i" by simp
  qed
  have k: "map keyOf (m_probers t) = map keyOf (m_probers s)" "map pr_uid (m_probers t) = map pr_uid (m_probers s)"
    "map (\<lambda>p. pr_maxInFlight p = windowFor (pr_timeoutUs p) (pr_intervalUs p)) (m_probers t) =
     map (\<lambda>p. pr_maxInFlight p = windowFor (pr_timeoutUs p) (pr_intervalUs p)) (m_probers s)"
    by (rule keep, simp add: prober_static_def keyOf_def)+
  have u: "pr_uid ` set (m_probers t) = pr_uid ` set (m_probers s)" using k(2) by (metis list.set_map)
  have "(\<forall>p \<in> set (m_probers t). pr_maxInFlight p = windowFor (pr_timeoutUs p) (pr_intervalUs p))"
    using assms(1) arg_cong [OF k(3), of "list_all id"] by (simp add: wf_config_def list_all_iff)
  moreover have "\<forall>p \<in> set (m_probers t). pr_uid p < m_nextUid t"
  proof
    fix p assume "p \<in> set (m_probers t)"
    then obtain q where "q \<in> set (m_probers s)" "pr_uid p = pr_uid q" using u by (metis (no_types, lifting) image_iff)
    then show "pr_uid p < m_nextUid t" using assms(1,3) by (simp add: wf_config_def previous_ok_def)
  qed
  ultimately show ?thesis using assms(1,4) k(1,2) by (simp add: wf_config_def previous_ok_def)
qed

context prober_operation
begin

lemma with_nextUid: "m_nextUid (withProber i f s) = m_nextUid s"
  using core_eqD(6) [OF op_core] by (simp add: withProber_def Let_def case_prod_beta)

lemma with_options: "m_options (withProber i f s) = m_options s"
  using core_eqD(1) [OF op_core] by (simp add: withProber_def Let_def case_prod_beta)

lemma with_running: "m_running (withProber i f s) = m_running s"
  using core_eqD(9) [OF op_core] by (simp add: withProber_def Let_def case_prod_beta)

lemma with_quiet:
  assumes "\<And>p s. pr_sequence (fst (f p s)) = pr_sequence p"
  shows "quiet s (withProber i f s)"
proof -
  have "map pr_sequence ((m_probers s)[i := fst (f (m_probers s ! i) s)]) = map pr_sequence (m_probers s)"
    by (cases "i < length (m_probers s)") (simp_all add: map_update assms list_update_same_conv list_update_beyond)
  then show ?thesis
    unfolding quiet_def by (simp add: with_evolves with_nextUid with_options with_probers)
qed

end

lemma acceptReply_sequence: "pr_sequence (fst (acceptReply E now reply p s)) = pr_sequence p"
  by (cases rule: acceptReply_cases [of E now reply p s]) (simp_all add: applySample_prober)

lemma acceptResolution_sequence: "pr_sequence (fst (acceptResolution now result p s)) = pr_sequence p"
  by (simp add: acceptResolution_def Let_def)

lemma handleReply_quiet: "quiet s (handleReply E now reply s)"
  using reply_op.with_quiet [OF acceptReply_sequence] by (simp add: handleReply_def split: option.splits)

lemma handleResolution_quiet: "quiet s (handleResolution now result s)"
  using resolution_op.with_quiet [OF acceptResolution_sequence] by (simp add: handleResolution_def split: option.splits)

lemma handleReplies_quiet: "quiet s (handleReplies E now s)"
  unfolding handleReplies_def Let_def case_prod_beta
  by (rule quiet_trans [OF _ quiet_fold [OF handleReply_quiet]], rule quiet_same) simp_all

lemma handleResolutions_quiet: "quiet s (handleResolutions now s)"
  unfolding handleResolutions_def Let_def case_prod_beta
  by (rule quiet_trans [OF _ quiet_fold [OF handleResolution_quiet]], rule quiet_same) simp_all

section \<open>The parts of an iteration\<close>

lemma fold_handleSignal_quiet: "quiet s (fold handleSignal signals s)"
  by (rule quiet_fold, rule quiet_same) (simp_all add: handleSignal_def)

lemma handleEvent_quiet: "quiet s (fst (handleEvent E after fd (s, r)))"
proof -
  have "quiet s (os_tick s)" by (rule quiet_same) simp_all
  then have "quiet s (fold handleSignal (e_signals E (m_osCalls s)) (os_tick s))"
    using fold_handleSignal_quiet by (rule quiet_trans)
  moreover have "quiet s (handleInotify E s)" by (rule quiet_same) (simp_all add: handleInotify_def)
  ultimately show ?thesis by (simp add: handleEvent_def handleResolutions_quiet)
qed

lemma handleEvent_wf: "wf_monitor s \<Longrightarrow> wf_monitor (fst (handleEvent E after fd (s, r)))"
proof -
  assume w: "wf_monitor s"
  have "m_clients (fold handleSignal signals t) = m_clients t \<and> m_probers (fold handleSignal signals t) = m_probers t \<and>
      m_proberByUid (fold handleSignal signals t) = m_proberByUid t" for signals t
    by (induction signals arbitrary: t) (simp_all add: handleSignal_def)
  then have "wf_monitor (fold handleSignal (e_signals E (m_osCalls s)) (os_tick s))"
    by (intro wf_monitor_same [OF _ _ _ w]) simp_all
  moreover have "wf_monitor (handleInotify E s)"
    by (intro wf_monitor_same [OF _ _ _ w]) (simp_all add: handleInotify_def)
  ultimately show ?thesis using w by (simp add: handleEvent_def handleResolutions_wf)
qed

lemma fold_handleEvent:
  assumes "wf_monitor s"
  shows "quiet s (fst (fold (handleEvent E after) fds (s, r))) \<and> wf_monitor (fst (fold (handleEvent E after) fds (s, r)))"
  using assms
proof (induction fds arbitrary: s r)
  case (Cons fd fds)
  obtain t r' where t: "handleEvent E after fd (s, r) = (t, r')" by force
  have "quiet s t" "wf_monitor t"
    using handleEvent_quiet [of s E after fd r] handleEvent_wf [OF Cons.prems, of E after fd r] t by simp_all
  then show ?case using Cons.IH [of t r'] t by (auto intro: quiet_trans)
qed simp

lemma evolves_count: "evolves s t \<Longrightarrow> destination_count (m_clients t) = destination_count (m_clients s)"
proof -
  assume "evolves s t"
  then have c: "clients_evolve (m_clients s) (m_clients t)" by (simp add: evolves_def)
  have "map (\<lambda>client. length (c_destinations client)) (m_clients t) = map (\<lambda>client. length (c_destinations client)) (m_clients s)"
    by (rule nth_equalityI) (use clients_evolve_nth [OF c] in simp_all)
  then show ?thesis by (simp add: destination_count_def)
qed

lemma reload_may_send:
  assumes "wf_config s" and "uids_left s (m_clients (reloadClients E s))" and "\<forall>p \<in> set (m_probers s). may_send p"
  shows "\<forall>p \<in> set (m_probers (reloadClients E s)). may_send p"
proof
  fix p assume p: "p \<in> set (m_probers (reloadClients E s))"
  obtain u t idx where r: "rebuilt u t idx" and e: "reloadClients E s = t\<lparr>m_stateDirty := True\<rparr>" and u: "m_probers u = m_probers s"
    by (rule reload_rebuilt [OF assms(1,2)])
  have "p \<in> set (m_probers t)" using p by (simp add: e)
  from rebuiltD(9) [OF r this] show "may_send p"
  proof
    assume "\<exists>j < length (m_probers u). strip p = (strip (m_probers u ! j))\<lparr>pr_maxInFlight := pr_maxInFlight p\<rparr>"
    then obtain q where q: "q \<in> set (m_probers s)" "strip p = (strip q)\<lparr>pr_maxInFlight := pr_maxInFlight p\<rparr>"
      unfolding u using nth_mem by blast
    from q(2) have "pr_sequence p = pr_sequence q" by (cases p, cases q) (simp add: strip_def)
    then show ?thesis using assms(3) q(1) by (simp add: may_send_def)
  next
    assume "fresh p \<and> keyOf p \<notin> keyOf ` set (m_probers u) \<and> m_nextUid u \<le> pr_uid p \<and> pr_uid p < m_nextUid t"
    then show ?thesis by (simp add: fresh_def may_send_def)
  qed
qed

lemma tick_nextUid: "m_nextUid (tick E now s) = m_nextUid s"
proof -
  have "m_nextUid (fold (\<lambda>i. withProber i (tick_prober E now)) is s) = m_nextUid s" for "is"
    by (induction "is" arbitrary: s) (simp_all add: tick_op.with_nextUid)
  then show ?thesis by (simp add: tick_def)
qed

lemma tick_evolves: "evolves s (tick E now s)"
proof -
  have "evolves s (fold (\<lambda>i. withProber i (tick_prober E now)) is s)" for "is"
    by (induction "is" arbitrary: s) (auto intro: evolves_trans tick_op.with_evolves)
  then show ?thesis by (simp add: tick_def)
qed

lemma tick_config:
  assumes "wf_config s" and "\<forall>p \<in> set (m_probers s). may_send p"
  shows "wf_config (tick E now s) \<and> evolves s (tick E now s)"
proof -
  have "wf_monitor s" using assms(1) by (simp add: wf_config_def)
  note T = tick_wf [OF this assms(2), of E now]
  then show ?thesis using wf_config_evolves [OF assms(1) _ tick_nextUid] by blast
qed

text \<open>
  The reload, if there is one, needs room for new uids; the tick needs sequence numbers that do not wrap.
\<close>

lemma serviceClients_config:
  assumes cfg: "wf_config s" and send: "\<forall>p \<in> set (m_probers s). may_send p"
    and room: "uids_left s (m_clients (serviceClients E after readable s))"
  shows "wf_config (serviceClients E after readable s)"
proof -
  define s1 where "s1 = (if readable then handleReplies E after s else s)"
  have q1: "quiet s s1" and w1: "wf_monitor s1"
    using cfg handleReplies_quiet handleReplies_wf by (auto simp: s1_def wf_config_def)
  then have c1: "wf_config s1" using wf_config_evolves [OF cfg _ _ w1] by (simp add: quiet_def)
  have m1: "\<forall>p \<in> set (m_probers s1). may_send p" by (rule quiet_may_send [OF q1 send])
  have n1: "m_nextUid s1 = m_nextUid s" using q1 by (simp add: quiet_def)
  define s2 where "s2 = (if m_configDirty s1 then reloadClients E s1 else s1)"
  let ?t = "tick E (e_monotonic E (m_osCalls s2)) (os_tick s2)"
  have t: "serviceClients E after readable s = ?t" by (simp add: serviceClients_def s1_def s2_def Let_def)
  have step: "wf_config ?t \<and> evolves (os_tick s2) ?t" if "wf_config s2" "\<forall>p \<in> set (m_probers s2). may_send p"
    by (rule tick_config) (use that wf_config_same [of "os_tick s2" s2] in simp_all)
  show ?thesis
  proof (cases "m_configDirty s1")
    case False
    then show ?thesis using step c1 m1 by (simp add: t s2_def)
  next
    case True
    have "destination_count (m_clients ?t) = destination_count (m_clients s2)"
      using evolves_count [OF tick_evolves [of "os_tick s2"]] by simp
    then have "uids_left s1 (m_clients (reloadClients E s1))"
      using room n1 True by (simp add: uids_left_def t s2_def)
    then show ?thesis
      using step reloadClients_wf [OF c1] reload_may_send [OF c1 _ m1] True by (simp add: t s2_def)
  qed
qed

section \<open>The steps of the daemon\<close>

lemma dropExpired_same:
  "m_clients (fst (dropExpiredClients E now (s, fs))) = m_clients s \<and> m_probers (fst (dropExpiredClients E now (s, fs))) = m_probers s \<and>
   m_proberByUid (fst (dropExpiredClients E now (s, fs))) = m_proberByUid s \<and> m_nextUid (fst (dropExpiredClients E now (s, fs))) = m_nextUid s"
  by (cases rule: dropExpiredClients_result [of E now s fs]) (simp_all add: Let_def)

lemma checkIdle_same [simp]:
  "m_clients (checkIdle after s) = m_clients s" "m_probers (checkIdle after s) = m_probers s"
  "m_proberByUid (checkIdle after s) = m_proberByUid s" "m_nextUid (checkIdle after s) = m_nextUid s"
  by (simp_all add: checkIdle_def Let_def)

lemma writeState_same:
  "fst (writeState E path data (s, states)) = os_tick s"
  by (simp add: writeState_def case_prod_beta)

text \<open>The fields that publishing leaves alone.\<close>

definition publish_frame :: "Monitor \<Rightarrow> Client list \<times> Prober list \<times> (u32 \<rightharpoonup> nat) \<times> u32 \<times> MonitorOptions \<times> bool" where
  "publish_frame s = (m_clients s, m_probers s, m_proberByUid s, m_nextUid s, m_options s, m_running s)"

lemma publishReadable_frame: "publish_frame (fst (publishReadable E now (s, states))) = publish_frame s"
  by (simp add: publishReadable_def Let_def case_prod_beta writeState_same publish_frame_def)

lemma publish_frame: "publish_frame (fst (publish E now force (s, states))) = publish_frame s"
proof (cases "publishDue now force s")
  case True
  define s1 where "s1 = s\<lparr>m_generation := m_generation s + 1\<rparr>"
  obtain x where w: "writeState E (stateIniPath s1) (stateIni (m_generation s1) (buildStateJson E now False s1)) (os_tick s1, states) =
      (os_tick (os_tick s1), x)"
    using writeState_same [of E "stateIniPath s1" _ "os_tick s1" states] by (metis prod.collapse)
  obtain s2 y where r: "publishReadable E now (os_tick (os_tick s1), x) = (s2, y)" by force
  have "publish_frame s2 = publish_frame s"
    using publishReadable_frame [of E now "os_tick (os_tick s1)" x] unfolding r by (simp add: publish_frame_def s1_def)
  moreover have "publish E now force (s, states) = (s2\<lparr>m_lastPublishUs := now, m_dataDirty := False, m_stateDirty := False\<rparr>, y)"
    using True w r by (simp add: publish_def s1_def [symmetric])
  ultimately show ?thesis by (simp add: publish_frame_def)
qed (simp add: publish_def)

lemma publish_same:
  "m_clients (fst (publish E now force (s, states))) = m_clients s \<and> m_probers (fst (publish E now force (s, states))) = m_probers s \<and>
   m_proberByUid (fst (publish E now force (s, states))) = m_proberByUid s \<and> m_nextUid (fst (publish E now force (s, states))) = m_nextUid s"
  using publish_frame [of E now force s states] by (simp add: publish_frame_def)

lemma iteration_work_clients:
  "m_clients (fst (iteration_work E after readable (s, states))) = m_clients (serviceClients E after readable s) \<and>
   m_probers (fst (iteration_work E after readable (s, states))) = m_probers (serviceClients E after readable s) \<and>
   m_proberByUid (fst (iteration_work E after readable (s, states))) = m_proberByUid (serviceClients E after readable s) \<and>
   m_nextUid (fst (iteration_work E after readable (s, states))) = m_nextUid (serviceClients E after readable s)"
  unfolding iteration_work_def Let_def case_prod_beta
  using dropExpired_same [of E after "serviceClients E after readable s" "last states"]
  by (simp add: publish_same)

text \<open>No counter wraps in a step: sequence numbers before it, uids of the probers it may make.\<close>

definition no_wrap :: "world \<Rightarrow> world \<Rightarrow> bool" where
  "no_wrap w w' \<longleftrightarrow> (\<forall>p \<in> set (m_probers (fst w)). may_send p) \<and> uids_left (fst w) (m_clients (fst w'))"

lemma iteration_config:
  assumes cfg: "wf_config (fst w)" and it: "iteration E w = (r, w')" and nw: "no_wrap w w'"
  shows "wf_config (fst w')"
proof -
  obtain s states where w: "w = (s, states)" by (cases w)
  let ?s1 = "os_tick s"
  have c: "wf_config u" if "m_clients u = m_clients s" "m_probers u = m_probers s" "m_proberByUid u = m_proberByUid s" "m_nextUid u = m_nextUid s" for u
    using wf_config_same [OF that] cfg by (simp add: w)
  show ?thesis
  proof (cases "e_epoll E (m_osCalls ?s1) (timeoutMs (e_monotonic E (m_osCalls s)) (nextDeadline ?s1))")
    case (EpollReady fds)
    let ?s2 = "os_tick ?s1"
    let ?after = "e_monotonic E (m_osCalls ?s2)"
    obtain s3 readable where f: "fold (handleEvent E ?after) (take 8 fds) (os_tick ?s2, False) = (s3, readable)" by force
    have c2: "wf_config (os_tick ?s2)" by (rule c) simp_all
    then have "wf_monitor (os_tick ?s2)" by (simp add: wf_config_def)
    from fold_handleEvent [OF this, of E ?after "take 8 fds" False]
    have "quiet (os_tick ?s2) s3" "wf_monitor s3" unfolding f by simp_all
    then have q: "quiet (os_tick ?s2) s3" and c3: "wf_config s3" using wf_config_evolves [OF c2] by (auto simp: quiet_def)
    show ?thesis
    proof (cases "m_running s3")
      case False
      then show ?thesis using it EpollReady f c3 by (auto simp: iteration_def w)
    next
      case True
      then have w': "w' = iteration_work E ?after readable (s3, states)" using it EpollReady f by (auto simp: iteration_def w)
      note W = iteration_work_clients [of E ?after readable s3 states]
      have "\<forall>p \<in> set (m_probers s3). may_send p" using quiet_may_send [OF q] nw by (simp add: no_wrap_def w)
      moreover have "uids_left s3 (m_clients (serviceClients E ?after readable s3))"
        using nw q W by (simp add: no_wrap_def uids_left_def w w' quiet_def)
      ultimately have "wf_config (serviceClients E ?after readable s3)" by (rule serviceClients_config [OF c3])
      then show ?thesis unfolding w' by (rule wf_config_same [rotated 4]) (use W in simp_all)
    qed
  qed (use it c in \<open>auto simp: iteration_def w\<close>)
qed

section \<open>Starting\<close>

lemma wf_config_new: "wf_config (Monitor_new options resolver)"
  by (simp add: wf_config_def wf_monitor_def wf_index_def wf_destinations_def wf_subscribers_def previous_ok_def Monitor_new_def)

text \<open>Everything before the first reload leaves the probers alone.\<close>

lemma start_before_reload:
  "m_clients (snd (startDirectories E s)) = m_clients s \<and> m_probers (snd (startDirectories E s)) = m_probers s \<and>
   m_proberByUid (snd (startDirectories E s)) = m_proberByUid s \<and> m_nextUid (snd (startDirectories E s)) = m_nextUid s"
  "m_clients (snd (openSockets E B s)) = m_clients s \<and> m_probers (snd (openSockets E B s)) = m_probers s \<and>
   m_proberByUid (snd (openSockets E B s)) = m_proberByUid s \<and> m_nextUid (snd (openSockets E B s)) = m_nextUid s"
  "m_clients (snd (startDescriptors E B s)) = m_clients s \<and> m_probers (snd (startDescriptors E B s)) = m_probers s \<and>
   m_proberByUid (snd (startDescriptors E B s)) = m_proberByUid s \<and> m_nextUid (snd (startDescriptors E B s)) = m_nextUid s"
  by (simp_all add: startDirectories_def openSockets_def startDescriptors_def Let_def case_prod_beta)

lemma start_config:
  assumes st: "Monitor_start E B (s, states) = (None, w)" and cfg: "wf_config s" and room: "uids_left s (m_clients (fst w))"
  shows "wf_config (fst w)"
proof -
  define s0 where "s0 = (os_tick s)\<lparr>m_startedRealUs := e_realtime E (m_osCalls s)\<rparr>"
  define s1 where "s1 = (snd (startDirectories E s0))\<lparr>m_cookie := b_random B OR 1\<rparr>"
  define s4 where "s4 = snd (startDescriptors E B (snd (openSockets E B s1)))"
  have same: "m_clients s4 = m_clients s" "m_probers s4 = m_probers s" "m_proberByUid s4 = m_proberByUid s" "m_nextUid s4 = m_nextUid s"
    by (simp_all add: s4_def s1_def s0_def start_before_reload)
  have c4: "wf_config s4" by (rule wf_config_same [OF same cfg])
  let ?s5 = "reloadClients E s4"
  have w: "w = publish E (e_monotonic E (m_osCalls ?s5)) True (os_tick ?s5, states)"
    using st by (auto simp: Monitor_start_def Let_def s0_def [symmetric] s1_def [symmetric] s4_def case_prod_beta split: if_splits option.splits)
  have P: "m_clients (fst w) = m_clients ?s5" "m_probers (fst w) = m_probers ?s5" "m_proberByUid (fst w) = m_proberByUid ?s5"
    "m_nextUid (fst w) = m_nextUid ?s5"
    unfolding w by (simp_all add: publish_same)
  have "uids_left s4 (m_clients ?s5)" using room by (simp add: uids_left_def same P)
  then have "wf_config ?s5" by (rule reloadClients_wf [OF c4])
  then show ?thesis by (rule wf_config_same [OF P])
qed

section \<open>Reachable states\<close>

text \<open>
  The main thread starts and iterates, in any environment; between two iterations the resolver's thread may take a
  step of its own.
\<close>

inductive reachable :: "world \<Rightarrow> bool" where
  started: "Monitor_start E B (Monitor_new options resolver, [fs]) = (None, w) \<Longrightarrow>
     uids_left (Monitor_new options resolver) (m_clients (fst w)) \<Longrightarrow> reachable (run_start E' (fst w), snd w)"
| iterated: "reachable w \<Longrightarrow> m_running (fst w) \<Longrightarrow> iteration E w = (r, w') \<Longrightarrow> no_wrap w w' \<Longrightarrow> reachable w'"
| resolved: "reachable (s, states) \<Longrightarrow>
     worker_take (m_resolver s) = Some r \<or> worker_push db (m_resolver s) = Some r \<or> worker_notify (m_resolver s) = Some r \<Longrightarrow>
     reachable (s\<lparr>m_resolver := r\<rparr>, states)"

inductive_cases reachable_stepE: "reachable w"

lemma reachable_config: "reachable w \<Longrightarrow> wf_config (fst w)"
proof (induction rule: reachable.induct)
  case (started E B options resolver fs w E')
  have "wf_config (fst w)" by (rule start_config [OF started(1) wf_config_new started(2)])
  then show ?case by (rule wf_config_same [rotated 4]) (simp_all add: run_start_def)
next
  case (iterated w E r w')
  show ?case using iteration_config [OF iterated.IH] iterated.hyps by blast
next
  case (resolved s states r db)
  from resolved.IH show ?case by (rule wf_config_same [rotated 4]) simp_all
qed

text \<open>
  C35: The daemon never gets into a malformed state: whatever the network, the file system, the clocks, the signals and the
  resolver's thread do, in every state the event loop reaches the uid index names exactly the probers, every enabled destination
  is subscribed to the one prober with its address, interval and timeout, verdicts are consistent, and no prober
  has more than eight probes outstanding - as long as no 32-bit counter wraps.
\<close>

theorem reachable_states_wf:
  assumes "reachable w"
  shows "wf_monitor (fst w) \<and> distinct (map keyOf (m_probers (fst w))) \<and>
    list_all (\<lambda>p. length (pr_inFlight p) \<le> pr_maxInFlight p \<and> pr_maxInFlight p \<le> 8) (m_probers (fst w))"
proof -
  have w: "wf_monitor (fst w)" and "distinct (map keyOf (m_probers (fst w)))"
    using reachable_config [OF assms] by (simp_all add: wf_config_def previous_ok_def)
  moreover have "list_all wf_prober (m_probers (fst w))" using w by (simp add: wf_monitor_def list_all_iff)
  then have "list_all (\<lambda>p. length (pr_inFlight p) \<le> pr_maxInFlight p \<and> pr_maxInFlight p \<le> 8) (m_probers (fst w))"
    by (rule list.pred_mono_strong) (simp add: wf_prober_def)
  ultimately show ?thesis by blast
qed

definition example_boot :: boot where
  "example_boot = \<lparr>b_random = 42, b_dgram4 = SocketFd 3, b_raw4 = SocketErr EPERM, b_dgram6 = SocketErr EAFNOSUPPORT, b_raw6 = SocketErr EPERM,
     b_epoll = (4, EINVAL), b_sigmask = True, b_signalfd = (5, EINVAL), b_inotify = (6, EINVAL)\<rparr>"

definition example_options :: MonitorOptions where
  "example_options = MonitorOptions_default\<lparr>o_runtimeDir := ''/r'', o_idleExitUs := 1000\<rparr>"

definition example_start :: "string option \<times> world" where
  "example_start = Monitor_start reload_env example_boot (Monitor_new example_options (Resolver_new 7), [Map.empty])"

lemma example_mkdir: "fst (makeDirectories (os_mkdir reload_env) ''/r'' n)" "fst (makeDirectories (os_mkdir reload_env) ''/r/clients'' n)"
  by (simp_all add: makeDirectories_def makeDirs_loop.simps os_mkdir_def reload_env_def example_env_def Let_def)

lemma example_started: "fst example_start = None"
proof -
  have o: "o_runtimeDir example_options = ''/r''" by (simp add: example_options_def)
  have "fst (startDirectories reload_env u)" if "m_options u = example_options" for u
    using example_mkdir that by (simp add: startDirectories_def Let_def case_prod_beta clientsDirPath_def o)
  moreover have "fst (startDescriptors reload_env example_boot u) = None" for u
    by (simp add: startDescriptors_def example_boot_def)
  ultimately show ?thesis
    by (simp add: example_start_def Monitor_start_def Let_def case_prod_beta Monitor_new_def)
qed

text \<open>The two files of the directory give one destination each, whatever the directory is called.\<close>

lemma loadClientFile_path:
  "loadClientFile wild n content path ident = map_option (\<lambda>client. client\<lparr>c_path := path\<rparr>) (loadClientFile wild n content path' ident)"
  by (simp add: loadClientFile_def Let_def split: option.splits)

lemma sum_list_insort_key: "sum_list (map f (insort_key g x xs)) = f x + (sum_list (map f xs) :: nat)"
  by (induction xs) simp_all

lemma sum_list_sort_key: "sum_list (map f (sort_key g xs)) = (sum_list (map f xs) :: nat)"
  by (induction xs) (simp_all add: sum_list_insort_key)

lemma reload_count:
  assumes "o_maxDestinations (m_options s) = 128"
  shows "destination_count (m_clients (reloadClients reload_env s)) = 2"
proof -
  have f: "is_client_file ''a.json''" "is_client_file ''b.json''" "\<not> is_client_file ''notes.txt''"
    by (simp_all add: is_client_file_def hasSuffix_def)
  have l: "loadClientFile wild 128 (Some (dump (- 1) False reload_document)) path name = Some ((reload_client name)\<lparr>c_path := path\<rparr>)" for wild path name
    using loadClientFile_path [of wild 128 _ path name "''/clients/'' @ name @ ''.json''"] reload_document_loaded by simp
  obtain loaded s1 where r: "readClients reload_env (s\<lparr>m_configDirty := False\<rparr>) = (loaded, s1)"
    and e: "reloadClients reload_env s =
      (rebuildProbers reload_env (s1\<lparr>m_clients := map (carryOver (m_clients s)) (sort_key c_id loaded)\<rparr>))\<lparr>m_stateDirty := True\<rparr>"
    by (rule reload_parts)
  have "map (\<lambda>client. length (c_destinations client)) loaded = [1, 1]"
    using r f l reload_file_read assms
    by (auto simp: readClients_def reload_env_def Let_def reload_client_def)
  moreover have "destination_count (map (carryOver p) (sort_key c_id cs)) = sum_list (map (\<lambda>client. length (c_destinations client)) cs)" for p cs
    by (simp add: destination_count_def comp_def sum_list_sort_key)
  ultimately show ?thesis unfolding e using rebuildProbers_count by simp
qed

lemma started_reachable: "reachable (run_start reload_env (fst (snd example_start)), snd (snd example_start))"
proof (rule reachable.started)
  show "Monitor_start reload_env example_boot (Monitor_new example_options (Resolver_new 7), [Map.empty]) = (None, snd example_start)"
    using example_started by (metis example_start_def prod.collapse)
  have "\<exists>u. m_clients (fst (snd example_start)) = m_clients (reloadClients reload_env u) \<and> m_options u = example_options"
    using example_started unfolding example_start_def Monitor_start_def Let_def case_prod_beta
    by (auto simp: publish_same startDirectories_def openSockets_def startDescriptors_def Let_def case_prod_beta Monitor_new_def split: if_splits option.splits)
  then obtain u where "m_clients (fst (snd example_start)) = m_clients (reloadClients reload_env u)" "m_options u = example_options" by blast
  then have "destination_count (m_clients (fst (snd example_start))) = 2"
    using reload_count [of u] by (simp add: example_options_def MonitorOptions_default_def)
  then show "uids_left (Monitor_new example_options (Resolver_new 7)) (m_clients (fst (snd example_start)))"
    by (simp add: uids_left_def Monitor_new_def)
qed

theorem reachable_states_wf_witness:
  "wf_monitor (run_start reload_env (fst (snd example_start)))"
  using reachable_states_wf [OF started_reachable] by simp

end
