(* ===== verification/Loop_Properties.thy ===== *)
theory Loop_Properties
  imports Loop_Invariant
begin

text \<open>
  When the event loop wakes up and when it ends: the timeout against the set of all deadlines, a busy loop while a
  window is full, and the exit of an idle daemon.
\<close>

section \<open>Sleeping until the next deadline\<close>

text \<open>Every time at which there is something to do, and never.\<close>

definition prober_deadlines :: "Prober \<Rightarrow> u64 set" where
  "prober_deadlines p = insert (pr_nextSendUs p)
     (f_deadlineUs ` set (pr_inFlight p) \<union> (if \<not> pr_numeric p \<and> \<not> pr_resolving p then {pr_nextResolveUs p} else {}))"

definition deadlines :: "Monitor \<Rightarrow> u64 set" where
  "deadlines s = insert kNeverUs
     (\<Union> (prober_deadlines ` set (m_probers s)) \<union>
      (if m_dataDirty s \<or> m_stateDirty s then {m_lastPublishUs s + publishIntervalUs s} else {}) \<union>
      (if o_clientTimeoutUs (m_options s) \<noteq> 0 \<and> m_clients s \<noteq> [] then {m_lastClientCheckUs s + clientCheckIntervalUs s} else {}) \<union>
      (if o_idleExitUs (m_options s) \<noteq> 0 \<and> m_idleSinceUs s \<noteq> 0 then {m_idleSinceUs s + o_idleExitUs (m_options s)} else {}))"

lemma Min_in_flight:
  assumes "sorted (map f_deadlineUs fs)" and "fs \<noteq> []"
  shows "Min (f_deadlineUs ` set fs) = f_deadlineUs (hd fs)"
proof (rule Min_eqI)
  show "f_deadlineUs (hd fs) \<le> y" if "y \<in> f_deadlineUs ` set fs" for y
    using that assms by (cases fs) auto
qed (use assms(2) in simp_all)

lemma Min_insert_union:
  fixes d :: "'a::linorder"
  assumes "finite A" and "finite B"
  shows "Min (insert (Min (insert d A)) B) = Min (insert d (A \<union> B))"
proof (cases "A = {} \<or> B = {}")
  case True
  then show ?thesis using assms by (cases "A = {}") (simp_all add: Min_insert)
next
  case False
  then show ?thesis using assms by (simp add: Min_insert Min.union min.assoc)
qed

lemma min_Min_insert:
  fixes d y :: "'a::linorder"
  assumes "finite A"
  shows "min (Min (insert d A)) y = Min (insert d (insert y A))"
  using Min_insert_union [OF assms, of "{y}" d] by (simp add: Un_commute min.commute)

lemma proberDeadline_Min:
  assumes "sorted (map f_deadlineUs (pr_inFlight p))"
  shows "proberDeadline p d = Min (insert d (prober_deadlines p))"
proof -
  let ?F = "f_deadlineUs ` set (pr_inFlight p)"
  have "(if pr_inFlight p \<noteq> [] then min d (f_deadlineUs (hd (pr_inFlight p))) else d) = Min (insert d ?F)"
    using Min_in_flight [OF assms] by (auto simp: Min_insert)
  then have "proberDeadline p d = (if \<not> pr_numeric p \<and> \<not> pr_resolving p
      then Min (insert d (insert (pr_nextResolveUs p) (insert (pr_nextSendUs p) ?F))) else Min (insert d (insert (pr_nextSendUs p) ?F)))"
    by (simp add: proberDeadline_def Let_def min_Min_insert del: Min_insert)
  then show ?thesis by (auto simp: prober_deadlines_def insert_commute simp del: Min_insert)
qed

lemma fold_proberDeadline:
  assumes "list_all (\<lambda>p. sorted (map f_deadlineUs (pr_inFlight p))) ps"
  shows "fold proberDeadline ps d = Min (insert d (\<Union> (prober_deadlines ` set ps)))"
  using assms
proof (induction ps arbitrary: d)
  case (Cons p ps)
  have fin: "finite (prober_deadlines q)" for q by (simp add: prober_deadlines_def)
  have "fold proberDeadline (p # ps) d = Min (insert (Min (insert d (prober_deadlines p))) (\<Union> (prober_deadlines ` set ps)))"
    using Cons by (simp add: proberDeadline_Min)
  also have "\<dots> = Min (insert d (prober_deadlines p \<union> \<Union> (prober_deadlines ` set ps)))"
    by (rule Min_insert_union) (simp_all add: fin)
  finally show ?case by simp
qed simp

lemma nextDeadline_Min:
  assumes "list_all (\<lambda>p. sorted (map f_deadlineUs (pr_inFlight p))) (m_probers s)"
  shows "nextDeadline s = Min (deadlines s)"
proof -
  let ?P = "\<Union> (prober_deadlines ` set (m_probers s))"
  have fin: "finite ?P" by (simp add: prober_deadlines_def)
  have one: "(if b then min x y else x) = Min (insert x (if b then {y} else {}))" for b and x y :: u64 by simp
  show ?thesis
    unfolding nextDeadline_def deadlines_def Let_def one fold_proberDeadline [OF assms]
    using fin by (simp only: Min_insert_union finite_Un finite.insertI finite.emptyI if_split simp_thms)
qed

lemma unat_kNeverUs: "unat kNeverUs = 2 ^ 64 - 1"
  by (simp add: kNeverUs_def unsigned_minus_1_eq_mask mask_eq_exp_minus_1)

text \<open>The timeout in milliseconds is the distance to the deadline, rounded up, at most an hour.\<close>

lemma timeoutMs_round_up:
  assumes "now < d" and "unat d < 2 ^ 63"
  shows "timeoutMs now d = int (min ((unat d - unat now + 999) div 1000) 3600000)"
proof -
  have nd: "unat now < unat d" using assms(1) by (simp add: word_less_nat_alt)
  have "unat (d - now) = unat d - unat now" using assms(1) by (simp add: unat_sub)
  then have "unat (d - now + 999) = unat d - unat now + 999"
    using assms(2) by (simp add: unat_word_ariths)
  then have q: "unat ((d - now + 999) div 1000) = (unat d - unat now + 999) div 1000"
    by (simp add: unat_div)
  have "unat (min ((d - now + 999) div 1000) 3600000) = min ((unat d - unat now + 999) div 1000) 3600000"
    unfolding min_def word_le_nat_alt q [symmetric] by simp
  moreover have "d \<noteq> kNeverUs"
  proof
    assume "d = kNeverUs"
    then show False using assms(2) by (simp add: unat_kNeverUs)
  qed
  moreover have "\<not> d \<le> now" using assms(1) by simp
  ultimately show ?thesis unfolding timeoutMs_def uint_nat by simp
qed

text \<open>
  C36: How long the loop sleeps: computing the next deadline from the head of each queue of outstanding probes is the same as taking the
  minimum over every moment at which anything is due (each outstanding probe's expiry, each prober's next probe and next
  resolution, the next publication, client check and idle exit).  The wait is endless exactly when nothing is due ever, zero exactly when something is due
  already, and otherwise it ends at that moment or less than a millisecond after it - or after an hour.
\<close>

theorem sleep_until_deadline:
  assumes "list_all (\<lambda>p. sorted (map f_deadlineUs (pr_inFlight p))) (m_probers s)"
    and "Min (deadlines s) = kNeverUs \<or> unat (Min (deadlines s)) < 2 ^ 63"
  shows "Min (deadlines s) = kNeverUs \<and> timeoutMs now (nextDeadline s) = - 1 \<or>
    Min (deadlines s) \<noteq> kNeverUs \<and> Min (deadlines s) \<le> now \<and> timeoutMs now (nextDeadline s) = 0 \<or>
    now < Min (deadlines s) \<and> timeoutMs now (nextDeadline s) = 3600000 \<and> 3599999000 < unat (Min (deadlines s)) - unat now \<or>
    now < Min (deadlines s) \<and> 0 < timeoutMs now (nextDeadline s) \<and> timeoutMs now (nextDeadline s) < 3600000 \<and>
      unat (Min (deadlines s)) \<le> unat now + 1000 * nat (timeoutMs now (nextDeadline s)) \<and>
      unat now + 1000 * nat (timeoutMs now (nextDeadline s)) < unat (Min (deadlines s)) + 1000"
proof -
  let ?d = "Min (deadlines s)"
  consider "?d = kNeverUs" | "?d \<noteq> kNeverUs" "?d \<le> now" | "?d \<noteq> kNeverUs" "now < ?d" by fastforce
  then show ?thesis
  proof cases
    case 3
    define k where "k = unat ?d - unat now"
    have "0 < k" and d: "unat ?d = unat now + k" using 3(2) by (simp_all add: k_def word_less_nat_alt)
    moreover have t: "timeoutMs now (nextDeadline s) = int (min ((k + 999) div 1000) 3600000)"
      using timeoutMs_round_up [OF 3(2)] 3(1) assms(2) by (simp add: k_def nextDeadline_Min [OF assms(1)])
    ultimately show ?thesis unfolding t using 3(2) by (cases "3599999000 < k") (auto simp: min_def)
  qed (simp_all add: nextDeadline_Min [OF assms(1)] timeoutMs_def)
qed

theorem sleep_until_deadline_witness:
  "timeoutMs 1000 (nextDeadline example_monitor) = 999 \<and> Min (deadlines example_monitor) = 1000000"
proof -
  have d: "deadlines example_monitor = {kNeverUs, 6000000, 8000000, 1000000, 60000000}"
    by (auto simp: deadlines_def prober_deadlines_def example_defs MonitorOptions_default_def publishIntervalUs_def clientCheckIntervalUs_def
      kClientCheckIntervalUs_def)
  have m: "Min (deadlines example_monitor) = 1000000"
    by (simp add: d min_def word_le_nat_alt unat_kNeverUs)
  have "list_all (\<lambda>p. sorted (map f_deadlineUs (pr_inFlight p))) (m_probers example_monitor)" by (simp add: example_defs)
  from sleep_until_deadline [OF this, of 1000] show ?thesis by (auto simp: m kNeverUs_def)
qed

section \<open>A full window\<close>

lemma nextDeadline_le_send:
  assumes "p \<in> set (m_probers s)"
  shows "nextDeadline s \<le> pr_nextSendUs p"
proof -
  have le: "proberDeadline q d \<le> d" "proberDeadline q d \<le> pr_nextSendUs q" for q d
    by (auto simp: proberDeadline_def Let_def min_def)
  have below: "fold proberDeadline ps d \<le> d" for ps d
    by (induction ps arbitrary: d) (auto intro: order_trans [OF _ le(1)])
  have "fold proberDeadline ps d \<le> pr_nextSendUs p" if "p \<in> set ps" for ps d
    using that by (induction ps arbitrary: d) (auto intro: order_trans [OF below le(2)])
  then have "fold proberDeadline (m_probers s) kNeverUs \<le> pr_nextSendUs p" using assms by blast
  then show ?thesis by (auto simp: nextDeadline_def Let_def min_def)
qed

text \<open>A pass over distinct indices acts on each prober once.\<close>

lemma fold_withProber_nth:
  assumes op: "\<And>p s. core (snd (f p s)) = core s" and "distinct is" and "i < length (m_probers s)"
  shows "\<exists>s'. m_probers (fold (\<lambda>i. withProber i f) is s) ! i = (if i \<in> set is then fst (f (m_probers s ! i) s') else m_probers s ! i)"
  using assms(2,3)
proof (induction "is" arbitrary: s)
  case (Cons k ks)
  have P: "m_probers (withProber k f s) = (m_probers s)[k := fst (f (m_probers s ! k) s)]"
    using core_eqD(4) [OF op] by (simp add: withProber_def Let_def case_prod_beta)
  with Cons obtain s' where "m_probers (fold (\<lambda>i. withProber i f) ks (withProber k f s)) ! i =
      (if i \<in> set ks then fst (f (m_probers (withProber k f s) ! i) s') else m_probers (withProber k f s) ! i)"
    by fastforce
  with P Cons.prems show ?case by (cases "i = k") auto
qed simp

lemma tick_nth:
  assumes "i < length (m_probers s)"
  shows "\<exists>s'. m_probers (tick E now s) ! i = fst (tick_prober E now (m_probers s ! i) s')"
  using fold_withProber_nth [of "tick_prober E now" "[0..<length (m_probers s)]" i s] assms by (simp add: tick_def)

lemma tick_prober_full:
  assumes "pr_inFlight p = f # rest" and "pr_maxInFlight p \<le> length (pr_inFlight p)" and "now + kSendSlackUs < f_deadlineUs f"
  shows "pr_inFlight (fst (tick_prober E now p s)) = pr_inFlight p \<and> pr_nextSendUs (fst (tick_prober E now p s)) = pr_nextSendUs p"
proof -
  have "\<not> f_deadlineUs f \<le> now + kSendSlackUs" using assms(3) by simp
  then have "expire_loop E now (pr_inFlight p) p s = (p, s)" using assms(1) by simp
  then show ?thesis using assms(2) by (simp add: tick_prober_def tick_resolve_def tick_send_def)
qed

text \<open>
  C38: While the window of a prober is full, the loop does not sleep: when the next probe is due but the oldest outstanding
  one has not expired, the timeout is zero, and the tick neither sends nor changes the schedule - so the next iteration finds the same.
  The deadline computation ignores the limit on outstanding probes that the tick obeys.
\<close>

theorem full_window_busy:
  assumes "i < length (m_probers s)" and "m_probers s ! i = p" and "pr_inFlight p = f # rest"
    and "pr_maxInFlight p \<le> length (pr_inFlight p)" and "now + kSendSlackUs < f_deadlineUs f"
    and "pr_nextSendUs p \<le> now" and "now < kNeverUs"
  shows "timeoutMs now (nextDeadline s) = 0 \<and>
    pr_inFlight (m_probers (tick E now s) ! i) = pr_inFlight p \<and> pr_nextSendUs (m_probers (tick E now s) ! i) = pr_nextSendUs p"
proof -
  have "nextDeadline s \<le> now"
    using nextDeadline_le_send [of p s] assms(1,2,6) by (auto intro: order_trans)
  then have "timeoutMs now (nextDeadline s) = 0" using assms(7) by (auto simp: timeoutMs_def)
  moreover obtain s' where "m_probers (tick E now s) ! i = fst (tick_prober E now p s')" using tick_nth [OF assms(1)] assms(2) by blast
  ultimately show ?thesis using tick_prober_full [OF assms(3-5)] by simp
qed

definition busy_prober :: Prober where
  "busy_prober = example_prober\<lparr>pr_intervalUs := 250000, pr_nextSendUs := 6000000, pr_maxInFlight := 8,
     pr_inFlight := map (\<lambda>k. \<lparr>f_seq = of_nat k, f_sentUs = 4000000 + 250000 * of_nat k, f_deadlineUs = 7000000 + 250000 * of_nat k\<rparr>) [0..<8]\<rparr>"

theorem full_window_busy_witness:
  "windowFor (pr_timeoutUs busy_prober) (pr_intervalUs busy_prober) = 8 \<and>
   timeoutMs 6100000 (nextDeadline (example_monitor\<lparr>m_probers := [busy_prober]\<rparr>)) = 0 \<and>
   pr_nextSendUs (m_probers (tick example_env 6100000 (example_monitor\<lparr>m_probers := [busy_prober]\<rparr>)) ! 0) = 6000000"
proof -
  have "windowFor (pr_timeoutUs busy_prober) (pr_intervalUs busy_prober) = 8"
    by (simp add: busy_prober_def example_defs windowFor_def kMaxInFlight_def)
  moreover have "pr_inFlight busy_prober = \<lparr>f_seq = 0, f_sentUs = 4000000, f_deadlineUs = 7000000\<rparr> # tl (pr_inFlight busy_prober)"
    "pr_maxInFlight busy_prober \<le> length (pr_inFlight busy_prober)" "pr_nextSendUs busy_prober = 6000000"
    by (simp_all add: busy_prober_def upt_rec)
  ultimately show ?thesis
    using full_window_busy [of 0 "example_monitor\<lparr>m_probers := [busy_prober]\<rparr>" busy_prober
        "\<lparr>f_seq = 0, f_sentUs = 4000000, f_deadlineUs = 7000000\<rparr>" "tl (pr_inFlight busy_prober)" 6100000 example_env]
    by (simp add: kSendSlackUs_def kNeverUs_def)
qed

end
