(* ===== verification/Idle_Exit.thy ===== *)
theory Idle_Exit
  imports Loop_Properties
begin

text \<open>
  The end of an idle daemon (\<^verbatim>\<open>--idle-exit\<close>): a rule for showing that the event loop returns, by a variant of the
  iterations, and its use on a monitor with nothing to probe.
\<close>

section \<open>A rule for the loop\<close>

lemma runLoop_variant:
  fixes v :: "world \<Rightarrow> nat"
  assumes "P w"
    and step: "\<And>u. P u \<Longrightarrow> m_running (fst u) \<Longrightarrow> \<exists>u'. iteration E u = (Continue, u') \<and> P u' \<and> (m_running (fst u') \<longrightarrow> v u' < v u)"
  shows "\<exists>fuel u. P u \<and> \<not> m_running (fst u) \<and>
    runLoop fuel E w = Some (0, publish E (e_monotonic E (m_osCalls (fst u))) True (os_tick (fst u), snd u))"
  using assms(1)
proof (induction "v w" arbitrary: w rule: less_induct)
  case less
  show ?case
  proof (cases "m_running (fst w)")
    case False
    then have "runLoop 1 E w = Some (0, publish E (e_monotonic E (m_osCalls (fst w))) True (os_tick (fst w), snd w))" by simp
    then show ?thesis using less.prems False by blast
  next
    case True
    from step [OF less.prems True] obtain u' where u': "iteration E w = (Continue, u')" "P u'" "m_running (fst u') \<longrightarrow> v u' < v w" by blast
    have "\<exists>fuel u. P u \<and> \<not> m_running (fst u) \<and>
        runLoop fuel E u' = Some (0, publish E (e_monotonic E (m_osCalls (fst u))) True (os_tick (fst u), snd u))"
    proof (cases "m_running (fst u')")
      case True
      then show ?thesis using less.hyps u' by blast
    next
      case False
      then have "runLoop 1 E u' = Some (0, publish E (e_monotonic E (m_osCalls (fst u'))) True (os_tick (fst u'), snd u'))" by simp
      then show ?thesis using u'(2) False by blast
    qed
    then obtain fuel u where "P u" "\<not> m_running (fst u)"
      "runLoop fuel E u' = Some (0, publish E (e_monotonic E (m_osCalls (fst u))) True (os_tick (fst u), snd u))" by blast
    moreover from this(3) have "runLoop (Suc fuel) E w = Some (0, publish E (e_monotonic E (m_osCalls (fst u))) True (os_tick (fst u), snd u))"
      using u'(1) True by simp
    ultimately show ?thesis by blast
  qed
qed

section \<open>One iteration of an idle monitor\<close>

definition dirty :: "Monitor \<Rightarrow> bool" where
  "dirty s \<longleftrightarrow> m_dataDirty s \<or> m_stateDirty s"

text \<open>What stays as it is while nothing happens.\<close>

definition idle_frame :: "Monitor \<Rightarrow> Client list \<times> Prober list \<times> MonitorOptions \<times> bool \<times> u64 \<times> u64" where
  "idle_frame s = (m_clients s, m_probers s, m_options s, m_configDirty s, m_idleSinceUs s, m_minIntervalUs s)"

lemma idle_frame_os_tick [simp]: "idle_frame (os_tick s) = idle_frame s"
  by (simp add: idle_frame_def)

lemma publishReadable_idle:
  "idle_frame (fst (publishReadable E now (s, states))) = idle_frame s \<and> m_running (fst (publishReadable E now (s, states))) = m_running s \<and>
   m_osCalls s \<le> m_osCalls (fst (publishReadable E now (s, states)))"
  by (simp add: publishReadable_def Let_def case_prod_beta writeState_same idle_frame_def)

lemma publish_idle:
  defines "t \<equiv> \<lambda>E now force s states. fst (publish E now force (s, states))"
  shows "idle_frame (t E now force s states) = idle_frame s" "m_running (t E now force s states) = m_running s"
    "m_osCalls s \<le> m_osCalls (t E now force s states)"
    "publishDue now force s \<Longrightarrow> \<not> dirty (t E now force s states)" "\<not> publishDue now force s \<Longrightarrow> t E now force s states = s"
proof -
  define s1 where "s1 = s\<lparr>m_generation := m_generation s + 1\<rparr>"
  obtain x where w: "writeState E (stateIniPath s1) (stateIni (m_generation s1) (buildStateJson E now False s1)) (os_tick s1, states) =
      (os_tick (os_tick s1), x)"
    using writeState_same [of E "stateIniPath s1" _ "os_tick s1" states] by (metis prod.collapse)
  obtain s2 y where r: "publishReadable E now (os_tick (os_tick s1), x) = (s2, y)" by force
  have due: "publish E now force (s, states) = (s2\<lparr>m_lastPublishUs := now, m_dataDirty := False, m_stateDirty := False\<rparr>, y)"
    if "publishDue now force s"
    using that w r by (simp add: publish_def s1_def [symmetric])
  have f: "idle_frame s2 = idle_frame s" "m_running s2 = m_running s" "m_osCalls s \<le> m_osCalls s2"
    using publishReadable_idle [of E now "os_tick (os_tick s1)" x] unfolding r by (simp_all add: s1_def idle_frame_def)
  show "publishDue now force s \<Longrightarrow> \<not> dirty (t E now force s states)" using due by (simp add: t_def dirty_def)
  show skip: "\<not> publishDue now force s \<Longrightarrow> t E now force s states = s" by (simp add: t_def publish_def)
  show "idle_frame (t E now force s states) = idle_frame s" "m_running (t E now force s states) = m_running s"
    "m_osCalls s \<le> m_osCalls (t E now force s states)"
    using f due skip by (cases "publishDue now force s"; simp add: t_def idle_frame_def)+
qed

text \<open>A monitor with nothing to do.\<close>

definition idle :: "Monitor \<Rightarrow> bool" where
  "idle s \<longleftrightarrow> m_probers s = [] \<and> m_clients s = [] \<and> \<not> m_configDirty s"

lemma idle_frame_idle: "idle_frame t = idle_frame s \<Longrightarrow> idle t = idle s"
  by (simp add: idle_frame_def idle_def)

lemma dropExpired_idle:
  assumes "m_clients s = []"
  shows "idle_frame (fst (dropExpiredClients E after (s, fs))) = idle_frame s \<and>
    m_running (fst (dropExpiredClients E after (s, fs))) = m_running s \<and> m_osCalls s \<le> m_osCalls (fst (dropExpiredClients E after (s, fs))) \<and>
    m_dataDirty (fst (dropExpiredClients E after (s, fs))) = m_dataDirty s \<and> m_stateDirty (fst (dropExpiredClients E after (s, fs))) = m_stateDirty s \<and>
    m_lastPublishUs (fst (dropExpiredClients E after (s, fs))) = m_lastPublishUs s"
  using assms by (simp add: dropExpiredClients_def Let_def idle_frame_def)

text \<open>The idle deadline has come.\<close>

definition idle_over :: "u64 \<Rightarrow> Monitor \<Rightarrow> bool" where
  "idle_over after s \<longleftrightarrow> o_idleExitUs (m_options s) \<noteq> 0 \<and> o_idleExitUs (m_options s) \<le> after - m_idleSinceUs s"

lemma idle_iteration:
  assumes "idle s" and "m_running s" and "m_idleSinceUs s \<noteq> 0" and epoll: "\<And>n t. e_epoll E n t = EpollReady []"
  shows "\<exists>t states'. iteration E (s, states) = (Continue, (t, states')) \<and> idle_frame t = idle_frame s \<and> m_osCalls s + 5 \<le> m_osCalls t \<and>
    (m_running t \<longleftrightarrow> \<not> idle_over (e_monotonic E (m_osCalls s + 2)) s) \<and>
    (dirty t \<longrightarrow> dirty s \<and> m_lastPublishUs t = m_lastPublishUs s \<and>
       (\<exists>k \<ge> m_osCalls s + 2. \<not> publishDue (e_monotonic E k) False s))"
proof -
  define after where "after = e_monotonic E (m_osCalls s + 2)"
  define s3 where "s3 = os_tick (os_tick (os_tick s))"
  have s3: "idle_frame s3 = idle_frame s" "m_running s3" "m_osCalls s3 = m_osCalls s + 3" "m_dataDirty s3 = m_dataDirty s"
    "m_stateDirty s3 = m_stateDirty s" "m_lastPublishUs s3 = m_lastPublishUs s"
    using assms(2) by (simp_all add: s3_def)
  have "m_probers s3 = []" "\<not> m_configDirty s3" "m_clients s3 = []" using assms(1) by (simp_all add: idle_def s3_def)
  then have serve: "serviceClients E after False s3 = os_tick s3" by (simp add: serviceClients_def tick_def)
  obtain s4 fs where d: "dropExpiredClients E after (os_tick s3, last states) = (s4, fs)" by force
  have s4: "idle_frame s4 = idle_frame s" "m_running s4" "m_osCalls s + 4 \<le> m_osCalls s4" "m_dataDirty s4 = m_dataDirty s"
    "m_stateDirty s4 = m_stateDirty s" "m_lastPublishUs s4 = m_lastPublishUs s"
    using dropExpired_idle [of "os_tick s3" E after "last states"] d s3 \<open>m_clients s3 = []\<close> by simp_all
  define s5 where "s5 = os_tick (checkIdle after s4)"
  have "checkIdle after s4 = s4\<lparr>m_running := \<not> idle_over after s\<rparr>"
    using s4(1,2) assms(1,3) by (simp add: checkIdle_def idle_over_def idle_def idle_frame_def Let_def)
  then have s5: "idle_frame s5 = idle_frame s" "m_running s5 = (\<not> idle_over after s)" "m_osCalls s + 5 \<le> m_osCalls s5"
    "m_dataDirty s5 = m_dataDirty s" "m_stateDirty s5 = m_stateDirty s" "m_lastPublishUs s5 = m_lastPublishUs s"
    using s4 by (simp_all add: s5_def idle_frame_def)
  define now' where "now' = e_monotonic E (m_osCalls (checkIdle after s4))"
  have k: "m_osCalls s + 2 \<le> m_osCalls (checkIdle after s4)"
    using s4(3) by (simp add: \<open>checkIdle after s4 = s4\<lparr>m_running := \<not> idle_over after s\<rparr>\<close>)
  have due: "publishDue now' False s5 = publishDue now' False s"
    using s5 by (simp add: publishDue_def publishIntervalUs_def idle_frame_def)
  obtain t states' where p: "publish E now' False (s5, states @ [fs]) = (t, states')" by force
  note T = publish_idle [where E = E and now = now' and force = False and s = s5 and states = "states @ [fs]", unfolded p fst_conv]
  have "iteration E (s, states) = (Continue, (t, states'))"
    using serve d p s3(2) unfolding s3_def by (simp add: iteration_def epoll iteration_work_def after_def s5_def now'_def)
  moreover have "dirty t \<longrightarrow> dirty s \<and> m_lastPublishUs t = m_lastPublishUs s \<and> \<not> publishDue now' False s"
    using T(4,5) due s5 by (auto simp: dirty_def)
  ultimately show ?thesis using T s5 k unfolding after_def [symmetric] now'_def by (metis (no_types, lifting) le_trans)
qed

section \<open>The idle exit\<close>

text \<open>
  What \<^verbatim>\<open>epoll_wait\<close> promises when no descriptor becomes ready: the timeout has passed when it returns.  The clock is
  read by the call before it and by the call after it.
\<close>

definition wait_honoured :: "env \<Rightarrow> Monitor \<Rightarrow> bool" where
  "wait_honoured E s \<longleftrightarrow>
     unat (e_monotonic E (m_osCalls s)) + 1000 * nat (timeoutMs (e_monotonic E (m_osCalls s)) (nextDeadline s)) \<le> unat (e_monotonic E (m_osCalls s + 2))"

text \<open>The world after a number of iterations.\<close>

definition after_iterations :: "env \<Rightarrow> nat \<Rightarrow> world \<Rightarrow> world" where
  "after_iterations E k w = ((\<lambda>u. snd (iteration E u)) ^^ k) w"

lemma after_iterations_Suc: "iteration E w = (r, w') \<Longrightarrow> after_iterations E (Suc k) w = after_iterations E k w'"
  by (simp add: after_iterations_def funpow_swap1 del: funpow.simps) (simp add: funpow_Suc_right del: funpow.simps)

text \<open>The next publication has no overflow in its deadline.\<close>

definition publish_in_range :: "Monitor \<Rightarrow> bool" where
  "publish_in_range s \<longleftrightarrow> unat (m_lastPublishUs s) + unat (publishIntervalUs s) < 2 ^ 64"

lemma late_publish_due:
  assumes "dirty s" and "publish_in_range s" and "m_lastPublishUs s + publishIntervalUs s \<le> now" and "now \<le> later"
  shows "publishDue later False s"
proof -
  have "unat (m_lastPublishUs s + publishIntervalUs s) = unat (m_lastPublishUs s) + unat (publishIntervalUs s)"
    using assms(2) by (simp add: publish_in_range_def unat_word_ariths)
  then have le: "unat (m_lastPublishUs s) + unat (publishIntervalUs s) \<le> unat later"
    using assms(3,4) by (simp add: word_le_nat_alt)
  then have "unat (later - m_lastPublishUs s) = unat later - unat (m_lastPublishUs s)" by (simp add: unat_sub word_le_nat_alt)
  then have "publishIntervalUs s \<le> later - m_lastPublishUs s" using le by (simp add: word_le_nat_alt)
  then show ?thesis using assms(1) by (auto simp: publishDue_def dirty_def)
qed

text \<open>An idle iteration that does not end the loop makes progress: the clock moves, or what was to be published is.\<close>

lemma idle_progress:
  assumes "idle s" and since: "m_idleSinceUs s \<noteq> 0" and exit: "o_idleExitUs (m_options s) \<noteq> 0"
    and range: "unat (m_idleSinceUs s) + unat (o_idleExitUs (m_options s)) < 2 ^ 63" and "dirty s \<longrightarrow> publish_in_range s"
    and clock: "mono (\<lambda>n. unat (e_monotonic E n))" and past: "m_idleSinceUs s \<le> e_monotonic E (m_osCalls s)"
    and honest: "wait_honoured E s" and not_over: "\<not> idle_over (e_monotonic E (m_osCalls s + 2)) s"
  shows "unat (e_monotonic E (m_osCalls s + 2)) < unat (m_idleSinceUs s) + unat (o_idleExitUs (m_options s)) \<and>
    (e_monotonic E (m_osCalls s) < e_monotonic E (m_osCalls s + 2) \<or> dirty s \<and> (\<forall>k \<ge> m_osCalls s + 2. publishDue (e_monotonic E k) False s))"
proof -
  let ?now = "e_monotonic E (m_osCalls s)" and ?after = "e_monotonic E (m_osCalls s + 2)"
  let ?limit = "m_idleSinceUs s + o_idleExitUs (m_options s)"
  have later: "?now \<le> e_monotonic E k" if "m_osCalls s \<le> k" for k using monoD [OF clock that] by (simp add: word_le_nat_alt)
  have since_after: "m_idleSinceUs s \<le> ?after" using past later [of "m_osCalls s + 2"] by simp
  have e: "unat ?limit = unat (m_idleSinceUs s) + unat (o_idleExitUs (m_options s))" using range by (simp add: unat_word_ariths)
  have "unat (?after - m_idleSinceUs s) < unat (o_idleExitUs (m_options s))"
    using not_over exit by (auto simp: idle_over_def word_le_nat_alt not_le)
  then have before: "unat ?after < unat (m_idleSinceUs s) + unat (o_idleExitUs (m_options s))"
    using since_after by (simp add: unat_sub word_le_nat_alt)
  have d: "nextDeadline s = (if dirty s then min (min kNeverUs (m_lastPublishUs s + publishIntervalUs s)) ?limit else min kNeverUs ?limit)"
    using assms(1) since exit by (simp add: nextDeadline_def idle_def dirty_def Let_def)
  have "?now < ?after \<or> dirty s \<and> m_lastPublishUs s + publishIntervalUs s \<le> ?now"
  proof (cases "nextDeadline s \<le> ?now")
    case True
    have "?now < ?limit" "?now < kNeverUs"
      using before e later [of "m_osCalls s + 2"] range by (simp_all add: word_le_nat_alt word_less_nat_alt unat_kNeverUs)
    then show ?thesis using True d by (auto simp: min_def split: if_splits)
  next
    case False
    have "nextDeadline s \<le> ?limit" unfolding d by (auto simp: min_def)
    then have "unat (nextDeadline s) < 2 ^ 63" using e range by (simp add: word_le_nat_alt)
    moreover have now: "?now < nextDeadline s" using False by simp
    ultimately have "timeoutMs ?now (nextDeadline s) = int (min ((unat (nextDeadline s) - unat ?now + 999) div 1000) 3600000)"
      by (intro timeoutMs_round_up)
    moreover have "1 \<le> (unat (nextDeadline s) - unat ?now + 999) div 1000" using now by (simp add: word_less_nat_alt)
    ultimately have "1 \<le> nat (timeoutMs ?now (nextDeadline s))" by linarith
    then have "unat ?now < unat ?after" using honest unfolding wait_honoured_def by linarith
    then show ?thesis by (simp add: word_less_nat_alt)
  qed
  then show ?thesis using before later late_publish_due assms(5) by fastforce
qed

text \<open>What the idle loop keeps, for the clock value at which it is to end.\<close>

definition idle_run :: "env \<Rightarrow> Monitor \<Rightarrow> world \<Rightarrow> bool" where
  "idle_run E s0 w \<longleftrightarrow> idle (fst w) \<and> idle_frame (fst w) = idle_frame s0 \<and> m_osCalls s0 \<le> m_osCalls (fst w) \<and>
     (dirty (fst w) \<longrightarrow> publish_in_range (fst w)) \<and>
     (\<forall>k. m_running (fst (after_iterations E k w)) \<longrightarrow> wait_honoured E (fst (after_iterations E k w))) \<and>
     (m_running (fst w) \<or> unat (m_idleSinceUs s0) + unat (o_idleExitUs (m_options s0)) \<le> unat (e_monotonic E (m_osCalls (fst w))))"

definition idle_variant :: "env \<Rightarrow> Monitor \<Rightarrow> world \<Rightarrow> nat" where
  "idle_variant E s0 w =
     2 * (unat (m_idleSinceUs s0) + unat (o_idleExitUs (m_options s0)) - unat (e_monotonic E (m_osCalls (fst w)))) + (if dirty (fst w) then 1 else 0)"

lemma idle_step:
  assumes since: "m_idleSinceUs s0 \<noteq> 0" "m_idleSinceUs s0 \<le> e_monotonic E (m_osCalls s0)" and exit: "o_idleExitUs (m_options s0) \<noteq> 0"
    and range: "unat (m_idleSinceUs s0) + unat (o_idleExitUs (m_options s0)) < 2 ^ 63"
    and clock: "mono (\<lambda>n. unat (e_monotonic E n))" and epoll: "\<And>n t. e_epoll E n t = EpollReady []"
    and run: "idle_run E s0 w" and "m_running (fst w)"
  shows "\<exists>w'. iteration E w = (Continue, w') \<and> idle_run E s0 w' \<and> (m_running (fst w') \<longrightarrow> idle_variant E s0 w' < idle_variant E s0 w)"
proof -
  obtain s states where w: "w = (s, states)" by (cases w)
  let ?T = "unat (m_idleSinceUs s0) + unat (o_idleExitUs (m_options s0))" and ?after = "e_monotonic E (m_osCalls s + 2)"
  have s: "idle s" "idle_frame s = idle_frame s0" "m_osCalls s0 \<le> m_osCalls s" "dirty s \<longrightarrow> publish_in_range s" "m_running s"
    using run assms(8) by (simp_all add: idle_run_def w)
  then have eq: "m_idleSinceUs s = m_idleSinceUs s0" "m_options s = m_options s0" by (simp_all add: idle_frame_def)
  from idle_iteration [OF s(1,5) _ epoll] since(1) eq obtain t states' where it: "iteration E (s, states) = (Continue, (t, states'))"
    and t: "idle_frame t = idle_frame s" "m_osCalls s + 5 \<le> m_osCalls t" "m_running t \<longleftrightarrow> \<not> idle_over ?after s"
      "dirty t \<longrightarrow> dirty s \<and> m_lastPublishUs t = m_lastPublishUs s \<and> (\<exists>k \<ge> m_osCalls s + 2. \<not> publishDue (e_monotonic E k) False s)"
    by metis
  have mono: "unat (e_monotonic E i) \<le> unat (e_monotonic E j)" if "i \<le> j" for i j using monoD [OF clock that] .
  have past: "m_idleSinceUs s \<le> e_monotonic E (m_osCalls s)" "m_idleSinceUs s \<le> ?after"
    using since(2) mono [OF s(3)] mono [of "m_osCalls s" "m_osCalls s + 2"] by (simp_all add: eq word_le_nat_alt)
  have "publish_in_range t" if "dirty t"
    using that t(1,4) s(4) by (simp add: publish_in_range_def publishIntervalUs_def idle_frame_def)
  moreover have "m_running t \<or> ?T \<le> unat (e_monotonic E (m_osCalls t))"
  proof (cases "m_running t")
    case False
    then have "unat (o_idleExitUs (m_options s)) \<le> unat (?after - m_idleSinceUs s)" using t(3) by (simp add: idle_over_def word_le_nat_alt)
    then have "?T \<le> unat ?after" using past(2) eq by (simp add: unat_sub word_le_nat_alt)
    then show ?thesis using mono [of "m_osCalls s + 2" "m_osCalls t"] t(2) by simp
  qed simp
  moreover have "wait_honoured E (fst (after_iterations E k (t, states')))" if "m_running (fst (after_iterations E k (t, states')))" for k
    using run that after_iterations_Suc [OF it, of k] unfolding idle_run_def w by metis
  ultimately have "idle_run E s0 (t, states')"
    using s t(1,2) idle_frame_idle [OF t(1)] by (simp add: idle_run_def)
  moreover have "idle_variant E s0 (t, states') < idle_variant E s0 w" if "m_running t"
  proof -
    have "wait_honoured E s"
      using run s(5) unfolding idle_run_def w after_iterations_def by (metis fst_conv funpow_0)
    then have p: "unat ?after < ?T" "e_monotonic E (m_osCalls s) < ?after \<or> dirty s \<and> \<not> dirty t"
      using idle_progress [OF s(1) _ _ _ s(4) clock past(1)] since exit range that t(3,4) unfolding eq by blast+
    from p(2) show ?thesis
    proof
      assume "e_monotonic E (m_osCalls s) < ?after"
      then have "?T - unat (e_monotonic E (m_osCalls t)) < ?T - unat (e_monotonic E (m_osCalls s))"
        using p(1) mono [of "m_osCalls s + 2" "m_osCalls t"] t(2) unfolding word_less_nat_alt by linarith
      then show ?thesis by (auto simp: idle_variant_def w)
    next
      assume "dirty s \<and> \<not> dirty t"
      then show ?thesis using mono [of "m_osCalls s" "m_osCalls t"] t(2) by (simp add: idle_variant_def w)
    qed
  qed
  ultimately show ?thesis using it w by auto
qed

text \<open>
  C37: The idle exit is reached: with an idle limit set, nothing to monitor and no event, on a clock that never runs backwards and
  with waits that last as long as asked for, the loop ends after finitely many iterations with status zero - and not
  before the daemon has been idle for the whole limit.
\<close>

theorem idle_daemon_exits:
  assumes "idle s" and "o_idleExitUs (m_options s) \<noteq> 0" and "e_monotonic E (m_osCalls s) \<noteq> 0"
    and "unat (e_monotonic E (m_osCalls s)) + unat (o_idleExitUs (m_options s)) < 2 ^ 63" and "publish_in_range s"
    and "mono (\<lambda>n. unat (e_monotonic E n))" and epoll: "\<And>n t. e_epoll E n t = EpollReady []"
    and honest: "\<And>k. m_running (fst (after_iterations E k (run_start E s, states))) \<Longrightarrow>
      wait_honoured E (fst (after_iterations E k (run_start E s, states)))"
  shows "\<exists>fuel w. Monitor_run fuel E (s, states) = Some (0, w) \<and>
    unat (e_monotonic E (m_osCalls s)) + unat (o_idleExitUs (m_options s)) \<le> unat (e_monotonic E (m_osCalls (fst w)))"
proof -
  let ?s0 = "run_start E s"
  have s0: "m_options ?s0 = m_options s" "m_idleSinceUs ?s0 = e_monotonic E (m_osCalls s)" "m_running ?s0" "m_osCalls ?s0 = Suc (m_osCalls s)"
    "idle ?s0" "publish_in_range ?s0"
    using assms(1,5) by (simp_all add: run_start_def idle_def publish_in_range_def publishIntervalUs_def)
  have past: "m_idleSinceUs ?s0 \<le> e_monotonic E (m_osCalls ?s0)"
    using monoD [OF assms(6), of "m_osCalls s" "Suc (m_osCalls s)"] by (simp add: s0 word_le_nat_alt)
  have start: "idle_run E ?s0 (?s0, states)" using s0 honest by (simp add: idle_run_def)
  have "\<exists>fuel u. idle_run E ?s0 u \<and> \<not> m_running (fst u) \<and>
      runLoop fuel E (?s0, states) = Some (0, publish E (e_monotonic E (m_osCalls (fst u))) True (os_tick (fst u), snd u))"
    by (rule runLoop_variant [where v = "idle_variant E ?s0"], rule start, rule idle_step)
      (use assms(2-4,6) epoll past s0 in auto)
  then obtain fuel u where u: "idle_run E ?s0 u" "\<not> m_running (fst u)"
    "runLoop fuel E (?s0, states) = Some (0, publish E (e_monotonic E (m_osCalls (fst u))) True (os_tick (fst u), snd u))" by blast
  let ?w = "publish E (e_monotonic E (m_osCalls (fst u))) True (os_tick (fst u), snd u)"
  have "unat (e_monotonic E (m_osCalls (fst u))) \<le> unat (e_monotonic E (m_osCalls (fst ?w)))"
    using publish_idle(3) [of "os_tick (fst u)" E _ True "snd u"] by (intro monoD [OF assms(6)]) (metis Suc_leD os_tick_frame(27))
  moreover have "unat (e_monotonic E (m_osCalls s)) + unat (o_idleExitUs (m_options s)) \<le> unat (e_monotonic E (m_osCalls (fst u)))"
    using u(1,2) by (simp add: idle_run_def s0)
  ultimately have "Monitor_run fuel E (s, states) = Some (0, ?w) \<and>
      unat (e_monotonic E (m_osCalls s)) + unat (o_idleExitUs (m_options s)) \<le> unat (e_monotonic E (m_osCalls (fst ?w)))"
    using u(3) by (simp add: Monitor_run_def)
  then show ?thesis by blast
qed

text \<open>A clock that moves on by more than an hour with every call, for a hundred calls.\<close>

definition idle_env :: env where
  "idle_env = example_env\<lparr>e_monotonic := (\<lambda>n. of_nat (1 + 4000000000 * min n 100)), e_epoll := (\<lambda>n t. EpollReady [])\<rparr>"

definition idle_monitor :: Monitor where
  "idle_monitor = Monitor_new example_options (Resolver_new 7)"

lemma idle_clock: "unat (e_monotonic idle_env n) = 1 + 4000000000 * min n 100"
proof -
  have "1 + 4000000000 * min n 100 < (2 :: nat) ^ LENGTH(64)" by (simp add: min_def)
  then have "unat (of_nat (1 + 4000000000 * min n 100) :: u64) = 1 + 4000000000 * min n 100"
    by (intro of_nat_inverse [OF refl])
  then show ?thesis by (simp add: idle_env_def)
qed

lemma timeoutMs_cap: "nat (timeoutMs now d) \<le> 3600000"
proof -
  have "unat (min x 3600000) \<le> 3600000" for x :: u64
    by (simp add: min_def word_le_nat_alt)
  then show ?thesis unfolding timeoutMs_def uint_nat by simp
qed

lemma idle_waits:
  assumes "m_running (fst (after_iterations idle_env k (run_start idle_env idle_monitor, states)))"
  shows "wait_honoured idle_env (fst (after_iterations idle_env k (run_start idle_env idle_monitor, states)))"
proof -
  let ?s = "run_start idle_env idle_monitor"
  have ep: "e_epoll idle_env n t = EpollReady []" for n t by (simp add: idle_env_def)
  have s: "idle ?s" "m_running ?s" "m_idleSinceUs ?s = 1" "m_osCalls ?s = 1" "o_idleExitUs (m_options ?s) = 1000"
    by (simp_all add: run_start_def idle_monitor_def idle_def Monitor_new_def idle_env_def example_options_def)
  have "o_idleExitUs (m_options ?s) \<le> e_monotonic idle_env (m_osCalls ?s + 2) - m_idleSinceUs ?s"
    unfolding s by (simp add: idle_env_def)
  then have over: "idle_over (e_monotonic idle_env (m_osCalls ?s + 2)) ?s" using s by (simp add: idle_over_def)
  obtain t states' where it: "iteration idle_env (?s, states) = (Continue, (t, states'))" "\<not> m_running t"
    using idle_iteration [OF s(1,2) _ ep, of states] s(3) over by auto
  have stopped: "\<not> m_running (fst (snd (iteration idle_env w)))" if "\<not> m_running (fst w)" for w
    using that by (cases w) (simp add: iteration_def ep)
  have "\<not> m_running (fst (after_iterations idle_env j (t, states')))" for j
    by (induction j) (use it(2) stopped in \<open>simp_all add: after_iterations_def\<close>)
  then have "k = 0" using assms after_iterations_Suc [OF it(1)] by (cases k) auto
  moreover have "wait_honoured idle_env ?s"
    using timeoutMs_cap [of "e_monotonic idle_env 1" "nextDeadline ?s"] unfolding wait_honoured_def s idle_clock by simp
  ultimately show ?thesis by (simp add: after_iterations_def)
qed

theorem idle_daemon_exits_witness:
  "\<exists>fuel w. Monitor_run fuel idle_env (idle_monitor, [Map.empty]) = Some (0, w) \<and> 1001 \<le> unat (e_monotonic idle_env (m_osCalls (fst w)))"
proof -
  have "idle idle_monitor" "publish_in_range idle_monitor" "m_osCalls idle_monitor = 0" "o_idleExitUs (m_options idle_monitor) = 1000"
    by (simp_all add: idle_monitor_def idle_def Monitor_new_def example_options_def publish_in_range_def publishIntervalUs_def
      MonitorOptions_default_def)
  moreover have "mono (\<lambda>n. unat (e_monotonic idle_env n))" by (auto simp: idle_clock mono_def min_def)
  moreover have "e_monotonic idle_env 0 = 1" "\<And>n t. e_epoll idle_env n t = EpollReady []" by (simp_all add: idle_env_def)
  ultimately show ?thesis
    using idle_daemon_exits [of idle_monitor idle_env "[Map.empty]"] idle_waits by simp
qed

end
