(* ===== verification/Daemon.thy ===== *)
theory Daemon
  imports Event_Loop
begin

text \<open>
  The program around the monitor (\<^verbatim>\<open>main.cpp\<close>): the command line, the lock that keeps the daemon single, going into the
  background, and \<^verbatim>\<open>main\<close>.  What the program asks the operating system before the monitor exists is answered by a
  record of its own; what it leaves behind is a record of the process and the states of the file system.
\<close>

section \<open>The command line\<close>

text \<open>\<^verbatim>\<open>strtoull\<close> in base ten: leading blanks, an optional sign, digits; too large a number saturates, a sign negates.\<close>

definition strtoull :: "string \<Rightarrow> u64" where
  "strtoull s =
     (let body = dropWhile isspace s;
          negative = (body \<noteq> [] \<and> hd body = CHR ''-'');
          digits = takeWhile is_digit (if body \<noteq> [] \<and> (hd body = CHR ''-'' \<or> hd body = CHR ''+'') then tl body else body)
      in if read_digits digits \<ge> 2 ^ 64 then - 1
         else if negative then - of_nat (read_digits digits) else of_nat (read_digits digits))"

definition parseLogLevel :: "string \<Rightarrow> LogLevel option" where
  "parseLogLevel name =
     (if name = ''error'' then Some LogError
      else if name = ''warn'' \<or> name = ''warning'' then Some LogWarn
      else if name = ''info'' then Some LogInfo
      else if name = ''debug'' then Some LogDebug
      else None)"

definition newline :: string where
  "newline = [CHR 0x0A]"

definition printUsage :: "string \<Rightarrow> string \<Rightarrow> string" where
  "printUsage version argv0 = concat (map (\<lambda>line. line @ newline)
     [''plasma-network-healthd '' @ version @ '' - ICMP monitoring backend for the Network Health plasmoid'',
      '''',
      ''Usage: '' @ argv0 @ '' [options]'',
      '''',
      ''Options:'',
      ''  -d, --daemon              detach and run in the background'',
      ''      --runtime-dir DIR     base directory for config and state'',
      ''                            (default: $XDG_RUNTIME_DIR/plasma-network-health)'',
      ''      --idle-exit SECONDS   quit after being idle this long (0 = never, default 0)'',
      ''      --client-timeout SEC  forget widgets that stop refreshing their config'',
      ''                            (0 = never, default 900)'',
      ''      --publish-interval MS minimum delay between state file writes (default 250)'',
      ''      --log-file PATH       append diagnostics to PATH instead of stderr'',
      ''      --log-level LEVEL     error | warn | info | debug (default info)'',
      ''      --max-destinations N  per-widget destination cap (default 128)'',
      ''  -v, --version             print the version and exit'',
      ''  -h, --help                print this help and exit'',
      '''',
      ''The daemon is single-instance per user: starting it again is a no-op.''])"

text \<open>The variables of \<^verbatim>\<open>main\<close> that the options set, and the log level.\<close>

record settings =
  set_options :: MonitorOptions
  set_background :: bool
  set_logFile :: string
  set_level :: LogLevel

datatype parsed = Run settings | Quit int string

definition seconds :: "string \<Rightarrow> u64" where
  "seconds v = strtoull v * 1000000"

definition milliseconds :: "string \<Rightarrow> u64" where
  "milliseconds v = strtoull v * 1000"

text \<open>The options that take a value, each with what it does to the settings, or the message about the value.\<close>

definition changeOptions :: "(MonitorOptions \<Rightarrow> MonitorOptions) \<Rightarrow> settings \<Rightarrow> string + settings" where
  "changeOptions f st = Inr (st\<lparr>set_options := f (set_options st)\<rparr>)"

definition valueOption :: "string \<Rightarrow> (string \<Rightarrow> settings \<Rightarrow> string + settings) option" where
  "valueOption argument =
     (if argument = ''--runtime-dir'' then Some (\<lambda>v. changeOptions (o_runtimeDir_update (\<lambda>_. v)))
      else if argument = ''--idle-exit'' then Some (\<lambda>v. changeOptions (o_idleExitUs_update (\<lambda>_. seconds v)))
      else if argument = ''--client-timeout'' then Some (\<lambda>v. changeOptions (o_clientTimeoutUs_update (\<lambda>_. seconds v)))
      else if argument = ''--publish-interval'' then Some (\<lambda>v. changeOptions (o_publishIntervalUs_update (\<lambda>_. milliseconds v)))
      else if argument = ''--max-destinations'' then Some (\<lambda>v. changeOptions (o_maxDestinations_update (\<lambda>_. unat (strtoull v))))
      else if argument = ''--log-file'' then Some (\<lambda>v st. Inr (st\<lparr>set_logFile := v\<rparr>))
      else if argument = ''--log-level'' then
        Some (\<lambda>v st. case parseLogLevel v of
                        None \<Rightarrow> Inl (''unknown log level '' @ [CHR 0x27] @ v @ [CHR 0x27] @ newline)
                      | Some level \<Rightarrow> Inr (st\<lparr>set_level := level\<rparr>))
      else None)"

text \<open>The loop over the arguments after the program's name; \<open>Quit\<close> is a return with a status and what was printed.\<close>

fun parse_args :: "string \<Rightarrow> string \<Rightarrow> string list \<Rightarrow> settings \<Rightarrow> parsed" where
  "parse_args version argv0 [] st = Run st"
| "parse_args version argv0 (argument # rest) st =
     (if argument = ''-h'' \<or> argument = ''--help'' then Quit 0 (printUsage version argv0)
      else if argument = ''-v'' \<or> argument = ''--version'' then Quit 0 (version @ newline)
      else if argument = ''-d'' \<or> argument = ''--daemon'' then parse_args version argv0 rest (st\<lparr>set_background := True\<rparr>)
      else (case valueOption argument of
              None \<Rightarrow> Quit 2 (''unknown option '' @ [CHR 0x27] @ argument @ [CHR 0x27] @ '' (try --help)'' @ newline)
            | Some change \<Rightarrow>
                (case rest of
                   [] \<Rightarrow> Quit 2 (argument @ '' requires an argument'' @ newline)
                 | v # rest' \<Rightarrow>
                     (case change v st of
                        Inl message \<Rightarrow> Quit 2 message
                      | Inr st' \<Rightarrow> parse_args version argv0 rest' st'))))"

definition limitOptions :: "MonitorOptions \<Rightarrow> MonitorOptions" where
  "limitOptions o1 =
     (let o2 = (if o_maxDestinations o1 = 0 \<or> o_maxDestinations o1 > 4096 then o1\<lparr>o_maxDestinations := 128\<rparr> else o1)
      in if o_publishIntervalUs o2 > 10000000 then o2\<lparr>o_publishIntervalUs := 10000000\<rparr> else o2)"

section \<open>The process\<close>

datatype fork_result = ForkFailed errno | ForkParent | ForkChild

text \<open>The answers of the operating system to the program itself; an error number says why a call failed.\<close>

record system =
  y_version :: string
  y_runtimeEnv :: "string option"
  y_userName :: "string option"
  y_uid :: nat
  y_strerror :: "errno \<Rightarrow> string"
  y_mkdir :: "nat \<Rightarrow> string \<Rightarrow> mkdir_result"
  y_special :: "string \<Rightarrow> bool"
  y_openLock :: "int \<times> errno"
  y_flock :: bool
  y_ftruncate :: bool
  y_lseek :: bool
  y_pid :: nat
  y_writePid :: "nat option"
  y_sigprocmask :: "errno option"
  y_fork1 :: fork_result
  y_setsid :: "errno option"
  y_fork2 :: fork_result
  y_chdir :: "errno option"
  y_openNull :: int
  y_openLog :: "int \<times> errno"
  y_openNullOut :: int
  y_eventfd :: int

datatype stream = Inherited | DevNull | LogFile string

record process =
  p_cwd :: string
  p_umask :: nat
  p_made :: "string list"
  p_lock :: "string option"
  p_stdin :: stream
  p_stdout :: stream
  p_stderr :: stream
  p_blocked :: bool
  p_sigpipeIgnored :: bool
  p_level :: LogLevel
  p_log :: "(LogLevel \<times> string) list"
  p_printed :: string

text \<open>
  How the kernel finds a path from the current directory.  A file system is seen from that directory: it maps every name the
  process can use, absolute or relative, so a file of the program's own is changed under all its names, and a change of directory
  gives the relative names another meaning.  The monitor uses one name for each of its files.
\<close>

definition absolute :: "string \<Rightarrow> string \<Rightarrow> string" where
  "absolute cwd path =
     (if path \<noteq> [] \<and> hd path = CHR ''/'' then path else if cwd = ''/'' then CHR ''/'' # path else cwd @ CHR ''/'' # path)"

definition seen_from :: "string \<Rightarrow> filesystem \<Rightarrow> filesystem" where
  "seen_from cwd fs = (\<lambda>path. fs (absolute cwd path))"

text \<open>The mode of a new file, and \<^verbatim>\<open>mkdir\<close>, which records the directories the process has made (\<open>p_made\<close>).\<close>

definition masked :: "nat \<Rightarrow> nat \<Rightarrow> nat" where
  "masked umask mode = unat (and (of_nat mode :: u32) (not (of_nat umask)))"

definition sys_mkdir :: "system \<Rightarrow> string \<Rightarrow> string \<Rightarrow> nat \<times> string list \<Rightarrow> mkdir_result \<times> nat \<times> string list" where
  "sys_mkdir Y cwd path nm =
     (let (n, made) = nm; r = y_mkdir Y n path
      in (r, Suc n, if r = MkdirOk then made @ [absolute cwd path] else made))"

text \<open>
  What a successful \<^verbatim>\<open>open\<close> with \<^verbatim>\<open>O_CREAT\<close> and without \<^verbatim>\<open>O_TRUNC\<close> leaves: an empty file of mode 0600 where there was
  nothing, and a file that exists, or anything that is not a regular file (\<open>y_special\<close>), as it was.
\<close>

definition open_creating :: "system \<Rightarrow> string \<Rightarrow> process \<times> filesystem list \<Rightarrow> filesystem list" where
  "open_creating Y path ps =
     (let (p, states) = ps; fs = last states
      in states @ [\<lambda>q. if absolute (p_cwd p) q = absolute (p_cwd p) path \<and> fs q = None \<and> \<not> y_special Y (absolute (p_cwd p) path)
                       then Some ('''', masked (p_umask p) 384) else fs q])"

text \<open>A change of the text of the file the lock's descriptor is open on.\<close>

definition change_lock_text :: "(string \<Rightarrow> string) \<Rightarrow> process \<times> filesystem list \<Rightarrow> filesystem list" where
  "change_lock_text g ps =
     (let (p, states) = ps; fs = last states
      in states @ [\<lambda>q. if p_lock p = Some (absolute (p_cwd p) q) then map_option (apfst g) (fs q) else fs q])"

text \<open>A message that passes the level; \<^verbatim>\<open>logPrintf\<close> says how it is written.\<close>

definition log_message :: "LogLevel \<Rightarrow> string \<Rightarrow> process \<Rightarrow> process" where
  "log_message level message p =
     (if logRank level > logRank (p_level p) then p else p\<lparr>p_log := p_log p @ [(level, message)]\<rparr>)"

definition acquireSingleInstanceLock :: "system \<Rightarrow> string \<Rightarrow> process \<times> filesystem list \<Rightarrow> int \<times> process \<times> filesystem list" where
  "acquireSingleInstanceLock Y path ps =
     (let (p, states) = ps; (fd, err) = y_openLock Y
      in if fd < 0 then (- 1, log_message LogError (''cannot open lock file '' @ path @ '': '' @ y_strerror Y err) p, states)
         else
           (let opened = open_creating Y path (p, states)
            in if \<not> y_flock Y then (- 1, p, opened)
               else (fd, p\<lparr>p_lock := Some (absolute (p_cwd p) path)\<rparr>, opened)))"

text \<open>The pid replaces the text of the lock file; \<^verbatim>\<open>write\<close> may fail or write less.\<close>

definition writePidFile :: "system \<Rightarrow> int \<Rightarrow> process \<times> filesystem list \<Rightarrow> filesystem list" where
  "writePidFile Y fd ps =
     (let (p, states) = ps
      in if fd < 0 \<or> \<not> y_ftruncate Y then states
         else
           (let truncated = change_lock_text (\<lambda>_. '''') (p, states)
            in if \<not> y_lseek Y then truncated
               else (case y_writePid Y of
                       None \<Rightarrow> truncated
                     | Some n \<Rightarrow> change_lock_text (\<lambda>_. take n (to_string_nat (y_pid Y) @ newline)) (p, truncated))))"

definition blockShutdownSignals :: "system \<Rightarrow> process \<Rightarrow> bool \<times> process" where
  "blockShutdownSignals Y p =
     (case y_sigprocmask Y of
        Some err \<Rightarrow> (False, log_message LogError (''sigprocmask: '' @ y_strerror Y err) p)
      | None \<Rightarrow> (True, p\<lparr>p_blocked := True, p_sigpipeIgnored := True\<rparr>))"

text \<open>\<^verbatim>\<open>daemonise\<close> seen from one process: the parents leave with status zero, the grandchild goes on.\<close>

datatype daemon_result = DaemonFailed | DaemonParent | DaemonChild

definition daemonise :: "system \<Rightarrow> process \<times> filesystem list \<Rightarrow> daemon_result \<times> process \<times> filesystem list" where
  "daemonise Y ps =
     (let (p, states) = ps;
          failed = (\<lambda>call err. (DaemonFailed, log_message LogError (call @ '': '' @ y_strerror Y err) p, states))
      in case y_fork1 Y of
           ForkFailed err \<Rightarrow> failed ''fork'' err
         | ForkParent \<Rightarrow> (DaemonParent, p, states)
         | ForkChild \<Rightarrow>
             (case y_setsid Y of
                Some err \<Rightarrow> failed ''setsid'' err
              | None \<Rightarrow>
                  (case y_fork2 Y of
                     ForkFailed err \<Rightarrow> failed ''fork'' err
                   | ForkParent \<Rightarrow> (DaemonParent, p, states)
                   | ForkChild \<Rightarrow>
                       (let (p1, states1) = (case y_chdir Y of
                                    Some err \<Rightarrow> (log_message LogWarn (''chdir(/): '' @ y_strerror Y err) p, states)
                                  | None \<Rightarrow> (p\<lparr>p_cwd := ''/''\<rparr>, states @ [seen_from ''/'' (last states)]))
                        in (DaemonChild, p1\<lparr>p_umask := 18\<rparr>, states1)))))"

definition redirectStandardStreams :: "system \<Rightarrow> string \<Rightarrow> process \<times> filesystem list \<Rightarrow> process \<times> filesystem list" where
  "redirectStandardStreams Y logFile ps =
     (let (p, states) = ps;
          p1 = (if y_openNull Y \<ge> 0 then p\<lparr>p_stdin := DevNull\<rparr> else p);
          (logFd, err) = (if logFile \<noteq> '''' then y_openLog Y else (- 1, EINVAL));
          p2 = (if logFile \<noteq> '''' \<and> logFd < 0
                then log_message LogWarn (''cannot open log file '' @ logFile @ '': '' @ y_strerror Y err) p1 else p1);
          states1 = (if logFd \<ge> 0 then open_creating Y logFile (p2, states) else states);
          target = (if logFd \<ge> 0 then LogFile (absolute (p_cwd p2) logFile) else DevNull);
          outFd = (if logFd < 0 then y_openNullOut Y else logFd)
      in (if outFd \<ge> 0 then p2\<lparr>p_stdout := target, p_stderr := target\<rparr> else p2, states1))"

section \<open>The program\<close>

text \<open>The part of \<^verbatim>\<open>main\<close> that has a monitor; leaving it runs the destructor.\<close>

definition runMonitor :: "nat \<Rightarrow> system \<Rightarrow> env \<Rightarrow> boot \<Rightarrow> MonitorOptions \<Rightarrow> process \<times> filesystem list \<Rightarrow>
    int option \<times> process \<times> filesystem list" where
  "runMonitor fuel Y E B options ps =
     (let (p, states) = ps;
          (err, w) = Monitor_start E B (Monitor_new options (Resolver_new (y_eventfd Y)), states)
      in case err of
           Some e \<Rightarrow> (Some 1, log_message LogError (''startup failed: '' @ e) p, snd (Monitor_close E w))
         | None \<Rightarrow>
             (case Monitor_run fuel E w of
                None \<Rightarrow> (None, p, snd w)
              | Some (result, w1) \<Rightarrow>
                  (Some result, log_message LogInfo ''plasma-network-healthd stopped'' p, snd (Monitor_close E w1))))"

text \<open>From the lock to the end; \<open>None\<close> as a status means that the loop is still running when the fuel is used up.\<close>

definition serve :: "nat \<Rightarrow> system \<Rightarrow> env \<Rightarrow> boot \<Rightarrow> settings \<Rightarrow> int \<Rightarrow> process \<times> filesystem list \<Rightarrow>
    int option \<times> process \<times> filesystem list" where
  "serve fuel Y E B st lockFd ps =
     (let (background, p1, states1) = (if set_background st then daemonise Y ps else (DaemonChild, ps))
      in case background of
           DaemonFailed \<Rightarrow> (Some 1, p1, states1)
         | DaemonParent \<Rightarrow> (Some 0, p1, states1)
         | DaemonChild \<Rightarrow>
             (let states2 = writePidFile Y lockFd (p1, states1);
                  (p3, states3) = (if set_background st \<or> set_logFile st \<noteq> ''''
                                   then redirectStandardStreams Y (set_logFile st) (p1, states2) else (p1, states2));
                  p4 = log_message LogInfo (''plasma-network-healthd '' @ y_version Y @ '' starting (runtime dir: '' @
                         o_runtimeDir (set_options st) @ '')'') p3;
                  (blocked, p5) = blockShutdownSignals Y p4
              in if \<not> blocked then (Some 1, p5, states3) else runMonitor fuel Y E B (set_options st) (p5, states3)))"

text \<open>What \<^verbatim>\<open>main\<close> starts from before it looks at the arguments.\<close>

definition start_settings :: "system \<Rightarrow> process \<Rightarrow> settings" where
  "start_settings Y p =
     \<lparr>set_options = MonitorOptions_default\<lparr>o_runtimeDir :=
        xdgRuntimeDir (y_runtimeEnv Y) (y_userName Y) (y_uid Y) @ ''/plasma-network-health''\<rparr>,
      set_background = False, set_logFile = '''', set_level = p_level p\<rparr>"

definition main :: "nat \<Rightarrow> system \<Rightarrow> env \<Rightarrow> boot \<Rightarrow> string \<Rightarrow> string list \<Rightarrow> process \<times> filesystem \<Rightarrow>
    int option \<times> process \<times> filesystem list" where
  "main fuel Y E B argv0 args pf =
     (let (p, fs) = pf
      in case parse_args (y_version Y) argv0 args (start_settings Y p) of
           Quit status message \<Rightarrow> (Some status, p\<lparr>p_printed := p_printed p @ message\<rparr>, [fs])
         | Run st1 \<Rightarrow>
             (let st = st1\<lparr>set_options := limitOptions (set_options st1)\<rparr>;
                  dir = o_runtimeDir (set_options st);
                  (made, _, dirs) = makeDirectories (sys_mkdir Y (p_cwd p)) dir (0, p_made p);
                  p1 = p\<lparr>p_level := set_level st, p_made := dirs\<rparr>
              in if \<not> made
                 then (Some 1, p1\<lparr>p_printed := p_printed p1 @ ''cannot create '' @ dir @ newline\<rparr>, [fs])
                 else
                   (let (lockFd, p2, states) = acquireSingleInstanceLock Y (dir @ ''/daemon.lock'') (p1, [fs])
                    in if lockFd < 0
                       then (Some 0, log_message LogInfo ''another instance is already running, nothing to do'' p2, states)
                       else serve fuel Y E B st lockFd (p2, states))))"

end
