(* ===== verification/Daemon_Properties.thy ===== *)
theory Daemon_Properties
  imports Daemon Loop_Invariant
begin

text \<open>
  What the command line means, what a second instance does, and what becomes of a relative directory in the background.
\<close>

section \<open>Numbers on the command line\<close>

lemma digit_not_sign: "is_digit c \<Longrightarrow> c \<noteq> CHR ''-'' \<and> c \<noteq> CHR ''+'' \<and> \<not> isspace c"
  by (auto simp: is_digit_def isspace_def)

lemma strtoull_digits:
  assumes "n < 2 ^ 64"
  shows "strtoull (to_string_nat n) = of_nat n"
proof -
  obtain c cs where s: "to_string_nat n = c # cs" using to_string_nat_nonempty [of n] by (cases "to_string_nat n") auto
  have d: "list_all is_digit (to_string_nat n)" using to_string_nat_digits [of n] by (simp add: list_all_iff)
  then have c: "c \<noteq> CHR ''-''" "c \<noteq> CHR ''+''" "\<not> isspace c" using digit_not_sign [of c] by (simp_all add: s)
  have "takeWhile is_digit (to_string_nat n) = to_string_nat n" using d by (simp add: list_all_iff takeWhile_eq_all_conv)
  then show ?thesis using assms c read_to_string_nat [of n] by (simp add: strtoull_def s)
qed

text \<open>A number too large for 64 bits is not refused: it becomes the largest one, and its product with a million wraps.\<close>

lemma seconds_wrap: "seconds ''18446744073709551616'' = - 1000000 \<and> seconds ''-1'' = - 1000000 \<and> seconds ''18446744073710'' = 448384"
  by (simp add: seconds_def strtoull_def isspace_def is_digit_def digit_value_def read_digits_def)

section \<open>The command line round trip\<close>

definition level_argument :: "LogLevel \<Rightarrow> string" where
  "level_argument level = (case level of LogError \<Rightarrow> ''error'' | LogWarn \<Rightarrow> ''warn'' | LogInfo \<Rightarrow> ''info'' | LogDebug \<Rightarrow> ''debug'')"

lemma parseLogLevel_argument [simp]: "parseLogLevel (level_argument level) = Some level"
  by (cases level) (simp_all add: parseLogLevel_def level_argument_def)

text \<open>The options that ask for given settings, one list of arguments each.\<close>

definition dir_arguments :: "settings \<Rightarrow> string list" where
  "dir_arguments st = [''--runtime-dir'', o_runtimeDir (set_options st)]"

definition idle_arguments :: "settings \<Rightarrow> string list" where
  "idle_arguments st = [''--idle-exit'', to_string_u64 (o_idleExitUs (set_options st) div 1000000)]"

definition timeout_arguments :: "settings \<Rightarrow> string list" where
  "timeout_arguments st = [''--client-timeout'', to_string_u64 (o_clientTimeoutUs (set_options st) div 1000000)]"

definition publish_arguments :: "settings \<Rightarrow> string list" where
  "publish_arguments st = [''--publish-interval'', to_string_u64 (o_publishIntervalUs (set_options st) div 1000)]"

definition max_arguments :: "settings \<Rightarrow> string list" where
  "max_arguments st = [''--max-destinations'', to_string_nat (o_maxDestinations (set_options st))]"

definition log_arguments :: "settings \<Rightarrow> string list" where
  "log_arguments st = [''--log-file'', set_logFile st]"

definition level_arguments :: "settings \<Rightarrow> string list" where
  "level_arguments st = [''--log-level'', level_argument (set_level st)]"

definition arguments :: "settings \<Rightarrow> string list set" where
  "arguments st = {dir_arguments st, idle_arguments st, timeout_arguments st, publish_arguments st, max_arguments st,
     log_arguments st, level_arguments st} \<union> (if set_background st then {[''--daemon'']} else {})"

lemmas argument_defs = dir_arguments_def idle_arguments_def timeout_arguments_def publish_arguments_def max_arguments_def
  log_arguments_def level_arguments_def

text \<open>Settings that can be written: whole seconds, whole milliseconds, and within the limits.\<close>

definition expressible :: "settings \<Rightarrow> bool" where
  "expressible st \<longleftrightarrow> o_idleExitUs (set_options st) div 1000000 * 1000000 = o_idleExitUs (set_options st) \<and>
     o_clientTimeoutUs (set_options st) div 1000000 * 1000000 = o_clientTimeoutUs (set_options st) \<and>
     o_publishIntervalUs (set_options st) div 1000 * 1000 = o_publishIntervalUs (set_options st) \<and>
     o_publishIntervalUs (set_options st) \<le> 10000000 \<and> 1 \<le> o_maxDestinations (set_options st) \<and> o_maxDestinations (set_options st) \<le> 4096"

text \<open>The settings after some of the arguments: those fields that were asked for.\<close>

definition pick :: "bool \<Rightarrow> 'a \<Rightarrow> 'a \<Rightarrow> 'a" where
  "pick b x y = (if b then x else y)"

lemma pick_simps [simp]: "pick True x y = x" "pick False x y = y" "pick a x (pick b x y) = pick (a \<or> b) x y"
  by (simp_all add: pick_def)

definition adopt :: "settings \<Rightarrow> string list set \<Rightarrow> settings \<Rightarrow> settings" where
  "adopt st A s = \<lparr>set_options = \<lparr>
       o_runtimeDir = pick (dir_arguments st \<in> A) (o_runtimeDir (set_options st)) (o_runtimeDir (set_options s)),
       o_publishIntervalUs = pick (publish_arguments st \<in> A) (o_publishIntervalUs (set_options st)) (o_publishIntervalUs (set_options s)),
       o_clientTimeoutUs = pick (timeout_arguments st \<in> A) (o_clientTimeoutUs (set_options st)) (o_clientTimeoutUs (set_options s)),
       o_idleExitUs = pick (idle_arguments st \<in> A) (o_idleExitUs (set_options st)) (o_idleExitUs (set_options s)),
       o_maxDestinations = pick (max_arguments st \<in> A) (o_maxDestinations (set_options st)) (o_maxDestinations (set_options s))\<rparr>,
     set_background = (set_background s \<or> [''--daemon''] \<in> A),
     set_logFile = pick (log_arguments st \<in> A) (set_logFile st) (set_logFile s),
     set_level = pick (level_arguments st \<in> A) (set_level st) (set_level s)\<rparr>"

lemma adopt_adopt: "adopt st A (adopt st B s) = adopt st (A \<union> B) s"
  by (simp add: adopt_def disj_ac)

lemma adopt_empty: "adopt st {} s = s"
  by (cases s, cases "set_options s") (simp add: adopt_def)

lemma strtoull_u64 [simp]: "strtoull (to_string_u64 w) = w"
  using unat_less_pow [of w] by (simp add: to_string_u64_def strtoull_digits)

lemma parse_argument:
  assumes "expressible st" and "a \<in> arguments st"
  shows "parse_args version argv0 (a @ rest) s = parse_args version argv0 rest (adopt st {a} s)"
proof -
  have m: "unat (strtoull (to_string_nat (o_maxDestinations (set_options st)))) = o_maxDestinations (set_options st)"
    using assms(1) by (simp add: expressible_def strtoull_digits) (rule of_nat_inverse [OF refl], simp)
  consider "a = dir_arguments st" | "a = idle_arguments st" | "a = timeout_arguments st" | "a = publish_arguments st"
    | "a = max_arguments st" | "a = log_arguments st" | "a = level_arguments st" | "a = [''--daemon'']"
    using assms(2) by (auto simp: arguments_def split: if_splits)
  moreover obtain o' b l v where s: "s = \<lparr>set_options = o', set_background = b, set_logFile = l, set_level = v\<rparr>" by (cases s)
  moreover obtain d p t i n where "o' = \<lparr>o_runtimeDir = d, o_publishIntervalUs = p, o_clientTimeoutUs = t, o_idleExitUs = i, o_maxDestinations = n\<rparr>"
    by (cases o')
  moreover note assms(1) m
  ultimately show ?thesis
    by cases (simp_all add: argument_defs valueOption_def changeOptions_def adopt_def seconds_def milliseconds_def expressible_def)
qed

lemma parse_arguments:
  assumes "expressible st" and "set as \<subseteq> arguments st"
  shows "parse_args version argv0 (concat as) s = Run (adopt st (set as) s)"
  using assms(2)
proof (induction as arbitrary: s)
  case (Cons a as)
  then show ?case using parse_argument [OF assms(1), of a] by (simp add: adopt_adopt)
qed (simp add: adopt_empty)

lemma adopt_all:
  assumes "set_background s \<longrightarrow> set_background st"
  shows "adopt st (arguments st) s = st"
proof -
  have "[''--daemon''] \<in> arguments st \<longleftrightarrow> set_background st" by (auto simp: arguments_def argument_defs)
  moreover have "dir_arguments st \<in> arguments st" "idle_arguments st \<in> arguments st" "timeout_arguments st \<in> arguments st"
    "publish_arguments st \<in> arguments st" "max_arguments st \<in> arguments st" "log_arguments st \<in> arguments st"
    "level_arguments st \<in> arguments st"
    by (simp_all add: arguments_def)
  ultimately show ?thesis using assms by (cases st, cases "set_options st") (auto simp: adopt_def)
qed

text \<open>
  C40: The command line says what it means: for settings in whole seconds and milliseconds and within the limits, writing
  each of them as its option, in any order and however often, and parsing the result gives exactly these settings, which the limits
  then leave alone.
\<close>

theorem command_line_roundtrip:
  assumes "expressible st" and "set as = arguments st" and "set_background s \<longrightarrow> set_background st"
  shows "parse_args version argv0 (concat as) s = Run st \<and> limitOptions (set_options st) = set_options st"
proof -
  have "parse_args version argv0 (concat as) s = Run st"
    using parse_arguments [OF assms(1), of as] assms(2) adopt_all [OF assms(3)] by simp
  moreover have "limitOptions (set_options st) = set_options st"
    using assms(1) by (auto simp: expressible_def limitOptions_def Let_def)
  ultimately show ?thesis by simp
qed

definition example_settings :: settings where
  "example_settings = \<lparr>set_options = \<lparr>o_runtimeDir = ''/run/x'', o_publishIntervalUs = 500000, o_clientTimeoutUs = 60000000,
     o_idleExitUs = 30000000, o_maxDestinations = 16\<rparr>, set_background = True, set_logFile = ''/tmp/l'', set_level = LogDebug\<rparr>"

definition default_settings :: settings where
  "default_settings = \<lparr>set_options = MonitorOptions_default, set_background = False, set_logFile = '''', set_level = LogInfo\<rparr>"

theorem command_line_roundtrip_witness:
  "parse_args ''1'' ''d'' [''--log-level'', ''debug'', ''--daemon'', ''--idle-exit'', ''30'', ''--log-file'', ''/tmp/l'', ''--runtime-dir'', ''/run/x'',
     ''--client-timeout'', ''60'', ''--max-destinations'', ''16'', ''--publish-interval'', ''500''] default_settings = Run example_settings"
proof -
  let ?st = example_settings
  have digits: "to_string_u64 30 = ''30''" "to_string_u64 60 = ''60''" "to_string_u64 500 = ''500''" "to_string_nat 16 = ''16''"
    by code_simp+
  have "expressible ?st" by (simp add: expressible_def example_settings_def)
  moreover have "set [level_arguments ?st, [''--daemon''], idle_arguments ?st, log_arguments ?st, dir_arguments ?st, timeout_arguments ?st,
      max_arguments ?st, publish_arguments ?st] = arguments ?st"
    by (auto simp: arguments_def example_settings_def)
  ultimately have "parse_args ''1'' ''d'' (concat [level_arguments ?st, [''--daemon''], idle_arguments ?st, log_arguments ?st, dir_arguments ?st,
      timeout_arguments ?st, max_arguments ?st, publish_arguments ?st]) default_settings = Run ?st"
    by (intro command_line_roundtrip [THEN conjunct1]) (simp_all add: default_settings_def)
  then show ?thesis by (simp add: argument_defs example_settings_def level_argument_def digits)
qed

section \<open>A second instance\<close>

text \<open>Rejected arguments give status zero or two.\<close>

lemma parse_args_status: "parse_args version argv0 args st = Quit status message \<Longrightarrow> status = 0 \<or> status = 2"
proof (induction version argv0 args st rule: parse_args.induct)
  case (2 version argv0 argument rest st)
  then show ?case by (auto split: if_splits option.splits list.splits sum.splits)
qed simp

text \<open>What logging, printing and making directories leave alone.\<close>

definition process_frame :: "process \<Rightarrow> string \<times> nat \<times> string option \<times> stream \<times> stream \<times> stream \<times> bool \<times> bool" where
  "process_frame p = (p_cwd p, p_umask p, p_lock p, p_stdin p, p_stdout p, p_stderr p, p_blocked p, p_sigpipeIgnored p)"

lemma process_frame_simps [simp]:
  "process_frame (log_message level message p) = process_frame p" "process_frame (p\<lparr>p_printed := t\<rparr>) = process_frame p"
  "process_frame (p\<lparr>p_level := l\<rparr>) = process_frame p" "process_frame (p\<lparr>p_made := ds\<rparr>) = process_frame p"
  by (simp_all add: process_frame_def log_message_def)

lemma log_message_made [simp]: "p_made (log_message level message p) = p_made p"
  by (simp add: log_message_def)

text \<open>A directory that is recorded as made is one that \<^verbatim>\<open>mkdir\<close> said it made.\<close>

definition made_by :: "system \<Rightarrow> string \<Rightarrow> string list \<Rightarrow> string list \<Rightarrow> bool" where
  "made_by Y cwd before after \<longleftrightarrow>
     (\<exists>made. after = before @ made \<and> (\<forall>d \<in> set made. \<exists>n path. y_mkdir Y n path = MkdirOk \<and> d = absolute cwd path))"

lemma made_by_refl [simp]: "made_by Y cwd ds ds"
  by (simp add: made_by_def)

lemma made_by_trans: "made_by Y cwd ds ds' \<Longrightarrow> made_by Y cwd ds' ds'' \<Longrightarrow> made_by Y cwd ds ds''"
  by (fastforce simp: made_by_def)

lemma sys_mkdir_made: "made_by Y cwd (snd nm) (snd (snd (sys_mkdir Y cwd path nm)))"
  by (auto simp: made_by_def sys_mkdir_def case_prod_beta Let_def)

lemma makeDirs_loop_made: "made_by Y cwd (snd nm) (snd (snd (makeDirs_loop (sys_mkdir Y cwd) current rest nm)))"
proof (induction "sys_mkdir Y cwd" current rest nm rule: makeDirs_loop.induct)
  case (1 current rest nm)
  let ?component = "takeWhile (\<lambda>c. c \<noteq> CHR ''/'') rest"
  let ?after = "dropWhile (\<lambda>c. c \<noteq> CHR ''/'') rest"
  let ?current = "if ?component = [] then current else (if length current > 1 \<or> (length current = 1 \<and> hd current \<noteq> CHR ''/'')
      then current @ ''/'' else current) @ ?component"
  let ?step = "if ?component = [] then (False, nm) else (let (r, fs1) = sys_mkdir Y cwd ?current nm in (r = MkdirFailed, fs1))"
  have step: "made_by Y cwd (snd nm) (snd (snd ?step))"
    by (simp add: case_prod_beta Let_def sys_mkdir_made)
  obtain failed nm' where st: "?step = (failed, nm')" by (metis prod.exhaust)
  have eq: "makeDirs_loop (sys_mkdir Y cwd) current rest nm =
      (if failed then (False, nm') else if ?after = [] then (True, nm') else makeDirs_loop (sys_mkdir Y cwd) ?current (tl ?after) nm')"
    unfolding makeDirs_loop.simps [of "sys_mkdir Y cwd" current rest nm] Let_def [of ?component] Let_def [of ?after] Let_def [of ?current] st
    by simp
  have "made_by Y cwd (snd nm') (snd (snd (makeDirs_loop (sys_mkdir Y cwd) ?current (tl ?after) nm')))"
    if "\<not> failed" "?after \<noteq> []"
    by (rule "1.hyps" [OF refl refl refl st [symmetric] refl that])
  moreover have "made_by Y cwd (snd nm) (snd nm')" using step unfolding st by simp
  ultimately show ?case unfolding eq by (auto intro: made_by_trans)
qed

lemma makeDirectories_made: "made_by Y cwd (snd nm) (snd (snd (makeDirectories (sys_mkdir Y cwd) path nm)))"
  using makeDirs_loop_made by (simp add: makeDirectories_def)

text \<open>The name of the lock file for given arguments, if they are not rejected.\<close>

definition lock_file :: "system \<Rightarrow> string \<Rightarrow> string list \<Rightarrow> process \<Rightarrow> string option" where
  "lock_file Y argv0 args p =
     (case parse_args (y_version Y) argv0 args (start_settings Y p) of
        Quit status message \<Rightarrow> None
      | Run st \<Rightarrow> Some (absolute (p_cwd p) (o_runtimeDir (set_options st) @ ''/daemon.lock'')))"

lemma limit_dir [simp]: "o_runtimeDir (limitOptions options) = o_runtimeDir options"
  by (simp add: limitOptions_def Let_def)

text \<open>
  What the attempt to get the lock may do to a file: nothing, or create it, empty, where the lock file belongs and there is none.
\<close>

definition untouched :: "process \<Rightarrow> string option \<Rightarrow> filesystem \<Rightarrow> filesystem \<Rightarrow> bool" where
  "untouched p lock fs f \<longleftrightarrow>
     (\<forall>path. f path = fs path \<or>
        (fs path = None \<and> lock = Some (absolute (p_cwd p) path) \<and> f path = Some ('''', masked (p_umask p) 384)))"

lemma untouched_refl [simp]: "untouched p lock fs fs"
  by (simp add: untouched_def)

lemma untouched_existing: "untouched p lock fs f \<Longrightarrow> fs path \<noteq> None \<Longrightarrow> f path = fs path"
  unfolding untouched_def by metis

lemma lock_refused:
  assumes "fst (y_openLock Y) < 0 \<or> \<not> y_flock Y"
    and "acquireSingleInstanceLock Y path (p, [fs]) = (fd, p', states)"
  shows "fd < 0" and "process_frame p' = process_frame p" and "p_made p' = p_made p"
    and "\<forall>f \<in> set states. untouched p (Some (absolute (p_cwd p) path)) fs f"
  using assms by (auto simp: acquireSingleInstanceLock_def open_creating_def untouched_def Let_def split: prod.splits if_splits)

lemma main_refused:
  assumes "fst (y_openLock Y) < 0 \<or> \<not> y_flock Y"
    and run: "parse_args (y_version Y) argv0 args (start_settings Y p) = Run st"
    and ok: "fst (makeDirectories (sys_mkdir Y (p_cwd p)) (o_runtimeDir (set_options st)) (0, p_made p))"
  obtains p' states where "main fuel Y E B argv0 args (p, fs) = (Some 0, p', states)" and "process_frame p' = process_frame p"
    and "made_by Y (p_cwd p) (p_made p) (p_made p')" and "\<forall>f \<in> set states. untouched p (lock_file Y argv0 args p) fs f"
proof -
  let ?dir = "o_runtimeDir (set_options st)"
  obtain n dirs where m: "makeDirectories (sys_mkdir Y (p_cwd p)) ?dir (0, p_made p) = (True, n, dirs)"
    using ok by (metis eq_fst_iff)
  define p1 where "p1 = p\<lparr>p_level := set_level st, p_made := dirs\<rparr>"
  obtain fd p2 states where l: "acquireSingleInstanceLock Y (?dir @ ''/daemon.lock'') (p1, [fs]) = (fd, p2, states)" by (metis prod_cases3)
  note L = lock_refused [OF assms(1) l]
  have "made_by Y (p_cwd p) (p_made p) dirs"
    using makeDirectories_made [of Y "p_cwd p" "(0, p_made p)" ?dir] by (simp add: m)
  moreover have "lock_file Y argv0 args p = Some (absolute (p_cwd p) (?dir @ ''/daemon.lock''))" by (simp add: lock_file_def run)
  moreover have "main fuel Y E B argv0 args (p, fs) =
      (Some 0, log_message LogInfo ''another instance is already running, nothing to do'' p2, states)"
    using L(1) l by (simp add: main_def run m p1_def)
  ultimately show ?thesis using that L(2-4) by (simp add: p1_def untouched_def)
qed

text \<open>
  C39: A second instance does no harm: a process that does not get the lock returns with status zero, one or two whatever its arguments
  - two exactly when the command line is rejected with that status, one exactly when the runtime directory cannot be made.  In every state the
  file system passes through every file is as it was - the published ones, and the pid in the lock file of the instance that runs - but for a missing
  lock file, which may appear empty, and the only directories made are those \<^verbatim>\<open>mkdir\<close> made on request; a rejected command line
  changes nothing at all.  The process stays in the foreground and leaves its working directory, streams and signals alone.
\<close>

theorem second_instance_harmless:
  assumes "fst (y_openLock Y) < 0 \<or> \<not> y_flock Y"
  shows "\<exists>status p' states. main fuel Y E B argv0 args (p, fs) = (Some status, p', states) \<and> process_frame p' = process_frame p \<and>
    (\<forall>f \<in> set states. untouched p (lock_file Y argv0 args p) fs f) \<and> made_by Y (p_cwd p) (p_made p) (p_made p') \<and> status \<in> {0, 1, 2} \<and>
    (status = 2 \<longleftrightarrow> (\<exists>message. parse_args (y_version Y) argv0 args (start_settings Y p) = Quit 2 message)) \<and>
    (status = 1 \<longleftrightarrow> (\<exists>st. parse_args (y_version Y) argv0 args (start_settings Y p) = Run st \<and>
       \<not> fst (makeDirectories (sys_mkdir Y (p_cwd p)) (o_runtimeDir (set_options st)) (0, p_made p)))) \<and>
    (lock_file Y argv0 args p = None \<longrightarrow> states = [fs] \<and> p_made p' = p_made p)"
proof (cases "parse_args (y_version Y) argv0 args (start_settings Y p)")
  case (Quit status message)
  then show ?thesis using parse_args_status [OF Quit] by (auto simp: main_def lock_file_def)
next
  case (Run st)
  let ?made = "makeDirectories (sys_mkdir Y (p_cwd p)) (o_runtimeDir (set_options st)) (0, p_made p)"
  have some: "lock_file Y argv0 args p \<noteq> None" by (simp add: lock_file_def Run)
  show ?thesis
  proof (cases "fst ?made")
    case True
    obtain p' states where "main fuel Y E B argv0 args (p, fs) = (Some 0, p', states)" "process_frame p' = process_frame p"
      "made_by Y (p_cwd p) (p_made p) (p_made p')" "\<forall>f \<in> set states. untouched p (lock_file Y argv0 args p) fs f"
      by (rule main_refused [OF assms Run True])
    then show ?thesis using some Run True by auto
  next
    case False
    have "made_by Y (p_cwd p) (p_made p) (snd (snd ?made))" using makeDirectories_made [of Y "p_cwd p" "(0, p_made p)"] by simp
    then show ?thesis using some Run False by (auto simp: main_def Let_def case_prod_beta)
  qed
qed

definition example_system :: system where
  "example_system = \<lparr>y_version = ''1.0'', y_runtimeEnv = Some ''/run/user/1000'', y_userName = None, y_uid = 1000, y_strerror = (\<lambda>e. ''error''),
     y_mkdir = (\<lambda>n path. MkdirExists), y_special = (\<lambda>path. False), y_openLock = (3, EINVAL), y_flock = False, y_ftruncate = True, y_lseek = True, y_pid = 42,
     y_writePid = Some 3, y_sigprocmask = None, y_fork1 = ForkChild, y_setsid = None, y_fork2 = ForkChild, y_chdir = None,
     y_openNull = 5, y_openLog = (6, EINVAL), y_openNullOut = 7, y_eventfd = 8\<rparr>"

definition example_process :: process where
  "example_process = \<lparr>p_cwd = ''/home/x'', p_umask = 63, p_made = [], p_lock = None, p_stdin = Inherited, p_stdout = Inherited,
     p_stderr = Inherited, p_blocked = False, p_sigpipeIgnored = False, p_level = LogInfo, p_log = [], p_printed = ''''\<rparr>"

text \<open>A second instance finds the lock file of the first, with its pid in it.\<close>

definition locked_files :: filesystem where
  "locked_files = [''/r/daemon.lock'' \<mapsto> (''17'' @ newline, 384), ''/r/state.json'' \<mapsto> (''state'', 420)]"

theorem second_instance_harmless_witness:
  "\<exists>p' states. main 0 example_system example_env example_boot ''d'' [''--daemon'', ''--runtime-dir'', ''/r''] (example_process, locked_files) =
     (Some 0, p', states) \<and> p_lock p' = None \<and> p_made p' = [] \<and>
     (\<forall>f \<in> set states. f ''/r/daemon.lock'' = Some (''17'' @ newline, 384) \<and> f ''/r/state.json'' = Some (''state'', 420))"
proof -
  have lock: "fst (y_openLock example_system) < 0 \<or> \<not> y_flock example_system" by (simp add: example_system_def)
  have run: "parse_args (y_version example_system) ''d'' [''--daemon'', ''--runtime-dir'', ''/r''] (start_settings example_system example_process) =
      Run ((start_settings example_system example_process)\<lparr>set_background := True, set_options := MonitorOptions_default\<lparr>o_runtimeDir := ''/r''\<rparr>\<rparr>)"
    by (simp add: valueOption_def changeOptions_def start_settings_def)
  have ok: "fst (makeDirectories (sys_mkdir example_system (p_cwd example_process)) ''/r'' (0, p_made example_process))"
    by (simp add: makeDirectories_def makeDirs_loop.simps sys_mkdir_def example_system_def Let_def)
  obtain status p' states where m: "main 0 example_system example_env example_boot ''d'' [''--daemon'', ''--runtime-dir'', ''/r'']
      (example_process, locked_files) = (Some status, p', states)"
    and p': "process_frame p' = process_frame example_process"
    and f: "\<forall>f \<in> set states. untouched example_process (lock_file example_system ''d'' [''--daemon'', ''--runtime-dir'', ''/r''] example_process) locked_files f"
    and made: "made_by example_system (p_cwd example_process) (p_made example_process) (p_made p')"
    and status: "status \<in> {0, 1, 2}" "status \<noteq> 2" "status \<noteq> 1"
    using second_instance_harmless [OF lock, of 0 example_env example_boot "''d''" "[''--daemon'', ''--runtime-dir'', ''/r'']" example_process locked_files]
      run ok by auto
  have made': "p_made p' = []" using made by (auto simp: made_by_def example_system_def example_process_def)
  have lock': "p_lock p' = None" using p' by (simp add: process_frame_def example_process_def)
  have "f path = locked_files path" if "f \<in> set states" "locked_files path \<noteq> None" for f path
    by (rule untouched_existing [OF bspec [OF f that(1)] that(2)])
  from this [of _ "''/r/daemon.lock''"] this [of _ "''/r/state.json''"]
  have "\<forall>f \<in> set states. f ''/r/daemon.lock'' = Some (''17'' @ newline, 384) \<and> f ''/r/state.json'' = Some (''state'', 420)"
    by (simp add: locked_files_def)
  then show ?thesis using m status made' lock' by auto
qed

section \<open>The lock file and the background\<close>

text \<open>A lock file that cannot be opened is reported like a running instance, with status zero.\<close>

lemma lock_unopenable:
  assumes "y_openLock Y = (- 1, err)" and "parse_args (y_version Y) argv0 args (start_settings Y p) = Run st" and "set_level st = LogInfo"
    and "fst (makeDirectories (sys_mkdir Y (p_cwd p)) (o_runtimeDir (set_options st)) (0, p_made p))"
  shows "\<exists>p' message. main fuel Y E B argv0 args (p, fs) = (Some 0, p', [fs]) \<and>
    p_log p' = p_log p @ [(LogError, message), (LogInfo, ''another instance is already running, nothing to do'')]"
  using assms by (simp add: main_def Let_def case_prod_beta acquireSingleInstanceLock_def log_message_def logRank_def)

text \<open>The instance that has the lock leaves its pid in the lock file, whatever was there.\<close>

lemma lock_file_holds_pid:
  assumes "acquireSingleInstanceLock Y path (p, states) = (fd, p1, states1)" and "0 \<le> fd" and "\<not> y_special Y (absolute (p_cwd p) path)"
    and "y_ftruncate Y" and "y_lseek Y" and "y_writePid Y = Some n" and "length (to_string_nat (y_pid Y)) < n"
  shows "\<exists>mode. last (writePidFile Y fd (p1, states1)) path = Some (to_string_nat (y_pid Y) @ newline, mode)"
proof -
  have p1: "p1 = p\<lparr>p_lock := Some (absolute (p_cwd p) path)\<rparr>" and s1: "states1 = open_creating Y path (p, states)"
    using assms(1,2) by (auto simp: acquireSingleInstanceLock_def Let_def split: prod.splits if_splits)
  have "last states1 path \<noteq> None" using assms(3) by (simp add: s1 open_creating_def Let_def)
  then show ?thesis
    using assms(2-7) by (auto simp: writePidFile_def change_lock_text_def Let_def p1 newline_def)
qed

text \<open>
  In the background a relative runtime directory is another one than the one the lock file is in: the lock is taken before the change to
  the root directory, the monitor runs after it.
\<close>

lemma relative_dir_moves:
  assumes "acquireSingleInstanceLock Y path (p, states) = (fd, p1, states1)" and "0 \<le> fd"
    and "daemonise Y (p1, states1) = (DaemonChild, p2, states2)" and "y_chdir Y = None"
    and "path \<noteq> ''''" and "hd path \<noteq> CHR ''/''" and "p_cwd p \<noteq> ''''" and "p_cwd p \<noteq> ''/''"
  shows "p_lock p2 = Some (absolute (p_cwd p) path) \<and> absolute (p_cwd p2) path \<noteq> absolute (p_cwd p) path \<and>
    last states2 path = last states1 (CHR ''/'' # path)"
proof -
  have p1: "p1 = p\<lparr>p_lock := Some (absolute (p_cwd p) path)\<rparr>"
    using assms(1,2) by (auto simp: acquireSingleInstanceLock_def Let_def split: prod.splits if_splits)
  have p2: "p2 = p1\<lparr>p_cwd := ''/'', p_umask := 18\<rparr>" "states2 = states1 @ [seen_from ''/'' (last states1)]"
    using assms(3,4) by (auto simp: daemonise_def Let_def split: fork_result.splits option.splits)
  have "length (absolute (p_cwd p) path) \<noteq> length (CHR ''/'' # path)"
    using assms(5-8) by (simp add: absolute_def)
  then have "absolute (p_cwd p) path \<noteq> CHR ''/'' # path" by metis
  then show ?thesis using assms(5,6) by (simp add: p1 p2 absolute_def seen_from_def)
qed

end
