(* ===== verification/Spec2Isabelle.thy ===== *)
theory Spec2Isabelle
  imports Probing_Properties Json_Roundtrip Reload Widget_View Idle_Exit Daemon_Properties
begin

text \<open>
  Plasma Network Health, the monitoring daemon (\<^verbatim>\<open>src/daemon/src\<close>).

  \<^bold>\<open>The program.\<close>  \<^verbatim>\<open>plasma-network-healthd\<close> sends ICMP echo requests to the hosts that desktop widgets ask for and publishes a
  verdict on each of them.  A widget writes a JSON file below \<^verbatim>\<open>clients/\<close> in the runtime directory; the daemon reads these files, makes one
  prober for each combination of address, interval and timeout, feeds every result to the destinations that share the prober, and writes
  \<^verbatim>\<open>state.ini\<close> (base64 of JSON, for the widget) and \<^verbatim>\<open>state.json\<close> (for people).  One thread runs an epoll loop; name
  lookups are made by a second thread that talks to the first through two queues and an eventfd.

  \<^bold>\<open>Theories and sources.\<close>
  \<^item> \<open>Prelude\<close>: word lemmas, decimal text, and the three interfaces of the library: \<open>codec\<close> (a decoder undoes an encoder),
    \<open>step_invariant\<close> and \<open>simulation\<close> (folds of steps).
  \<^item> \<open>Util\<close> (\<^verbatim>\<open>util.cpp\<close>, \<^verbatim>\<open>util.h\<close>): logging, clocks, directories, files, base64.
  \<^item> \<open>Health\<close> (\<^verbatim>\<open>monitor.cpp\<close>: \<^verbatim>\<open>classify\<close> and the loop body of \<^verbatim>\<open>applySample\<close>): destinations and the sensitivity rule.
  \<^item> \<open>Pinger\<close> (\<^verbatim>\<open>pinger.cpp\<close>, \<^verbatim>\<open>pinger.h\<close>): sockets, packets, checksum, received datagrams.
  \<^item> \<open>Resolver\<close> (\<^verbatim>\<open>resolver.cpp\<close>, \<^verbatim>\<open>resolver.h\<close>): both threads, as a step relation between critical sections.
  \<^item> \<open>Monitor_State\<close>, \<open>Probing\<close>: the data of \<^verbatim>\<open>monitor.h\<close> and the probing half of \<^verbatim>\<open>monitor.cpp\<close>; \<open>Monitor_Invariant\<close>
    and \<open>Probing_Properties\<close> hold the invariant and what probing achieves.
  \<^item> \<open>Floating\<close>, \<open>Json\<close>, \<open>Json_Parser\<close> (\<^verbatim>\<open>json.hpp\<close>): doubles, the writer and the parser; \<open>Json_Properties\<close>,
    \<open>Json_Numbers\<close> and \<open>Json_Roundtrip\<close> hold their theorems.
  \<^item> \<open>Config\<close> (\<^verbatim>\<open>monitor.cpp\<close>: client files, reload, rebuilding, expiry); \<open>Config_Properties\<close>, \<open>Sharing\<close>, \<open>Reload\<close>.
  \<^item> \<open>Publish\<close> (\<^verbatim>\<open>monitor.cpp\<close>: \<^verbatim>\<open>buildStateJson\<close>, \<^verbatim>\<open>publish\<close>); \<open>Rounding\<close>, \<open>Publish_Properties\<close>, \<open>Widget_View\<close>.
  \<^item> \<open>Event_Loop\<close> (\<^verbatim>\<open>monitor.cpp\<close>: \<^verbatim>\<open>start\<close>, \<^verbatim>\<open>nextDeadline\<close>, \<^verbatim>\<open>run\<close>, destructor); \<open>Loop_Invariant\<close>,
    \<open>Loop_Properties\<close>, \<open>Idle_Exit\<close>.
  \<^item> \<open>Daemon\<close> (\<^verbatim>\<open>main.cpp\<close>): command line, lock, background, \<^verbatim>\<open>main\<close>; \<open>Daemon_Properties\<close>.

  \<^bold>\<open>State.\<close>  A C++ class is a record with the members' names (\<open>m_\<close> for the monitor, \<open>pr_\<close> a prober, \<open>d_\<close> a destination, \<open>c_\<close> a
  client, \<open>rs_\<close> the resolver, \<open>s_\<close> a socket, \<open>o_\<close> the options, \<open>p_\<close> the process); \<^verbatim>\<open>uint64_t\<close>, \<^verbatim>\<open>uint32_t\<close> and so on are words
  of their width, so clocks and counters wrap as in the code; \<^verbatim>\<open>int\<close> and \<^verbatim>\<open>size_t\<close> are unbounded where the code's own limits keep
  them small.  The operating system is the record \<open>env\<close>: each function gives the answer to the call with a given number, and \<open>m_osCalls\<close>
  counts the calls, so nothing is assumed about clocks, errors or the network unless a theorem says so.  The file system is a map from paths to
  contents and mode, and an operation that writes returns every state it passes through: the two published files, the removal of stale and of published
  files (each \<^verbatim>\<open>unlink\<close> may fail), and in \<open>Daemon\<close> the lock file that \<^verbatim>\<open>open\<close> creates when it is missing, the pid in it and the log file.  The map
  holds the names the process can use, so going to the root directory changes what a relative name means (\<open>seen_from\<close>).  The event loop works on a
  \<open>world\<close>, the monitor with these states.

  \<^bold>\<open>What is shown.\<close>
  \<^item> Verdicts: a known verdict changes exactly after as many agreeing results as the sensitivity asks for, never on a mixture, and an unknown one at the first result; the health fields
    stay consistent; counters count (C1, C2, C19, C20).
  \<^item> Probing: the invariant of the monitor, accounting of probes, replies reach exactly the subscribers and count once, the rate is bounded over any span of time without bursts, overdue
    probes are given up on time, lookups back off and start afresh after a success (C3 to C8, C21, C22).
  \<^item> JSON: printing and parsing are inverse, the parser is total and bounded, numbers survive, the payload is ASCII without line breaks (C9 to C12).
  \<^item> Resolver: answers in order, no lost wake-up, in every interleaving (C13, C14).
  \<^item> Packets and files: replies recovered, checksums verify, writes are atomic, base64 (C15 to C18).
  \<^item> Configuration: limits hold for any file, files round-trip, a reload keeps the invariant, shares exactly, keeps what should be kept and refines
    a grouping of destinations; expiry removes stale files only (C23 to C31).
  \<^item> Publishing: the widget reads what the monitor knows, in every member of the payload; the overall state and the loss are right (C32 to C34).
  \<^item> The loop: every reachable state is well-formed, the sleep is the distance to the earliest deadline, an idle daemon ends, and a busy loop that is a defect
    of the code (C35 to C38).
  \<^item> The program: a second instance does no harm, neither to the published files nor to the pid in the lock file; the command line means what it says (C39, C40).

  \<^bold>\<open>Bounds.\<close>  The JSON parser's recursion is bounded by the code's own limit of 64 levels, plus the length of the text for its loops; that is
  enough for every text (C10).  \<open>runLoop\<close> takes fuel because the daemon is meant to run for ever; \<open>Idle_Exit\<close> shows that it ends
  where the code means it to.  System calls that the code retries read a finite script of answers.

  \<^bold>\<open>Not modelled.\<close>  The widget (QML and JavaScript), apart from reading \<^verbatim>\<open>state.ini\<close>; build, packaging, service unit and installation
  scripts.  Of the C++ code: include directives, class declarations without initialisers, the time stamp of log lines, the joining of the
  resolver's thread, and the log lines of the monitor, none of which changes its state.
  Directories are not in the file system: those \<^verbatim>\<open>main\<close> makes are listed (\<open>p_made\<close>), those the monitor makes below them are calls whose answers count.  Nor is the text
  of the log file.  The kernel, \<^verbatim>\<open>getaddrinfo\<close> and the C library's
  error texts are parameters.
\<close>

end
